(* ===== verification/Prelude.thy ===== *)
theory Prelude
  imports Main "HOL-Library.Word"
begin

text \<open>
  Shared vocabulary of the development: the machine integers of a 32-bit x86 kernel,
  the collections of rewrite rules the component proofs draw on, and the facts about
  words, their natural-number readings and bounded counting loops that more than one
  component needs.
\<close>

unbundle bit_operations_syntax

type_synonym u8 = "8 word"
type_synonym u16 = "16 word"
type_synonym u32 = "32 word"

named_theorems word_nat \<open>comparisons and sums of words read as natural numbers\<close>
named_theorems mem_simps \<open>reading a memory after a write\<close>

section \<open>Words as natural numbers\<close>

declare word_less_nat_alt [word_nat]
declare word_le_nat_alt [word_nat]

lemma unat_lt_2p32 [simp]: "unat (w :: u32) < 4294967296"
  using unsigned_less [of w] by simp

lemma unat_lt_2p16 [simp]: "unat (w :: u16) < 65536"
  using unsigned_less [of w] by simp

lemma unat_lt_2p8 [simp]: "unat (w :: u8) < 256"
  using unsigned_less [of w] by simp

lemma unat_of_nat32 [word_nat]: "a < 4294967296 \<Longrightarrow> unat (of_nat a :: u32) = a"
  by (simp add: unat_of_nat)

lemma unat_of_nat16: "a < 65536 \<Longrightarrow> unat (of_nat a :: u16) = a"
  by (simp add: unat_of_nat)

lemma of_nat_inject32:
  "a < 4294967296 \<Longrightarrow> b < 4294967296 \<Longrightarrow> (of_nat a :: u32) = of_nat b \<longleftrightarrow> a = b"
  by (metis unat_of_nat32)

lemma of_nat_less32 [word_nat]:
  "a < 4294967296 \<Longrightarrow> b < 4294967296 \<Longrightarrow> (of_nat a :: u32) < of_nat b \<longleftrightarrow> a < b"
  by (simp add: word_less_nat_alt unat_of_nat32)

lemma of_nat_le32 [word_nat]:
  "a < 4294967296 \<Longrightarrow> b < 4294967296 \<Longrightarrow> (of_nat a :: u32) \<le> of_nat b \<longleftrightarrow> a \<le> b"
  by (simp add: word_le_nat_alt unat_of_nat32)

text \<open>A counter that is below a bound can be incremented without wrapping.\<close>

lemma unat_inc: "i < n \<Longrightarrow> unat (i + 1) = Suc (unat i)" for i n :: "'a::len word"
proof -
  assume "i < n"
  moreover have "unat n < 2 ^ LENGTH('a)" by (rule unsigned_less)
  ultimately have "unat i + 1 < 2 ^ LENGTH('a)"
    unfolding word_less_nat_alt by linarith
  then show ?thesis by (simp add: unat_word_ariths)
qed

lemma inc_le: "i < n \<Longrightarrow> i + 1 \<le> n" for i n :: "'a::len word"
  by (simp add: unat_inc word_le_nat_alt word_less_nat_alt Suc_le_eq)

lemma unat_add_noflow:
  "unat a + unat b < 4294967296 \<Longrightarrow> unat (a + b) = unat a + unat b" for a b :: u32
  by (simp add: unat_word_ariths)

lemma unat_sub_noflow: "b \<le> a \<Longrightarrow> unat (a - b) = unat a - unat b" for a b :: "'a::len word"
  by (rule unat_sub)

lemma word_between_inc: "i \<le> f \<Longrightarrow> f \<noteq> i \<Longrightarrow> i + 1 \<le> f" for i f :: "'a::len word"
  by (metis inc_le order_le_imp_less_or_eq)

section \<open>Addresses\<close>

text \<open>
  Proofs about memory layouts compute with addresses as natural numbers. \<open>w32\<close> turns a
  natural number into the machine word; it stays folded, so that sums and differences of
  addresses are decided by linear arithmetic.
\<close>

definition w32 :: "nat \<Rightarrow> u32" where "w32 n = of_nat n"

lemma unat_w32 [simp]: "n < 4294967296 \<Longrightarrow> unat (w32 n) = n"
  by (simp add: w32_def unat_of_nat32)

lemma w32_unat [simp]: "w32 (unat x) = x"
  by (simp add: w32_def)

lemma w32_add: "w32 a + w32 b = w32 (a + b)"
  by (simp add: w32_def)

lemma w32_sub: "b \<le> a \<Longrightarrow> w32 a - w32 b = w32 (a - b)"
  by (simp add: w32_def of_nat_diff)

lemma w32_mult: "w32 a * w32 b = w32 (a * b)"
  by (simp add: w32_def)

lemma w32_numeral: "numeral k = w32 (numeral k)" "1 = w32 1" "0 = w32 0"
  by (simp_all add: w32_def)

lemma w32_0 [simp]: "w32 0 = 0"
  by (simp add: w32_def)

lemma w32_eq_iff [simp]:
  "a < 4294967296 \<Longrightarrow> b < 4294967296 \<Longrightarrow> w32 a = w32 b \<longleftrightarrow> a = b"
  by (metis unat_w32)

lemma w32_less_iff [simp]:
  "a < 4294967296 \<Longrightarrow> b < 4294967296 \<Longrightarrow> w32 a < w32 b \<longleftrightarrow> a < b"
  by (simp add: word_less_nat_alt)

lemma w32_le_iff [simp]:
  "a < 4294967296 \<Longrightarrow> b < 4294967296 \<Longrightarrow> w32 a \<le> w32 b \<longleftrightarrow> a \<le> b"
  by (simp add: word_le_nat_alt)

lemma w32_eq_0_iff [simp]: "a < 4294967296 \<Longrightarrow> w32 a = 0 \<longleftrightarrow> a = 0"
  using w32_eq_iff [of a 0] by simp

lemma w32_eq_unatI: "unat x = n \<Longrightarrow> x = w32 n"
  by (metis w32_unat)

section \<open>Bits of bytes\<close>

lemma and_1_bit: "(w AND 1 = 0) \<longleftrightarrow> \<not> bit w 0" for w :: "'a::len word"
  by (metis and_one_eq bit_0 even_iff_mod_2_eq_zero)

lemma drop_bit_and_1: "(drop_bit n w AND 1 = 0) \<longleftrightarrow> \<not> bit w n" for w :: "'a::len word"
  by (simp add: and_1_bit bit_drop_bit_eq)

lemma bit_or_exp:
  "k < 8 \<Longrightarrow> bit (w OR 2 ^ k) j \<longleftrightarrow> j = k \<or> bit w j" for w :: u8
  by (auto simp: bit_or_iff bit_exp_iff)

lemma bit_and_not_exp:
  "k < 8 \<Longrightarrow> bit (w AND NOT (2 ^ k)) j \<longleftrightarrow> j \<noteq> k \<and> bit w j" for w :: u8
  by (auto simp: bit_and_iff bit_not_iff bit_exp_iff dest: bit_imp_le_length)

section \<open>Clearing low bits\<close>

lemma unat_and_not_mask:
  "unat (w AND NOT (mask n)) = unat w div 2 ^ n * 2 ^ n" for w :: "'a::len word"
proof -
  have "w AND NOT (mask n) = push_bit n (drop_bit n w)"
    by (rule bit_word_eqI) (auto simp: bit_simps)
  also have "unat \<dots> = take_bit LENGTH('a) (push_bit n (unat (drop_bit n w)))"
    by (simp add: unsigned_push_bit_eq)
  also have "push_bit n (unat (drop_bit n w)) = unat w div 2 ^ n * 2 ^ n"
    by (simp only: unat_drop_bit_eq) (simp add: push_bit_eq_mult drop_bit_eq_div)
  also have "take_bit LENGTH('a) \<dots> = \<dots>"
    by (rule take_bit_nat_eq_self) (meson div_times_less_eq_dividend le_less_trans unsigned_less)
  finally show ?thesis .
qed

lemma unat_and_not_4095: "unat (w AND NOT 4095) = unat w div 4096 * 4096" for w :: u32
  using unat_and_not_mask [of w 12] by (simp add: mask_eq_exp_minus_1)

lemma unat_and_page: "unat (w AND 0xFFFFF000) = unat w div 4096 * 4096" for w :: u32
proof -
  have "(0xFFFFF000 :: u32) = NOT 4095" by simp
  then show ?thesis by (simp only: unat_and_not_4095)
qed

lemma unat_and_not_3: "unat (w AND NOT 3) = unat w div 4 * 4" for w :: u32
  using unat_and_not_mask [of w 2] by (simp add: mask_eq_exp_minus_1)

lemma unat_and_not_1: "unat (w AND NOT 1) = unat w div 2 * 2" for w :: u32
  using unat_and_not_mask [of w 1] by (simp add: mask_eq_exp_minus_1)

lemma unat_and_1: "unat (w AND 1) = unat w mod 2" for w :: u32
  by (simp add: and_one_eq unat_mod)

section \<open>Counting loops\<close>

text \<open>
  The loops \<open>for (unsigned i = 0; i < n; i++)\<close> of the source either look for the first
  index with a property or apply an action at each index. \<open>find_from\<close> is the search;
  the component loops that search are shown equal to it.
\<close>

function find_from :: "(u32 \<Rightarrow> bool) \<Rightarrow> u32 \<Rightarrow> u32 \<Rightarrow> u32 option" where
  "find_from P n i = (if i < n then (if P i then Some i else find_from P n (i + 1)) else None)"
  by pat_completeness auto
termination
  by (relation "measure (\<lambda>(P, n, i). unat n - unat i)")
     (auto simp: unat_inc word_less_nat_alt)

declare find_from.simps [simp del]

lemma find_from_Some:
  "find_from P n i = Some k \<Longrightarrow> i \<le> k \<and> k < n \<and> P k \<and> (\<forall>j. i \<le> j \<longrightarrow> j < k \<longrightarrow> \<not> P j)"
proof (induction P n i rule: find_from.induct)
  case (1 P n i)
  show ?case
  proof (cases "i < n \<and> \<not> P i")
    case True
    with "1.prems" have rec: "find_from P n (i + 1) = Some k"
      by (simp add: find_from.simps [of P n i])
    with "1.IH" True
    have IH: "i + 1 \<le> k \<and> k < n \<and> P k \<and> (\<forall>j. i + 1 \<le> j \<longrightarrow> j < k \<longrightarrow> \<not> P j)"
      by blast
    from True have "unat (i + 1) = Suc (unat i)" by (blast intro: unat_inc)
    then have "i < i + 1" by (simp add: word_less_nat_alt)
    with IH have "i \<le> k" by (meson order_less_imp_le order_trans)
    moreover have "\<not> P j" if "i \<le> j" "j < k" for j
      using that IH True word_between_inc [of i j] by (cases "j = i") auto
    ultimately show ?thesis using IH by blast
  next
    case False
    with "1.prems" show ?thesis
      by (auto simp: find_from.simps [of P n i] split: if_splits)
  qed
qed

lemma find_from_None: "find_from P n i = None \<Longrightarrow> i \<le> j \<Longrightarrow> j < n \<Longrightarrow> \<not> P j"
proof (induction P n i rule: find_from.induct)
  case (1 P n i)
  from "1.prems"(2,3) have "i < n" by simp
  with "1.prems"(1) have "\<not> P i" and rec: "find_from P n (i + 1) = None"
    by (auto simp: find_from.simps [of P n i] split: if_splits)
  show ?case
  proof (cases "j = i")
    case True
    with \<open>\<not> P i\<close> show ?thesis by simp
  next
    case False
    with "1.prems"(2) have "i + 1 \<le> j" by (rule word_between_inc)
    with "1.IH" \<open>i < n\<close> \<open>\<not> P i\<close> rec "1.prems"(3) show ?thesis by blast
  qed
qed

lemma find_from_None_iff:
  "find_from P n i = None \<longleftrightarrow> (\<forall>j. i \<le> j \<longrightarrow> j < n \<longrightarrow> \<not> P j)"
  using find_from_None find_from_Some by (cases "find_from P n i") (blast, blast)

section \<open>Arrays of bits\<close>

text \<open>
  The contract of a bit array that is read and written one bit at a time. The page frame
  allocator provides it; its clients mark and clear runs of indices.
\<close>

locale bit_array =
  fixes test :: "'s \<Rightarrow> u32 \<Rightarrow> bool"
    and mark :: "u32 \<Rightarrow> 's \<Rightarrow> 's"
    and clear :: "u32 \<Rightarrow> 's \<Rightarrow> 's"
  assumes test_mark: "test (mark g s) f \<longleftrightarrow> f = g \<or> test s f"
    and test_clear: "test (clear g s) f \<longleftrightarrow> f \<noteq> g \<and> test s f"
begin

lemma test_mark_all: "test (fold mark gs s) f \<longleftrightarrow> f \<in> set gs \<or> test s f"
  by (induction gs arbitrary: s) (auto simp: test_mark)

lemma test_clear_all: "test (fold clear gs s) f \<longleftrightarrow> f \<notin> set gs \<and> test s f"
  by (induction gs arbitrary: s) (auto simp: test_clear)

lemma clear_mark_all:
  "\<forall>g \<in> set gs. \<not> test s g \<Longrightarrow> test (fold clear gs (fold mark gs s)) f \<longleftrightarrow> test s f"
  by (auto simp: test_mark_all test_clear_all)

end

text \<open>The indices \<open>start + j, \<dots>, start + count - 1\<close> a counting loop visits.\<close>

definition run_from :: "u32 \<Rightarrow> u32 \<Rightarrow> u32 \<Rightarrow> u32 list" where
  "run_from start j count = map (\<lambda>k. start + of_nat k) [unat j ..< unat count]"

lemma run_from_Cons: "j < count \<Longrightarrow> run_from start j count = (start + j) # run_from start (j + 1) count"
  by (simp add: run_from_def upt_conv_Cons unat_inc word_less_nat_alt)

lemma run_from_Nil: "\<not> j < count \<Longrightarrow> run_from start j count = []"
  by (simp add: run_from_def word_less_nat_alt)

lemma set_run_from: "set (run_from start 0 count) = (\<lambda>k. start + k) ` {k. k < count}"
proof -
  have "set (run_from start 0 count) = (\<lambda>k. start + of_nat k) ` {0 ..< unat count}"
    by (simp add: run_from_def)
  also have "\<dots> = (\<lambda>k. start + k) ` (of_nat ` {0 ..< unat count})"
    by (simp add: image_image)
  also have "of_nat ` {0 ..< unat count} = {k. k < count}"
  proof (intro equalityI subsetI)
    fix k assume "k \<in> {k. k < count}"
    then have "k = of_nat (unat k)" and "unat k \<in> {0 ..< unat count}"
      by (simp_all add: word_less_nat_alt)
    then show "k \<in> of_nat ` {0 ..< unat count}" by blast
  qed (auto simp: word_less_nat_alt unat_of_nat elim: le_less_trans [rotated])
  finally show ?thesis .
qed

end
