(* ===== verification/Memory.thy ===== *)
theory Memory
  imports Prelude
begin

text \<open>
  The kernel's flat 32-bit address space as a total map from addresses to bytes, the
  little-endian 32-bit loads and stores through which the C code accesses it, and the
  routines of \<^verbatim>\<open>kernel/lib.c\<close>. The string routines run until they meet a zero byte, so
  they are partial: \<open>None\<close> means that the loop never ends.
\<close>

type_synonym mem = "u32 \<Rightarrow> u8"

section \<open>Little-endian words\<close>

definition de32 :: "u8 \<Rightarrow> u8 \<Rightarrow> u8 \<Rightarrow> u8 \<Rightarrow> u32" where
  "de32 b0 b1 b2 b3 =
     ucast b0 OR push_bit 8 (ucast b1) OR push_bit 16 (ucast b2) OR push_bit 24 (ucast b3)"

definition byte_of :: "nat \<Rightarrow> u32 \<Rightarrow> u8" where
  "byte_of k w = ucast (drop_bit k w)"

definition rd32 :: "mem \<Rightarrow> u32 \<Rightarrow> u32" where
  "rd32 m a = de32 (m a) (m (a + 1)) (m (a + 2)) (m (a + 3))"

definition wr32 :: "mem \<Rightarrow> u32 \<Rightarrow> u32 \<Rightarrow> mem" where
  "wr32 m a v =
     m(a := byte_of 0 v, a + 1 := byte_of 8 v, a + 2 := byte_of 16 v, a + 3 := byte_of 24 v)"

section \<open>lib.c\<close>

fun memcpy_loop :: "nat \<Rightarrow> u32 \<Rightarrow> u32 \<Rightarrow> mem \<Rightarrow> mem" where
  "memcpy_loop 0 d s m = m"
| "memcpy_loop (Suc n) d s m = memcpy_loop n (d + 1) (s + 1) (m(d := m s))"

definition lib_memcpy :: "u32 \<Rightarrow> u32 \<Rightarrow> u32 \<Rightarrow> mem \<Rightarrow> mem" where
  "lib_memcpy dst src n m = memcpy_loop (unat n) dst src m"

fun memset_loop :: "nat \<Rightarrow> u32 \<Rightarrow> u8 \<Rightarrow> mem \<Rightarrow> mem" where
  "memset_loop 0 d v m = m"
| "memset_loop (Suc n) d v m = memset_loop n (d + 1) v (m(d := v))"

definition lib_memset :: "u32 \<Rightarrow> u32 \<Rightarrow> u32 \<Rightarrow> mem \<Rightarrow> mem" where
  "lib_memset dst v n m = memset_loop (unat n) dst (ucast v) m"

partial_function (option) strlen_loop :: "mem \<Rightarrow> u32 \<Rightarrow> u32 \<Rightarrow> u32 option" where
  "strlen_loop m s n = (if m s \<noteq> 0 then strlen_loop m (s + 1) (n + 1) else Some n)"

definition lib_strlen :: "mem \<Rightarrow> u32 \<Rightarrow> u32 option" where
  "lib_strlen m s = strlen_loop m s 0"

partial_function (option) lib_strcmp :: "mem \<Rightarrow> u32 \<Rightarrow> u32 \<Rightarrow> int option" where
  "lib_strcmp m a b =
     (if m a \<noteq> 0 \<and> m a = m b then lib_strcmp m (a + 1) (b + 1)
      else Some (uint (m a) - uint (m b)))"

partial_function (option) strcpy_loop :: "mem \<Rightarrow> u32 \<Rightarrow> u32 \<Rightarrow> mem option" where
  "strcpy_loop m dst src =
     (let c = m src; m' = m(dst := c)
      in if c \<noteq> 0 then strcpy_loop m' (dst + 1) (src + 1) else Some m')"

definition lib_strcpy :: "mem \<Rightarrow> u32 \<Rightarrow> u32 \<Rightarrow> mem option" where
  "lib_strcpy m dst src = (if dst = 0 \<or> src = 0 then Some m else strcpy_loop m dst src)"

text \<open>The bytes of a NUL-terminated string \<open>xs\<close> lie at address \<open>p\<close>.\<close>

fun cstr :: "mem \<Rightarrow> u32 \<Rightarrow> u8 list \<Rightarrow> bool" where
  "cstr m p [] \<longleftrightarrow> m p = 0"
| "cstr m p (x # xs) \<longleftrightarrow> m p = x \<and> x \<noteq> 0 \<and> cstr m (p + 1) xs"

section \<open>Loads after stores\<close>

lemma de32_byte_of [simp]: "de32 (byte_of 0 v) (byte_of 8 v) (byte_of 16 v) (byte_of 24 v) = v"
proof (rule bit_word_eqI)
  fix n
  assume "n < LENGTH(32)"
  then consider "n < 8" | "8 \<le> n" "n < 16" | "16 \<le> n" "n < 24" | "24 \<le> n" "n < 32"
    by force
  then show "bit (de32 (byte_of 0 v) (byte_of 8 v) (byte_of 16 v) (byte_of 24 v)) n = bit v n"
    by cases (auto simp: de32_def byte_of_def bit_simps)
qed

lemma byte_of_de32 [simp]:
  "byte_of 0 (de32 b0 b1 b2 b3) = b0" "byte_of 8 (de32 b0 b1 b2 b3) = b1"
  "byte_of 16 (de32 b0 b1 b2 b3) = b2" "byte_of 24 (de32 b0 b1 b2 b3) = b3"
  by (rule bit_word_eqI, auto simp: de32_def byte_of_def bit_simps dest: bit_imp_le_length)+

lemma rd32_wr32_same [simp, mem_simps]: "rd32 (wr32 m a v) a = v"
  by (simp add: rd32_def wr32_def)

lemma w32_bytes: "w32 a + 1 = w32 (a + 1)" "w32 a + 2 = w32 (a + 2)" "w32 a + 3 = w32 (a + 3)"
  by (simp_all add: w32_def)

lemma wr32_outside:
  assumes "x < a \<or> a + 4 \<le> x" and "a + 4 \<le> 4294967296" and "x < 4294967296"
  shows "wr32 m (w32 a) v (w32 x) = m (w32 x)"
  using assms by (auto simp: wr32_def w32_bytes)

lemma rd32_cong:
  assumes "\<And>k. k < 4 \<Longrightarrow> m (w32 (a + k)) = m' (w32 (a + k))"
  shows "rd32 m (w32 a) = rd32 m' (w32 a)"
  using assms [of 0] assms [of 1] assms [of 2] assms [of 3] by (simp add: rd32_def w32_bytes)

lemma rd32_wr32_other [mem_simps]:
  assumes "b + 4 \<le> a \<or> a + 4 \<le> b" and "a + 4 \<le> 4294967296" and "b + 4 \<le> 4294967296"
  shows "rd32 (wr32 m (w32 a) v) (w32 b) = rd32 m (w32 b)"
  by (rule rd32_cong, rule wr32_outside) (use assms in auto)

section \<open>Regions of memory that stay the same\<close>

text \<open>Two memories that agree outside the addresses from \<open>lo\<close> to \<open>hi\<close>.\<close>

definition same_outside :: "nat \<Rightarrow> nat \<Rightarrow> mem \<Rightarrow> mem \<Rightarrow> bool" where
  "same_outside lo hi m m' \<longleftrightarrow> (\<forall>x. unat x < lo \<or> hi \<le> unat x \<longrightarrow> m' x = m x)"

lemma same_outsideD:
  "same_outside lo hi m m' \<Longrightarrow> unat x < lo \<or> hi \<le> unat x \<Longrightarrow> m' x = m x"
  by (auto simp: same_outside_def)

lemma same_outside_refl [simp]: "same_outside lo hi m m"
  by (simp add: same_outside_def)

lemma same_outside_trans:
  "same_outside lo hi m m' \<Longrightarrow> same_outside lo' hi' m' m'' \<Longrightarrow> lo \<le> lo' \<Longrightarrow> hi' \<le> hi \<Longrightarrow>
   same_outside lo hi m m''"
  by (auto simp: same_outside_def)

lemma same_outside_mono:
  "same_outside lo' hi' m m' \<Longrightarrow> lo \<le> lo' \<Longrightarrow> hi' \<le> hi \<Longrightarrow> same_outside lo hi m m'"
  by (auto simp: same_outside_def)

lemma same_outside_wr32:
  assumes "lo \<le> a" and "a + 4 \<le> hi" and "hi \<le> 4294967296" and "same_outside lo hi m m'"
  shows "same_outside lo hi m (wr32 m' (w32 a) v)"
  unfolding same_outside_def
proof (intro allI impI)
  fix x :: u32
  assume x: "unat x < lo \<or> hi \<le> unat x"
  with assms(1-3) have "wr32 m' (w32 a) v (w32 (unat x)) = m' (w32 (unat x))"
    by (intro wr32_outside) auto
  with same_outsideD [OF assms(4) x] show "wr32 m' (w32 a) v x = m x" by simp
qed

lemma same_outside_rd32:
  assumes "same_outside lo hi m m'" and "a + 4 \<le> lo \<or> hi \<le> a" and "a + 4 \<le> 4294967296"
  shows "rd32 m' (w32 a) = rd32 m (w32 a)"
proof (rule rd32_cong)
  fix k :: nat
  assume "k < 4"
  with assms show "m' (w32 (a + k)) = m (w32 (a + k))"
    by (intro same_outsideD [OF assms(1)]) auto
qed

section \<open>What the routines of lib.c compute\<close>

text \<open>
  Offsets are taken modulo \<open>2 ^ 32\<close>, as the pointer arithmetic does, so the statements
  also cover regions that wrap around the top of the address space.
\<close>

lemma unat_minus_1_wrap: "unat (- 1 :: u32) = 4294967295"
  by (simp add: unsigned_minus_1_eq_mask mask_eq_exp_minus_1)

lemma offset_step:
  fixes x d :: u32
  assumes "x \<noteq> d"
  shows "unat (x - (d + 1)) = unat (x - d) - 1" and "0 < unat (x - d)"
proof -
  from assms have nz: "x - d \<noteq> 0" by simp
  then show "0 < unat (x - d)" by (simp add: unat_gt_0)
  have "x - (d + 1) = x - d - 1" by (rule diff_diff_eq [symmetric])
  then show "unat (x - (d + 1)) = unat (x - d) - 1" by (simp only: unat_minus_one [OF nz])
qed

lemma memset_loop_apply:
  "n \<le> 4294967296 \<Longrightarrow>
   memset_loop n d v m x = (if unat (x - d) < n then v else m x)"
proof (induction n arbitrary: d m)
  case (Suc n)
  show ?case
  proof (cases "x = d")
    case True
    have "d - (d + 1) = (- 1 :: u32)" by simp
    with Suc True show ?thesis by (simp add: unat_minus_1_wrap)
  next
    case False
    with Suc show ?thesis using offset_step [OF False] by auto
  qed
qed simp

lemma memcpy_loop_apply:
  "n \<le> 4294967296 \<Longrightarrow> d = s \<or> n \<le> unat (d - s) \<Longrightarrow>
   memcpy_loop n d s m x = (if unat (x - d) < n then m (s + (x - d)) else m x)"
proof (induction n arbitrary: d s m)
  case (Suc n)
  have IH: "memcpy_loop n (d + 1) (s + 1) (m(d := m s)) x =
      (if unat (x - (d + 1)) < n then (m(d := m s)) (s + 1 + (x - (d + 1)))
       else (m(d := m s)) x)"
    using Suc.prems by (intro Suc.IH) auto
  have shift: "s + 1 + (x - (d + 1)) = s + (x - d)" by simp
  show ?case
  proof (cases "x = d")
    case True
    have "d - (d + 1) = (- 1 :: u32)" by simp
    with Suc.prems IH True show ?thesis by (simp add: unat_minus_1_wrap)
  next
    case False
    have clear: "s + (x - d) \<noteq> d" if "unat (x - d) < Suc n"
    proof
      assume "s + (x - d) = d"
      then have "x - d = d - s" by (simp add: algebra_simps)
      with that Suc.prems(2) False show False by auto
    qed
    show ?thesis
      using IH offset_step [OF False] clear False unfolding shift by auto
  qed
qed simp

lemma strlen_loop_cstr:
  "cstr m p xs \<Longrightarrow> strlen_loop m p n = Some (n + of_nat (length xs))"
  by (induction xs arbitrary: p n) (auto simp: strlen_loop.simps [of m p for p] add.assoc)

lemma cstr_cong:
  "(\<And>k. k \<le> length xs \<Longrightarrow> m (p + of_nat k) = m' (p + of_nat k)) \<Longrightarrow>
   cstr m p xs = cstr m' p xs"
proof (induction xs arbitrary: p)
  case Nil
  from Nil [of 0] show ?case by simp
next
  case (Cons x xs)
  have "m (p + 1 + of_nat k) = m' (p + 1 + of_nat k)" if "k \<le> length xs" for k
    using Cons.prems [of "Suc k"] that by (simp add: add.assoc)
  then have "cstr m (p + 1) xs = cstr m' (p + 1) xs" by (rule Cons.IH)
  with Cons.prems [of 0] show ?case by simp
qed

lemma strcpy_loop_cstr:
  assumes "cstr m src xs" and "dst = src \<or> length xs < unat (dst - src)"
    and "length xs < 4294967296"
  shows "strcpy_loop m dst src = Some (memcpy_loop (Suc (length xs)) dst src m)"
  using assms
proof (induction xs arbitrary: m dst src)
  case Nil
  then show ?case by (simp add: strcpy_loop.simps [of m dst src] fun_upd_def)
next
  case (Cons x xs)
  let ?m = "m(dst := m src)"
  have "src + 1 + of_nat k \<noteq> dst \<or> dst = src" if "k \<le> length xs" for k
  proof (rule disjCI, rule notI)
    assume "dst \<noteq> src" and eq: "src + 1 + of_nat k = dst"
    then have "dst - src = of_nat (Suc k)" by (auto simp: algebra_simps)
    then have "unat (dst - src) \<le> Suc k" by (simp add: unat_of_nat del: of_nat_Suc)
    with Cons.prems(2) \<open>dst \<noteq> src\<close> that show False by auto
  qed
  then have "m (src + 1 + of_nat k) = ?m (src + 1 + of_nat k)" if "k \<le> length xs" for k
    using that by (metis fun_upd_apply)
  then have "cstr m (src + 1) xs = cstr ?m (src + 1) xs" by (rule cstr_cong)
  then have "cstr ?m (src + 1) xs" using Cons.prems(1) by (metis cstr.simps(2))
  then have "strcpy_loop ?m (dst + 1) (src + 1)
      = Some (memcpy_loop (Suc (length xs)) (dst + 1) (src + 1) ?m)"
    by (rule Cons.IH) (use Cons.prems(2,3) in auto)
  with Cons.prems(1) show ?case
    by (simp add: strcpy_loop.simps [of m dst src] Let_def)
qed

lemma uint_pos: "w \<noteq> 0 \<Longrightarrow> 0 < uint w" for w :: u8
  by (simp add: order_less_le uint_0_iff)

lemma strcmp_cstr:
  "cstr m a xs \<Longrightarrow> cstr m b ys \<Longrightarrow>
   \<exists>r. lib_strcmp m a b = Some r \<and> (r = 0 \<longleftrightarrow> xs = ys) \<and> (r < 0 \<longleftrightarrow> ord_class.lexordp xs ys)"
proof (induction xs arbitrary: a b ys)
  case Nil
  then show ?case
    by (cases ys) (auto simp: lib_strcmp.simps [of m a b] uint_0_iff uint_pos)
next
  case (Cons x xs)
  then show ?case
  proof (cases "\<exists>zs. ys = x # zs")
    case True
    then obtain zs where "ys = x # zs" by blast
    with Cons show ?thesis by (simp add: lib_strcmp.simps [of m a b])
  next
    case False
    with Cons.prems show ?thesis
      by (cases ys) (auto simp: lib_strcmp.simps [of m a b] word_less_def
          word_uint_eq_iff)
  qed
qed

end
