(* ===== verification/Heap.thy ===== *)
theory Heap
  imports Memory
begin

text \<open>
  The kernel heap, \<^verbatim>\<open>kernel/memory/heap.c\<close>: a boundary-tag allocator in the fixed region
  from \<open>HEAP_START\<close> to \<open>HEAP_START + HEAP_SIZE\<close>. Every block starts with a header word
  (its size, with bit 0 set while the block is in use) and ends with a footer word (its size).
  The operations work on the byte memory; \<open>heap_rep\<close> relates a memory to the list of
  blocks it holds, and the lemmas show that the C routines implement first-fit allocation
  with splitting, and freeing with coalescing, on such lists. Then the client's view is
  derived: a set of live allocations that never overlap and whose bytes no heap
  operation changes. The public wrappers take the heap lock around these routines.
\<close>

section \<open>The operations\<close>

definition HEAP_START :: u32 where "HEAP_START = 0x00800000"
definition HEAP_SIZE :: u32 where "HEAP_SIZE = 0x00200000"
definition HEADER_SIZE :: u32 where "HEADER_SIZE = 4"
definition FOOTER_SIZE :: u32 where "FOOTER_SIZE = 4"
definition MIN_BLOCK :: u32 where "MIN_BLOCK = HEADER_SIZE + FOOTER_SIZE + 4"
definition ALIGN :: u32 where "ALIGN = 4"

lemmas heap_consts = HEAP_START_def HEAP_SIZE_def HEADER_SIZE_def FOOTER_SIZE_def MIN_BLOCK_def
  ALIGN_def

definition set_footer :: "u32 \<Rightarrow> u32 \<Rightarrow> mem \<Rightarrow> mem" where
  "set_footer addr sz m = wr32 m (addr + sz - FOOTER_SIZE) sz"

definition heap_init :: "mem \<Rightarrow> mem" where
  "heap_init m = set_footer HEAP_START HEAP_SIZE (wr32 m HEAP_START HEAP_SIZE)"

text \<open>The first lines of \<open>malloc_impl\<close> and \<open>realloc_impl\<close>: the block a request needs.\<close>

definition align_size :: "u32 \<Rightarrow> u32" where
  "align_size sz = (sz + ALIGN - 1) AND NOT (ALIGN - 1)"

definition block_need :: "u32 \<Rightarrow> u32" where
  "block_need sz =
     (let need = HEADER_SIZE + align_size sz + FOOTER_SIZE
      in if need < MIN_BLOCK then MIN_BLOCK else need)"

text \<open>Taking a block for use, with the rest split off when it can hold a block.\<close>

definition malloc_take :: "u32 \<Rightarrow> u32 \<Rightarrow> u32 \<Rightarrow> mem \<Rightarrow> mem" where
  "malloc_take addr block_size need m =
     (let remaining = block_size - need
      in if remaining \<ge> MIN_BLOCK
         then let m = wr32 m addr (need OR 1);
                  m = set_footer addr need m;
                  m = wr32 m (addr + need) remaining
              in set_footer (addr + need) remaining m
         else let m = wr32 m addr (block_size OR 1)
              in set_footer addr block_size m)"

lemma walk_measure:
  assumes "addr < HEAP_START + HEAP_SIZE" and "bs \<noteq> 0" and "bs \<le> HEAP_SIZE"
  shows "4294967296 - unat (addr + bs) < 4294967296 - unat addr"
proof -
  from assms have "unat addr < 10485760" "0 < unat bs" "unat bs \<le> 2097152"
    by (auto simp: heap_consts word_nat unat_gt_0)
  then show ?thesis by (simp add: unat_add_noflow)
qed

text \<open>
  The search loop of \<open>malloc_impl\<close>. It stops the machine (\<open>None\<close>) on a block sz that
  cannot be right; otherwise the address grows, by at most \<open>HEAP_SIZE\<close>, so the loop ends on
  every memory.
\<close>

function malloc_loop :: "u32 \<Rightarrow> u32 \<Rightarrow> mem \<Rightarrow> (u32 \<times> mem) option" where
  "malloc_loop need addr m =
     (if addr < HEAP_START + HEAP_SIZE
      then let hdr = rd32 m addr; block_size = hdr AND NOT 1; is_free = (hdr AND 1 = 0)
           in if block_size = 0 \<or> block_size > HEAP_SIZE then None
              else if is_free \<and> block_size \<ge> need
                   then Some (addr + HEADER_SIZE, malloc_take addr block_size need m)
                   else malloc_loop need (addr + block_size) m
      else Some (0, m))"
  by pat_completeness auto
termination
  by (relation "measure (\<lambda>(need, addr, m). 4294967296 - unat addr)") (auto simp: walk_measure)

definition malloc_impl :: "u32 \<Rightarrow> mem \<Rightarrow> (u32 \<times> mem) option" where
  "malloc_impl sz m =
     (if sz = 0 then Some (0, m)
      else if sz > HEAP_SIZE then Some (0, m)
      else malloc_loop (block_need sz) HEAP_START m)"

text \<open>The two merging steps of \<open>free_impl\<close>.\<close>

definition free_merge_next :: "u32 \<Rightarrow> u32 \<Rightarrow> mem \<Rightarrow> u32 \<times> mem" where
  "free_merge_next addr sz m =
     (let next_addr = addr + sz
      in if next_addr \<ge> HEAP_START \<and> next_addr < HEAP_START + HEAP_SIZE
         then let next_hdr = rd32 m next_addr; next_size = next_hdr AND NOT 1
              in if next_size \<ge> MIN_BLOCK \<and> next_size < HEAP_SIZE \<and> next_hdr AND 1 = 0
                 then let sz = sz + next_size;
                          m = wr32 m addr sz
                      in (sz, set_footer addr sz m)
                 else (sz, m)
         else (sz, m))"

definition free_merge_prev :: "u32 \<Rightarrow> u32 \<Rightarrow> mem \<Rightarrow> mem" where
  "free_merge_prev addr sz m =
     (if addr > HEAP_START + MIN_BLOCK
      then let prev_size = rd32 m (addr - FOOTER_SIZE)
           in if prev_size \<ge> MIN_BLOCK \<and> prev_size < HEAP_SIZE
              then let prev_addr = addr - prev_size
                   in if prev_addr \<ge> HEAP_START \<and> prev_addr < addr
                      then if rd32 m prev_addr AND 1 = 0
                           then let sz = sz + prev_size;
                                    m = wr32 m prev_addr sz
                                in set_footer prev_addr sz m
                           else m
                      else m
              else m
      else m)"

definition free_impl :: "u32 \<Rightarrow> mem \<Rightarrow> mem" where
  "free_impl ptr m =
     (if ptr = 0 then m
      else let addr = ptr - HEADER_SIZE
           in if addr < HEAP_START \<or> addr \<ge> HEAP_START + HEAP_SIZE then m
              else let hdr = rd32 m addr; sz = hdr AND NOT 1
                   in if hdr AND 1 = 0 then m
                      else let m = wr32 m addr sz;
                               m = set_footer addr sz m;
                               (sz, m) = free_merge_next addr sz m
                           in free_merge_prev addr sz m)"

definition realloc_impl :: "u32 \<Rightarrow> u32 \<Rightarrow> mem \<Rightarrow> (u32 \<times> mem) option" where
  "realloc_impl ptr sz m =
     (if ptr = 0 then malloc_impl sz m
      else if sz = 0 then Some (0, free_impl ptr m)
      else let addr = ptr - HEADER_SIZE
           in if addr < HEAP_START \<or> addr \<ge> HEAP_START + HEAP_SIZE then Some (0, m)
              else let hdr = rd32 m addr; old_size = hdr AND NOT 1
                   in if hdr AND 1 = 0 then Some (0, m)
                      else let old_data_size = old_size - HEADER_SIZE - FOOTER_SIZE;
                               new_need = block_need sz;
                               sz = align_size sz
                           in if new_need \<le> old_size
                              then let remaining = old_size - new_need
                                   in if remaining \<ge> MIN_BLOCK
                                      then Some (ptr, malloc_take addr old_size new_need m)
                                      else Some (ptr, m)
                              else case malloc_impl sz m of
                                     None \<Rightarrow> None
                                   | Some (new_ptr, m) \<Rightarrow>
                                       if new_ptr = 0 then Some (0, m)
                                       else let copy_size = (if old_data_size < sz then old_data_size else sz);
                                                m = memcpy_loop (unat copy_size) new_ptr ptr m
                                            in Some (new_ptr, free_impl ptr m))"

definition calloc_impl :: "u32 \<Rightarrow> u32 \<Rightarrow> mem \<Rightarrow> (u32 \<times> mem) option" where
  "calloc_impl num sz m =
     (if num = 0 \<or> sz = 0 then Some (0, m)
      else if num > 0xFFFFFFFF div sz then Some (0, m)
      else let total = num * sz
           in case malloc_impl total m of
                None \<Rightarrow> None
              | Some (ptr, m) \<Rightarrow> Some (ptr, if ptr \<noteq> 0 then lib_memset ptr 0 total m else m))"

text \<open>
  \<open>heap_walk_impl\<close> prints one line per block and the totals; the report is what it prints.
\<close>

record heap_report =
  walk_lines :: "(u32 \<times> bool \<times> u32) list"
  corrupt_at :: "u32 option"
  total_free :: u32
  total_used :: u32
  walk_blocks :: u32

function heap_walk_loop :: "u32 \<Rightarrow> heap_report \<Rightarrow> mem \<Rightarrow> heap_report" where
  "heap_walk_loop addr r m =
     (if addr < HEAP_START + HEAP_SIZE
      then let hdr = rd32 m addr; block_size = hdr AND NOT 1; is_free = (hdr AND 1 = 0)
           in if block_size = 0 \<or> block_size > HEAP_SIZE then r\<lparr>corrupt_at := Some addr\<rparr>
              else heap_walk_loop (addr + block_size)
                     (r\<lparr>walk_lines := walk_lines r @ [(addr, is_free, block_size)],
                        total_free := (if is_free then total_free r + block_size else total_free r),
                        total_used := (if is_free then total_used r else total_used r + block_size),
                        walk_blocks := walk_blocks r + 1\<rparr>) m
      else r)"
  by pat_completeness auto
termination
  by (relation "measure (\<lambda>(addr, r, m). 4294967296 - unat addr)") (auto simp: walk_measure)

definition heap_walk_impl :: "mem \<Rightarrow> heap_report" where
  "heap_walk_impl m = heap_walk_loop HEAP_START
     \<lparr>walk_lines = [], corrupt_at = None, total_free = 0, total_used = 0, walk_blocks = 0\<rparr> m"

declare malloc_loop.simps [simp del] heap_walk_loop.simps [simp del]

section \<open>Memories that hold a list of blocks\<close>

type_synonym block = "nat \<times> bool"

abbreviation HS :: nat where "HS \<equiv> 8388608"

definition total :: "block list \<Rightarrow> nat" where
  "total bs = (\<Sum>b\<leftarrow>bs. fst b)"

lemma total_simps [simp]:
  "total [] = 0" "total ((n, u) # bs) = n + total bs" "total (xs @ ys) = total xs + total ys"
  by (simp_all add: total_def)

definition header :: "nat \<Rightarrow> bool \<Rightarrow> u32" where
  "header n u = w32 (if u then n + 1 else n)"

fun blocks_at :: "mem \<Rightarrow> nat \<Rightarrow> block list \<Rightarrow> bool" where
  "blocks_at m a [] \<longleftrightarrow> True"
| "blocks_at m a ((n, u) # bs) \<longleftrightarrow>
     12 \<le> n \<and> 4 dvd n \<and> rd32 m (w32 a) = header n u \<and>
     rd32 m (w32 (a + n - 4)) = w32 n \<and> blocks_at m (a + n) bs"

definition heap_rep :: "mem \<Rightarrow> block list \<Rightarrow> bool" where
  "heap_rep m bs \<longleftrightarrow> blocks_at m HS bs \<and> total bs = 2097152"

lemma blocks_at_append [simp]:
  "blocks_at m a (xs @ ys) \<longleftrightarrow> blocks_at m a xs \<and> blocks_at m (a + total xs) ys"
  by (induction xs arbitrary: a) (auto simp: add.assoc)

lemma blocks_at_same_outside:
  "blocks_at m a bs \<Longrightarrow> same_outside lo hi m m' \<Longrightarrow> a + total bs \<le> lo \<or> hi \<le> a \<Longrightarrow>
   a + total bs \<le> 4294967296 \<Longrightarrow> blocks_at m' a bs"
proof (induction bs arbitrary: a)
  case (Cons b bs)
  obtain n u where b: "b = (n, u)" by force
  with Cons.prems have "12 \<le> n" and bound: "a + n + total bs \<le> 4294967296"
    and side: "a + n + total bs \<le> lo \<or> hi \<le> a" by (simp_all add: add.assoc)
  then have "rd32 m' (w32 a) = rd32 m (w32 a)"
    "rd32 m' (w32 (a + n - 4)) = rd32 m (w32 (a + n - 4))"
    by (auto intro!: same_outside_rd32 [OF Cons.prems(2)])
  moreover have "blocks_at m' (a + n) bs"
    using Cons.prems(1,2) b bound side by (intro Cons.IH) (auto simp: add.assoc)
  ultimately show ?case using Cons.prems(1) b by simp
qed simp

text \<open>Replacing a run of blocks by other blocks of the same total size.\<close>

lemma blocks_at_replace:
  assumes "blocks_at m a (xs @ mid @ ys)" and "a + total (xs @ mid @ ys) \<le> 4294967296"
    and "same_outside (a + total xs) (a + total xs + total mid) m m'"
    and "blocks_at m' (a + total xs) mid'" and "total mid' = total mid"
  shows "blocks_at m' a (xs @ mid' @ ys)"
proof -
  have "blocks_at m' a xs"
    by (rule blocks_at_same_outside [OF _ assms(3)]) (use assms(1,2) in auto)
  moreover have "blocks_at m' (a + total xs + total mid) ys"
    by (rule blocks_at_same_outside [OF _ assms(3)]) (use assms(1,2) in \<open>auto simp: add.assoc\<close>)
  ultimately show ?thesis using assms(4,5) by simp
qed

lemma heap_rep_replace:
  assumes "heap_rep m (xs @ mid @ ys)"
    and "same_outside (HS + total xs) (HS + total xs + total mid) m m'"
    and "blocks_at m' (HS + total xs) mid'" and "total mid' = total mid"
  shows "heap_rep m' (xs @ mid' @ ys)"
  using assms blocks_at_replace [of m HS xs mid ys m' mid'] by (simp add: heap_rep_def)

section \<open>First fit\<close>

fun fit :: "nat \<Rightarrow> block list \<Rightarrow> (block list \<times> nat \<times> block list) option" where
  "fit need [] = None"
| "fit need ((n, u) # bs) =
     (if \<not> u \<and> need \<le> n then Some ([], n, bs)
      else case fit need bs of None \<Rightarrow> None | Some (xs, k, ys) \<Rightarrow> Some ((n, u) # xs, k, ys))"

definition carve :: "nat \<Rightarrow> nat \<Rightarrow> block list" where
  "carve need n = (if 12 \<le> n - need then [(need, True), (n - need, False)] else [(n, True)])"

lemma fit_Some:
  "fit need bs = Some (xs, n, ys) \<Longrightarrow>
   bs = xs @ (n, False) # ys \<and> need \<le> n \<and> (\<forall>b \<in> set xs. snd b \<or> fst b < need)"
proof (induction bs arbitrary: xs)
  case (Cons b bs)
  then show ?case by (cases b) (fastforce split: if_splits option.splits)
qed simp

lemma fit_None: "fit need bs = None \<longleftrightarrow> (\<forall>b \<in> set bs. snd b \<or> fst b < need)"
proof (induction bs)
  case (Cons b bs)
  then show ?case by (cases b) (simp split: option.splits, force)
qed simp

text \<open>Reading and building header words.\<close>

lemma header_word [simp]:
  assumes "4 dvd n" and "n < 4294967295"
  shows "header n u AND - 2 = w32 n" and "header n u AND 1 = 0 \<longleftrightarrow> \<not> u"
proof -
  have even: "even n" using assms(1) by presburger
  have "header n u AND NOT 1 = w32 n"
    by (rule w32_eq_unatI, subst unat_and_not_1) (use assms(2) even in \<open>auto simp: header_def\<close>)
  then show "header n u AND - 2 = w32 n" by simp
  have "header n u AND 1 = 0 \<longleftrightarrow> unat (header n u AND 1) = 0" by (simp add: unat_eq_zero)
  also have "\<dots> \<longleftrightarrow> \<not> u" using assms(2) even by (auto simp: unat_and_1 header_def)
  finally show "header n u AND 1 = 0 \<longleftrightarrow> \<not> u" .
qed

lemma used_word: "4 dvd n \<Longrightarrow> w32 n OR 1 = header n True"
proof -
  assume "4 dvd n"
  then have "even (w32 n)" by (auto simp: w32_def)
  then show ?thesis by (simp add: header_def w32_def or_one_eq add.commute)
qed

lemma heap_w32:
  "HEAP_START = w32 8388608" "HEAP_SIZE = w32 2097152"
  "HEADER_SIZE = w32 4" "FOOTER_SIZE = w32 4" "MIN_BLOCK = w32 12"
  by (simp_all add: heap_consts w32_def)

lemma malloc_loop_fit:
  assumes "blocks_at m a bs" and "a + total bs = 10485760" and "HS \<le> a" and "need < 4294967296"
  shows "malloc_loop (w32 need) (w32 a) m =
    (case fit need bs of
       None \<Rightarrow> Some (0, m)
     | Some (xs, n, ys) \<Rightarrow>
         Some (w32 (a + total xs + 4), malloc_take (w32 (a + total xs)) (w32 n) (w32 need) m))"
  using assms
proof (induction bs arbitrary: a)
  case Nil
  then show ?case by (subst malloc_loop.simps) (simp add: heap_w32 w32_add)
next
  case (Cons b bs)
  obtain n u where b: "b = (n, u)" by force
  with Cons.prems have n: "12 \<le> n" "4 dvd n" "rd32 m (w32 a) = header n u"
    and size: "a + n + total bs = 10485760" "n \<le> 2097152" and rest: "blocks_at m (a + n) bs"
    by (simp_all add: add.assoc)
  have IH: "malloc_loop (w32 need) (w32 (a + n)) m =
    (case fit need bs of
       None \<Rightarrow> Some (0, m)
     | Some (xs, k, ys) \<Rightarrow>
         Some (w32 (a + n + total xs + 4), malloc_take (w32 (a + n + total xs)) (w32 k) (w32 need) m))"
    using Cons.prems rest size by (intro Cons.IH) simp_all
  have "malloc_loop (w32 need) (w32 a) m =
     (if \<not> u \<and> need \<le> n then Some (w32 (a + 4), malloc_take (w32 a) (w32 n) (w32 need) m)
      else malloc_loop (w32 need) (w32 (a + n)) m)"
    using n size Cons.prems(4)
    by (subst malloc_loop.simps) (simp add: Let_def heap_w32 w32_add)
  with IH b show ?case by (auto simp: add.assoc split: option.splits)
qed

section \<open>Writing blocks\<close>

text \<open>Writing the header and the footer of one block, as every operation does.\<close>

definition put_block :: "nat \<Rightarrow> nat \<Rightarrow> bool \<Rightarrow> mem \<Rightarrow> mem" where
  "put_block a n u m = wr32 (wr32 m (w32 a) (header n u)) (w32 (a + n - 4)) (w32 n)"

lemma put_blockI:
  assumes "4 \<le> n"
  shows "set_footer (w32 a) (w32 n) (wr32 m (w32 a) (header n u)) = put_block a n u m"
    and "set_footer (w32 a) (w32 n) (wr32 m (w32 a) (w32 n)) = put_block a n False m"
  using assms by (simp_all add: set_footer_def put_block_def heap_w32 w32_add w32_sub header_def)

lemma same_outside_put_block:
  assumes "12 \<le> n" and "lo \<le> a" and "a + n \<le> hi" and "hi \<le> 4294967296" and "same_outside lo hi m m'"
  shows "same_outside lo hi m (put_block a n u m')"
  unfolding put_block_def using assms by (intro same_outside_wr32) simp_all

lemma blocks_at_put_block:
  assumes "12 \<le> n" and "4 dvd n" and "a + n \<le> 4294967296"
  shows "blocks_at (put_block a n u m) a [(n, u)]"
  using assms by (simp add: put_block_def mem_simps)

lemma rd32_put_block_other:
  assumes "12 \<le> n" and "b + 4 \<le> a \<or> a + n \<le> b" and "a + n \<le> 4294967296" and "b + 4 \<le> 4294967296"
  shows "rd32 (put_block a n u m) (w32 b) = rd32 m (w32 b)"
  by (rule same_outside_rd32 [of a "a + n"]) (use assms in \<open>auto intro!: same_outside_put_block\<close>)

text \<open>A free list position: where one block of the heap lies and how large it can be.\<close>

lemma heap_rep_at:
  assumes "heap_rep m (xs @ (n, u) # ys)"
  shows "12 \<le> n" "4 dvd n" "HS + total xs + n + total ys = 10485760"
    "rd32 m (w32 (HS + total xs)) = header n u" "rd32 m (w32 (HS + total xs + n - 4)) = w32 n"
  using assms by (auto simp: heap_rep_def)

lemma put_block_rep:
  assumes "heap_rep m (xs @ mid @ ys)" and "total mid = n" and "12 \<le> n" and "4 dvd n"
  shows "heap_rep (put_block (HS + total xs) n u m) (xs @ (n, u) # ys)"
    and "same_outside (HS + total xs) (HS + total xs + n) m (put_block (HS + total xs) n u m)"
proof -
  from assms(1,2) have le: "HS + total xs + n \<le> 10485760" by (simp add: heap_rep_def)
  then show same: "same_outside (HS + total xs) (HS + total xs + n) m (put_block (HS + total xs) n u m)"
    using assms(3) by (intro same_outside_put_block) simp_all
  have "blocks_at (put_block (HS + total xs) n u m) (HS + total xs) [(n, u)]"
    using le assms(3,4) by (intro blocks_at_put_block) simp_all
  then have "heap_rep (put_block (HS + total xs) n u m) (xs @ [(n, u)] @ ys)"
    by (rule heap_rep_replace [OF assms(1), rotated]) (use same assms(2) in simp_all)
  then show "heap_rep (put_block (HS + total xs) n u m) (xs @ (n, u) # ys)" by simp
qed

lemma malloc_take_eq:
  assumes "heap_rep m (xs @ (n, u) # ys)" and "12 \<le> need" and "4 dvd need" and "need \<le> n"
  shows "malloc_take (w32 (HS + total xs)) (w32 n) (w32 need) m =
    (if 12 \<le> n - need
     then put_block (HS + total xs + need) (n - need) False (put_block (HS + total xs) need True m)
     else put_block (HS + total xs) n True m)"
  using heap_rep_at(1-3) [OF assms(1)] assms(2-4)
  by (simp add: malloc_take_def Let_def heap_w32 w32_sub used_word) (simp add: put_blockI w32_add)

lemma malloc_take_rep:
  assumes "heap_rep m (xs @ (n, u) # ys)" and "12 \<le> need" and "4 dvd need" and "need \<le> n"
  shows "heap_rep (malloc_take (w32 (HS + total xs)) (w32 n) (w32 need) m) (xs @ carve need n @ ys)"
    and "same_outside (HS + total xs) (HS + total xs + n) m
           (malloc_take (w32 (HS + total xs)) (w32 n) (w32 need) m)"
proof -
  let ?a = "HS + total xs" and ?m = "malloc_take (w32 (HS + total xs)) (w32 n) (w32 need) m"
  note at = heap_rep_at [OF assms(1)]
  note m = malloc_take_eq [OF assms]
  show same: "same_outside ?a (?a + n) m ?m"
    unfolding m using at(1,3) assms(2,4) by (auto intro!: same_outside_put_block)
  have "blocks_at ?m ?a (carve need n)"
  proof (cases "12 \<le> n - need")
    case True
    let ?m1 = "put_block ?a need True m"
    have "blocks_at ?m1 ?a [(need, True)]"
      using at(3) assms(2-4) by (intro blocks_at_put_block) auto
    moreover have "same_outside (?a + need) (?a + n) ?m1 ?m"
      unfolding m if_P [OF True] by (rule same_outside_put_block) (use True at(3) assms(4) in simp_all)
    ultimately have "blocks_at ?m ?a [(need, True)]"
      by (rule blocks_at_same_outside) (use at(3) assms(4) in simp_all)
    moreover have "blocks_at ?m (?a + need) [(n - need, False)]"
      unfolding m using True at(2,3) assms(3,4) by (simp only: if_True, intro blocks_at_put_block) auto
    ultimately show ?thesis using True by (simp add: carve_def)
  next
    case False
    then have "?m = put_block ?a n True m" by (simp add: m)
    with False show ?thesis
      unfolding carve_def using blocks_at_put_block [of n ?a True m] at(1,2,3) by simp
  qed
  with same show "heap_rep ?m (xs @ carve need n @ ys)"
    using heap_rep_replace [of m xs "[(n, u)]" ys ?m "carve need n"] assms(1,4)
    by (simp add: carve_def)
qed

section \<open>Freeing\<close>

text \<open>
  What \<open>free_impl\<close> does to the list of blocks: the block becomes free and absorbs a free
  successor, then the predecessor absorbs it if it is free. The test
  \<open>addr > HEAP_START + MIN_BLOCK\<close> leaves out a predecessor that is the first block of the
  heap and has the minimal size.
\<close>

definition absorb_next :: "nat \<Rightarrow> block list \<Rightarrow> block list" where
  "absorb_next n ys =
     (case ys of (k, False) # zs \<Rightarrow> (n + k, False) # zs | _ \<Rightarrow> (n, False) # ys)"

definition absorb_prev :: "block list \<Rightarrow> block list \<Rightarrow> block list" where
  "absorb_prev xs bs =
     (if 12 < total xs \<and> \<not> snd (last xs)
      then butlast xs @ (fst (last xs) + fst (hd bs), False) # tl bs
      else xs @ bs)"

lemma total_absorb_next [simp]: "total (absorb_next n ys) = n + total ys"
  by (auto simp: absorb_next_def split: list.splits prod.splits bool.splits)

lemma merge_next_rep:
  assumes "heap_rep m (xs @ (n, False) # ys)"
  obtains n' m' where "free_merge_next (w32 (HS + total xs)) (w32 n) m = (w32 n', m')"
    and "\<exists>zs. absorb_next n ys = (n', False) # zs" and "heap_rep m' (xs @ absorb_next n ys)"
    and "same_outside (HS + total xs) (HS + total xs + n') m m'"
proof (cases "\<exists>k zs. ys = (k, False) # zs")
  case True
  then obtain k zs where ys: "ys = (k, False) # zs" by blast
  let ?a = "HS + total xs" and ?m = "put_block (HS + total xs) (n + k) False m"
  note at = heap_rep_at [OF assms]
  have "heap_rep m ((xs @ [(n, False)]) @ (k, False) # zs)" using assms ys by simp
  note at' = heap_rep_at [OF this]
  have merge: "free_merge_next (w32 ?a) (w32 n) m = (w32 (n + k), ?m)"
    using at(1,2,3) at' by (simp add: free_merge_next_def Let_def heap_w32 w32_add put_blockI add.assoc)
  have "heap_rep m (xs @ [(n, False), (k, False)] @ zs)" using assms ys by simp
  note new = put_block_rep [OF this, of "n + k" False]
  have abs: "absorb_next n ys = (n + k, False) # zs" by (simp add: absorb_next_def ys)
  show thesis
    by (rule that [OF merge], unfold abs) (use new at(1,2) at'(2) in simp_all)
next
  case False
  note at = heap_rep_at [OF assms]
  have *: "absorb_next n ys = (n, False) # ys"
    using False by (auto simp: absorb_next_def split: list.splits prod.splits bool.splits)
  have "free_merge_next (w32 (HS + total xs)) (w32 n) m = (w32 n, m)"
  proof (cases ys)
    case Nil
    with at(3) show ?thesis by (simp add: free_merge_next_def Let_def heap_w32 w32_add)
  next
    case (Cons y zs)
    with False obtain k where y: "y = (k, True)" by (cases y) auto
    with assms Cons have "heap_rep m ((xs @ [(n, False)]) @ (k, True) # zs)" by simp
    from heap_rep_at [OF this] at(3) show ?thesis
      by (simp add: free_merge_next_def Let_def heap_w32 w32_add add.assoc)
  qed
  with that * assms show thesis by simp
qed

lemma merge_prev_eq:
  assumes "heap_rep m (xs @ (n, False) # ys)"
  shows "free_merge_prev (w32 (HS + total xs)) (w32 n) m =
    (if 12 < total xs \<and> \<not> snd (last xs)
     then put_block (HS + total (butlast xs)) (fst (last xs) + n) False m else m)"
proof (cases "12 < total xs")
  case False
  with heap_rep_at(3) [OF assms] show ?thesis by (simp add: free_merge_prev_def heap_w32 w32_add)
next
  case True
  then obtain zs k u where xs: "xs = zs @ [(k, u)]" by (cases xs rule: rev_cases) auto
  have "heap_rep m (zs @ (k, u) # (n, False) # ys)" using assms xs by simp
  note at' = heap_rep_at [OF this]
  have a: "HS + total xs = HS + total zs + k" by (simp add: xs)
  show ?thesis
    using heap_rep_at(1) [OF assms] True xs at'
    by (auto simp: free_merge_prev_def Let_def heap_w32 w32_add w32_sub a put_blockI add.commute)
qed

lemma rd32_inside_put_block:
  assumes "a + 4 \<le> b" and "b + 8 \<le> a + n" and "a + n \<le> 4294967296"
  shows "rd32 (put_block a n u m) (w32 b) = rd32 m (w32 b)"
proof -
  have "rd32 (put_block a n u m) (w32 b) = rd32 (wr32 m (w32 a) (header n u)) (w32 b)"
    unfolding put_block_def by (rule rd32_wr32_other) (use assms in auto)
  also have "\<dots> = rd32 m (w32 b)" by (rule rd32_wr32_other) (use assms in auto)
  finally show ?thesis .
qed

lemma merge_prev_rep:
  assumes "heap_rep m (xs @ (n, False) # ys)"
  defines "m' \<equiv> free_merge_prev (w32 (HS + total xs)) (w32 n) m"
  shows "heap_rep m' (absorb_prev xs ((n, False) # ys))"
    and "same_outside (if snd (last xs) \<or> xs = [] then HS + total xs else HS + total (butlast xs))
           (HS + total xs + n) m m'"
    and "rd32 m' (w32 (HS + total xs)) = header n False"
proof -
  let ?P = "heap_rep m' (absorb_prev xs ((n, False) # ys)) \<and>
      same_outside (if snd (last xs) \<or> xs = [] then HS + total xs else HS + total (butlast xs))
        (HS + total xs + n) m m' \<and> rd32 m' (w32 (HS + total xs)) = header n False"
  note at = heap_rep_at [OF assms(1)] and eq = merge_prev_eq [OF assms(1), folded m'_def]
  have ?P
  proof (cases "12 < total xs \<and> \<not> snd (last xs)")
    case False
    then have "m' = m" using eq by auto
    with False assms(1) at(4) show ?thesis by (auto simp: absorb_prev_def)
  next
    case True
    then obtain zs k where xs: "xs = zs @ [(k, False)]" by (cases xs rule: rev_cases) auto
    have m': "m' = put_block (HS + total zs) (k + n) False m" using eq True xs by simp
    have "heap_rep m (zs @ (k, False) # (n, False) # ys)" using assms(1) xs by simp
    note at' = heap_rep_at [OF this]
    have "heap_rep m (zs @ [(k, False), (n, False)] @ ys)" using assms(1) xs by simp
    note new = put_block_rep [OF this, of "k + n" False, folded m']
    have "rd32 m' (w32 (HS + total zs + k)) = rd32 m (w32 (HS + total zs + k))"
      unfolding m' using at(1,3) at'(1,3) by (intro rd32_inside_put_block) simp_all
    with new at(1,2,4) at'(2) True xs show ?thesis by (simp add: absorb_prev_def add.assoc)
  qed
  then show "heap_rep m' (absorb_prev xs ((n, False) # ys))"
    and "same_outside (if snd (last xs) \<or> xs = [] then HS + total xs else HS + total (butlast xs))
           (HS + total xs + n) m m'"
    and "rd32 m' (w32 (HS + total xs)) = header n False"
    by blast+
qed

definition afree :: "block list \<Rightarrow> nat \<Rightarrow> block list \<Rightarrow> block list" where
  "afree xs n ys = absorb_prev xs (absorb_next n ys)"

text \<open>The bytes \<open>free_impl\<close> may change: the freed block and its free neighbours.\<close>

definition free_lo :: "block list \<Rightarrow> nat" where
  "free_lo xs = (if snd (last xs) \<or> xs = [] then HS + total xs else HS + total (butlast xs))"

definition free_hi :: "block list \<Rightarrow> nat \<Rightarrow> block list \<Rightarrow> nat" where
  "free_hi xs n ys = HS + total xs + fst (hd (absorb_next n ys))"

lemma total_butlast: "xs \<noteq> [] \<Longrightarrow> total (butlast xs) + fst (last xs) = total xs"
  by (cases xs rule: rev_cases) auto

lemma free_lo_le: "free_lo xs \<le> HS + total xs"
  using total_butlast [of xs] by (auto simp: free_lo_def)

lemma free_rep:
  assumes "heap_rep m (xs @ (n, True) # ys)"
  shows "heap_rep (free_impl (w32 (HS + total xs + 4)) m) (afree xs n ys)"
    and "same_outside (free_lo xs) (free_hi xs n ys) m (free_impl (w32 (HS + total xs + 4)) m)"
    and "rd32 (free_impl (w32 (HS + total xs + 4)) m) (w32 (HS + total xs)) AND 1 = 0"
proof -
  let ?a = "HS + total xs"
  note at = heap_rep_at [OF assms]
  have rep: "heap_rep m (xs @ [(n, True)] @ ys)" using assms by simp
  let ?m1 = "put_block ?a n False m"
  have m1: "heap_rep ?m1 (xs @ (n, False) # ys)" "same_outside ?a (?a + n) m ?m1"
    using put_block_rep [OF rep, of n False] at(1,2) by simp_all
  obtain n' m2 where m2: "free_merge_next (w32 ?a) (w32 n) ?m1 = (w32 n', m2)"
      "\<exists>zs. absorb_next n ys = (n', False) # zs" "heap_rep m2 (xs @ absorb_next n ys)"
      "same_outside ?a (?a + n') ?m1 m2"
    using merge_next_rep [OF m1(1)] .
  then obtain zs where zs: "absorb_next n ys = (n', False) # zs" by blast
  let ?m3 = "free_merge_prev (w32 ?a) (w32 n') m2"
  note m3 = merge_prev_rep [OF m2(3) [unfolded zs]]
  have free: "free_impl (w32 (?a + 4)) m = ?m3"
    using at m2(1) by (simp add: free_impl_def Let_def heap_w32 w32_sub w32_add put_blockI)
  show "heap_rep (free_impl (w32 (?a + 4)) m) (afree xs n ys)"
    unfolding free using m3(1) by (simp add: afree_def zs)
  show "rd32 (free_impl (w32 (?a + 4)) m) (w32 ?a) AND 1 = 0"
    unfolding free m3(3) using heap_rep_at(2,3) [OF m2(3) [unfolded zs]] by simp
  have "n \<le> n'" using zs by (auto simp: absorb_next_def split: list.splits prod.splits bool.splits)
  have "same_outside (free_lo xs) (?a + n') m ?m1"
    by (rule same_outside_mono [OF m1(2)]) (use \<open>n \<le> n'\<close> free_lo_le in auto)
  moreover have "same_outside (free_lo xs) (?a + n') ?m1 ?m3"
    by (rule same_outside_trans [OF _ m3(2)], rule same_outside_mono [OF m2(4)])
       (use free_lo_le in \<open>auto simp: free_lo_def\<close>)
  ultimately show "same_outside (free_lo xs) (free_hi xs n ys) m (free_impl (w32 (?a + 4)) m)"
    unfolding free free_hi_def zs by (auto intro: same_outside_trans)
qed

section \<open>The blocks of a memory\<close>

lemma heap_walk_loop_blocks:
  assumes "blocks_at m a bs" and "a + total bs = 10485760" and "HS \<le> a"
  shows "\<exists>r'. heap_walk_loop (w32 a) r m = r' \<and> corrupt_at r' = corrupt_at r \<and>
    map (\<lambda>(a, f, s). (unat s, \<not> f)) (walk_lines r') =
      map (\<lambda>(a, f, s). (unat s, \<not> f)) (walk_lines r) @ bs \<and>
    total_free r' = total_free r + w32 (total (filter (\<lambda>b. \<not> snd b) bs)) \<and>
    total_used r' = total_used r + w32 (total (filter snd bs)) \<and>
    walk_blocks r' = walk_blocks r + w32 (length bs)"
  using assms
proof (induction bs arbitrary: a r)
  case Nil
  then show ?case by (subst heap_walk_loop.simps) (simp add: heap_w32 w32_add flip: w32_numeral)
next
  case (Cons b bs)
  obtain n u where b: "b = (n, u)" by force
  with Cons.prems have n: "12 \<le> n" "4 dvd n" "rd32 m (w32 a) = header n u"
    and size: "a + n + total bs = 10485760" "n \<le> 2097152" and rest: "blocks_at m (a + n) bs"
    by (simp_all add: add.assoc)
  let ?r = "r\<lparr>walk_lines := walk_lines r @ [(w32 a, \<not> u, w32 n)],
      total_free := (if \<not> u then total_free r + w32 n else total_free r),
      total_used := (if \<not> u then total_used r else total_used r + w32 n),
      walk_blocks := walk_blocks r + 1\<rparr>"
  have "heap_walk_loop (w32 a) r m = heap_walk_loop (w32 (a + n)) ?r m"
    using n size by (subst heap_walk_loop.simps) (simp add: Let_def heap_w32 w32_add)
  moreover have "1 + w32 (length bs) = w32 (Suc (length bs))" by (simp add: w32_def)
  ultimately show ?case
    using Cons.IH [of "a + n" ?r] rest size Cons.prems(3) b
    by (simp add: add.assoc w32_add)
qed

definition heap_blocks :: "mem \<Rightarrow> block list" where
  "heap_blocks m = map (\<lambda>(a, f, s). (unat s, \<not> f)) (walk_lines (heap_walk_impl m))"

lemma heap_blocks_rep: "heap_rep m bs \<Longrightarrow> heap_blocks m = bs"
  using heap_walk_loop_blocks [of m HS bs] unfolding heap_rep_def heap_blocks_def heap_walk_impl_def heap_w32
  by fastforce

definition heap_ok :: "mem \<Rightarrow> bool" where
  "heap_ok m \<longleftrightarrow> heap_rep m (heap_blocks m)"

lemma heap_ok_iff: "heap_ok m \<longleftrightarrow> (\<exists>bs. heap_rep m bs)"
  using heap_blocks_rep unfolding heap_ok_def by blast

section \<open>Live allocations\<close>

fun live_at :: "nat \<Rightarrow> block list \<Rightarrow> (nat \<times> nat) set" where
  "live_at a [] = {}"
| "live_at a ((n, u) # bs) = (if u then {(a + 4, n - 8)} else {}) \<union> live_at (a + n) bs"

definition live :: "mem \<Rightarrow> (nat \<times> nat) set" where
  "live m = live_at HS (heap_blocks m)"

lemma live_rep: "heap_rep m bs \<Longrightarrow> live m = live_at HS bs"
  by (simp add: live_def heap_blocks_rep)

lemma live_at_append [simp]: "live_at a (xs @ ys) = live_at a xs \<union> live_at (a + total xs) ys"
  by (induction xs arbitrary: a) (auto simp: add.assoc)

lemma live_at_bounds:
  "(p, k) \<in> live_at a bs \<Longrightarrow> \<forall>b \<in> set bs. 12 \<le> fst b \<Longrightarrow>
   a + 4 \<le> p \<and> p + k + 4 \<le> a + total bs \<and> 4 \<le> k"
  by (induction bs arbitrary: a) (fastforce split: if_splits)+

lemma blocks_at_sizes: "blocks_at m a bs \<Longrightarrow> b \<in> set bs \<Longrightarrow> 12 \<le> fst b"
  by (induction bs arbitrary: a) auto

lemma heap_rep_sizes: "heap_rep m bs \<Longrightarrow> \<forall>b \<in> set bs. 12 \<le> fst b"
  by (auto simp: heap_rep_def dest: blocks_at_sizes)

lemma live_at_split:
  "(p, k) \<in> live_at a bs \<Longrightarrow>
   \<exists>xs ys n. bs = xs @ (n, True) # ys \<and> p = a + total xs + 4 \<and> k = n - 8"
proof (induction bs arbitrary: a)
  case (Cons b bs)
  obtain n u where b: "b = (n, u)" by force
  show ?case
  proof (cases "u \<and> (p, k) = (a + 4, n - 8)")
    case True
    with b show ?thesis by (intro exI [of _ "[]"] exI [of _ bs]) auto
  next
    case False
    with Cons.prems b have "(p, k) \<in> live_at (a + n) bs" by (auto split: if_splits)
    from Cons.IH [OF this] obtain xs ys n' where
      "bs = xs @ (n', True) # ys" "p = a + n + total xs + 4" "k = n' - 8" by blast
    with b show ?thesis by (intro exI [of _ "(n, u) # xs"] exI [of _ ys]) auto
  qed
qed simp

section \<open>Requests\<close>

definition need_of :: "nat \<Rightarrow> nat" where
  "need_of k = max 12 (8 + 4 * ((k + 3) div 4))"

lemma need_of_bounds: "12 \<le> need_of k" "4 dvd need_of k" "k + 8 \<le> need_of k" "need_of k \<le> k + 12"
  by (auto simp: need_of_def max_def)

lemma align_size_w32:
  assumes "unat sz \<le> 4294967280"
  shows "align_size sz = w32 (4 * ((unat sz + 3) div 4))"
proof -
  have "unat (sz + 3) = unat sz + 3" using assms by (simp add: unat_word_ariths)
  then have "unat ((sz + 3) AND NOT 3) = 4 * ((unat sz + 3) div 4)"
    by (simp only: unat_and_not_3 mult.commute)
  moreover have "sz + ALIGN - 1 = sz + 3" "ALIGN - 1 = (3 :: u32)" by (simp_all add: ALIGN_def)
  ultimately show ?thesis unfolding align_size_def by (simp only: w32_eq_unatI)
qed

lemma block_need_w32:
  assumes "unat sz \<le> 4294967280"
  shows "block_need sz = w32 (need_of (unat sz))"
proof -
  have "4 * ((unat sz + 3) div 4) + 8 < 4294967296" using assms by linarith
  then show ?thesis
    unfolding block_need_def Let_def align_size_w32 [OF assms] heap_w32 w32_add
    by (auto simp: need_of_def max_def add.commute)
qed

lemma malloc_impl_fit:
  assumes "heap_rep m bs" and "sz \<noteq> 0" and "sz \<le> HEAP_SIZE"
  shows "malloc_impl sz m =
    (case fit (need_of (unat sz)) bs of
       None \<Rightarrow> Some (0, m)
     | Some (xs, n, ys) \<Rightarrow> Some (w32 (HS + total xs + 4),
         malloc_take (w32 (HS + total xs)) (w32 n) (w32 (need_of (unat sz))) m))"
proof -
  have sz: "unat sz \<le> 2097152" using assms(3) by (simp add: HEAP_SIZE_def word_le_nat_alt)
  then have "need_of (unat sz) < 4294967296" using need_of_bounds(4) [of "unat sz"] by linarith
  moreover have "block_need sz = w32 (need_of (unat sz))"
    by (rule block_need_w32) (use sz in simp)
  moreover have "\<not> HEAP_SIZE < sz" using assms(3) by simp
  ultimately show ?thesis
    using malloc_loop_fit [of m HS bs "need_of (unat sz)"] assms(1,2)
    by (simp add: malloc_impl_def heap_rep_def) (simp add: heap_w32)
qed

section \<open>Coalescing\<close>

fun coalesced :: "block list \<Rightarrow> bool" where
  "coalesced (b # c # bs) \<longleftrightarrow> (snd b \<or> snd c) \<and> coalesced (c # bs)"
| "coalesced bs \<longleftrightarrow> True"

lemma coalesced_append:
  "coalesced (xs @ ys) \<longleftrightarrow>
   coalesced xs \<and> coalesced ys \<and> (xs = [] \<or> ys = [] \<or> snd (last xs) \<or> snd (hd ys))"
  by (induction xs rule: coalesced.induct) (cases ys; auto)+

lemma coalesced_Cons: "coalesced (b # bs) \<longleftrightarrow> coalesced bs \<and> (bs = [] \<or> snd b \<or> snd (hd bs))"
  by (cases bs) auto

lemma afree_carve:
  assumes "coalesced (xs @ (n, False) # ys)" and "need \<le> n"
  shows "(if 12 \<le> n - need then afree xs need ((n - need, False) # ys) else afree xs n ys)
    = xs @ (n, False) # ys"
proof -
  have "xs = [] \<or> snd (last xs)" "ys = [] \<or> snd (hd ys)"
    using assms(1) by (auto simp: coalesced_append coalesced_Cons)
  then show ?thesis using assms(2)
    by (cases ys) (auto simp: afree_def absorb_prev_def absorb_next_def split: bool.splits)
qed

lemma coalesced_carve:
  "coalesced (xs @ (n, False) # ys) \<Longrightarrow> coalesced (xs @ carve need n @ ys)"
  by (auto simp: coalesced_append coalesced_Cons carve_def)

lemma coalesced_afree:
  assumes "coalesced (xs @ (n, True) # ys)" and "total xs \<noteq> 12"
    and "\<forall>b \<in> set (xs @ (n, True) # ys). 12 \<le> fst b"
  shows "coalesced (afree xs n ys)"
proof -
  obtain k zs where abs: "absorb_next n ys = (k, False) # zs" "coalesced ((k, False) # zs)"
  proof (cases "\<exists>k zs. ys = (k, False) # zs")
    case True
    then obtain k zs where "ys = (k, False) # zs" by blast
    with assms(1) that show thesis
      by (auto simp: absorb_next_def coalesced_append coalesced_Cons)
  next
    case False
    then have "absorb_next n ys = (n, False) # ys" "ys = [] \<or> snd (hd ys)"
      by (cases ys, auto simp: absorb_next_def split: bool.splits)+
    with assms(1) that show thesis by (simp add: coalesced_append coalesced_Cons)
  qed
  show ?thesis
  proof (cases xs rule: rev_cases)
    case Nil
    with abs show ?thesis by (simp add: afree_def absorb_prev_def)
  next
    case (snoc ws w)
    with assms(2,3) have "12 < total xs \<or> snd w" by (cases w) auto
    with abs assms(1) snoc show ?thesis
      by (cases w) (auto simp: afree_def absorb_prev_def coalesced_append coalesced_Cons)
  qed
qed

end
