(* ===== verification/Allocator.thy ===== *)
theory Allocator
  imports Memory
begin

text \<open>
  The contract between a memory allocator and its clients. A client sees a set of live
  allocations (address and length); they never overlap, allocating and releasing leave the
  bytes of all other live allocations alone, and writing inside a live allocation does not
  disturb the allocator. Inside the contract the two client routines that combine
  allocation with data are verified: allocating zeroed memory and moving an
  allocation to a new place.
\<close>

definition region :: "nat \<times> nat \<Rightarrow> nat set" where
  "region r = {fst r ..< fst r + snd r}"

definition keeps :: "(nat \<times> nat) set \<Rightarrow> mem \<Rightarrow> mem \<Rightarrow> bool" where
  "keeps R m m' \<longleftrightarrow> (\<forall>r \<in> R. \<forall>x. unat x \<in> region r \<longrightarrow> m' x = m x)"

lemma keepsD: "keeps R m m' \<Longrightarrow> r \<in> R \<Longrightarrow> unat x \<in> region r \<Longrightarrow> m' x = m x"
  by (auto simp: keeps_def)

lemma keeps_refl [simp]: "keeps R m m"
  by (simp add: keeps_def)

lemma keeps_trans: "keeps R m m' \<Longrightarrow> keeps S m' m'' \<Longrightarrow> R \<subseteq> S \<Longrightarrow> keeps R m m''"
  by (auto simp: keeps_def)

lemma keeps_mono: "keeps S m m' \<Longrightarrow> R \<subseteq> S \<Longrightarrow> keeps R m m'"
  by (auto simp: keeps_def)

lemma keeps_same_outside:
  assumes "same_outside lo hi m m'" and "\<And>r. r \<in> R \<Longrightarrow> region r \<inter> {lo ..< hi} = {}"
  shows "keeps R m m'"
  unfolding keeps_def
proof (intro ballI allI impI)
  fix r and x :: u32 assume "r \<in> R" "unat x \<in> region r"
  with assms(2) [of r] have "unat x < lo \<or> hi \<le> unat x" by (meson atLeastLessThan_iff disjoint_iff leI)
  then show "m' x = m x" by (rule same_outsideD [OF assms(1)])
qed

text \<open>The copying and clearing loops only write their destination.\<close>

lemma offset_in_region:
  fixes x d :: u32
  assumes "unat d + n \<le> 4294967296"
  shows "unat (x - d) < n \<longleftrightarrow> unat x \<in> region (unat d, n)"
proof (cases "d \<le> x")
  case True
  then show ?thesis by (auto simp: unat_sub word_le_nat_alt region_def)
next
  case False
  then have "unat x < unat d" by (simp add: word_le_nat_alt)
  moreover have "unat (x - d) = unat x + 4294967296 - unat d"
    using \<open>unat x < unat d\<close> by (simp add: unat_sub_if')
  ultimately show ?thesis using assms by (auto simp: region_def)
qed

lemma memset_loop_region:
  assumes "unat d + n \<le> 4294967296"
  shows "memset_loop n d v m x = (if unat x \<in> region (unat d, n) then v else m x)"
  using assms by (simp add: memset_loop_apply offset_in_region)

lemma memcpy_loop_region:
  assumes "unat d + n \<le> 4294967296" and "unat s + n \<le> unat d \<or> unat d + n \<le> unat s"
    and "unat s + n \<le> 4294967296"
  shows "memcpy_loop n d s m x = (if unat x \<in> region (unat d, n) then m (s + (x - d)) else m x)"
proof -
  have "n \<le> unat (d - s)"
    using assms by (cases "s \<le> d") (auto simp: unat_sub_if' word_le_nat_alt)
  then show ?thesis using assms by (simp add: memcpy_loop_apply offset_in_region)
qed

section \<open>The contract\<close>

locale allocator =
  fixes inv :: "mem \<Rightarrow> bool"
    and live :: "mem \<Rightarrow> (nat \<times> nat) set"
    and alloc :: "u32 \<Rightarrow> mem \<Rightarrow> (u32 \<times> mem) option"
    and release :: "u32 \<Rightarrow> mem \<Rightarrow> mem"
  assumes live_bound: "inv m \<Longrightarrow> (p, k) \<in> live m \<Longrightarrow> 0 < p \<and> p + k < 4294967296"
    and live_disjoint:
      "inv m \<Longrightarrow> r \<in> live m \<Longrightarrow> r' \<in> live m \<Longrightarrow> r \<noteq> r' \<Longrightarrow> region r \<inter> region r' = {}"
    and alloc_result:
      "inv m \<Longrightarrow> alloc n m = Some (q, m') \<Longrightarrow> q \<noteq> 0 \<Longrightarrow>
       \<exists>k. unat n \<le> k \<and> inv m' \<and> (unat q, k) \<notin> live m \<and>
           live m' = insert (unat q, k) (live m) \<and> keeps (live m) m m'"
    and release_result:
      "inv m \<Longrightarrow> (p, k) \<in> live m \<Longrightarrow>
       inv (release (w32 p) m) \<and> live (release (w32 p) m) = live m - {(p, k)} \<and>
       keeps (live m - {(p, k)}) m (release (w32 p) m)"
    and write_inside:
      "inv m \<Longrightarrow> (p, k) \<in> live m \<Longrightarrow> same_outside p (p + k) m m' \<Longrightarrow> inv m' \<and> live m' = live m"
begin

lemma write_keeps_others:
  assumes "inv m" and "r \<in> live m" and "same_outside (fst r) (fst r + snd r) m m'"
  shows "keeps (live m - {r}) m m'"
  by (rule keeps_same_outside [OF assms(3)])
     (use live_disjoint [OF assms(1) _ assms(2)] in \<open>auto simp: region_def\<close>)

lemma alloc_zeroed:
  assumes "inv m" and "alloc n m = Some (q, m1)" and "q \<noteq> 0"
  shows "\<exists>k m2. m2 = memset_loop (unat n) q 0 m1 \<and> unat n \<le> k \<and> inv m2 \<and> (unat q, k) \<notin> live m \<and>
    live m2 = insert (unat q, k) (live m) \<and> keeps (live m) m m2 \<and>
    (\<forall>x. unat x \<in> region (unat q, unat n) \<longrightarrow> m2 x = 0)"
proof -
  let ?m2 = "memset_loop (unat n) q 0 m1"
  obtain k where k: "unat n \<le> k" "inv m1" "(unat q, k) \<notin> live m"
      "live m1 = insert (unat q, k) (live m)" "keeps (live m) m m1"
    using alloc_result [OF assms] by blast
  then have bound: "unat q + unat n \<le> 4294967296" using live_bound [of m1 "unat q" k] by simp
  note set = memset_loop_region [OF bound]
  have same: "same_outside (unat q) (unat q + k) m1 ?m2"
    using k(1) by (auto simp: same_outside_def set region_def)
  have "keeps (live m) m1 ?m2"
    by (rule keeps_mono [OF write_keeps_others [of m1 "(unat q, k)"]]) (use k same in auto)
  then have "keeps (live m) m ?m2" using k(5) by (auto intro: keeps_trans)
  moreover have "inv ?m2 \<and> live ?m2 = live m1"
    by (rule write_inside [OF k(2) _ same]) (simp add: k(4))
  ultimately show ?thesis using k by (auto simp: set)
qed

lemma move_allocation:
  assumes "inv m" and "(p, k) \<in> live m" and "alloc n m = Some (q, m1)" and "q \<noteq> 0"
    and "c \<le> k" and "c \<le> unat n"
  shows "\<exists>l m3. m3 = release (w32 p) (memcpy_loop c q (w32 p) m1) \<and> unat n \<le> l \<and> inv m3 \<and>
    (unat q, l) \<notin> live m \<and> live m3 = insert (unat q, l) (live m - {(p, k)}) \<and>
    keeps (live m - {(p, k)}) m m3 \<and> (\<forall>i < c. m3 (w32 (unat q + i)) = m (w32 (p + i)))"
proof -
  let ?m2 = "memcpy_loop c q (w32 p) m1" and ?m3 = "release (w32 p) (memcpy_loop c q (w32 p) m1)"
  obtain l where l: "unat n \<le> l" "inv m1" "(unat q, l) \<notin> live m"
      "live m1 = insert (unat q, l) (live m)" "keeps (live m) m m1"
    using alloc_result [OF assms(1,3,4)] by blast
  have pb: "p + k < 4294967296" and qb: "unat q + l < 4294967296"
    using live_bound [of m1] l assms(2) by auto
  have "region (unat q, l) \<inter> region (p, k) = {}"
    by (rule live_disjoint [OF l(2)]) (use l assms(2) in auto)
  then have apart: "p + c \<le> unat q \<or> unat q + c \<le> p \<or> c = 0"
    using assms(5,6) l(1) by (cases "p \<le> unat q") (auto simp: region_def disjoint_iff)
  have cpy: "?m2 x = (if unat x \<in> region (unat q, c) then m1 (w32 p + (x - q)) else m1 x)" for x
    using memcpy_loop_region [of q c "w32 p" m1 x] apart pb qb assms(5,6) l(1)
    by (cases "c = 0") (auto simp: region_def)
  have same: "same_outside (unat q) (unat q + l) m1 ?m2"
    using l(1) assms(6) by (auto simp: same_outside_def cpy region_def)
  have m2: "inv ?m2" "live ?m2 = live m1"
    using write_inside [OF l(2) _ same] l(4) by auto
  have "keeps (live m) m1 ?m2"
    by (rule keeps_mono [OF write_keeps_others [of m1 "(unat q, l)"]]) (use l same in auto)
  with l(5) have k2: "keeps (live m) m ?m2" by (auto intro: keeps_trans)
  have live2: "(p, k) \<in> live ?m2" "(unat q, l) \<noteq> (p, k)" using m2 l assms(2) by auto
  note m3 = release_result [OF m2(1) live2(1)]
  have "keeps (live m - {(p, k)}) m ?m3"
    by (rule keeps_trans [OF keeps_mono [OF k2]]) (use m3 m2 l(4) in auto)
  moreover have "?m3 (w32 (unat q + i)) = m (w32 (p + i))" if "i < c" for i
  proof -
    have "?m3 (w32 (unat q + i)) = ?m2 (w32 (unat q + i))"
      by (rule keepsD [of "live ?m2 - {(p, k)}" _ _ "(unat q, l)"])
         (use m3 m2 l live2 that assms(6) qb in \<open>auto simp: region_def\<close>)
    also have "\<dots> = m1 (w32 (p + i))"
    proof -
      have "w32 (unat q + i) - q = w32 i" using w32_add [of "unat q" i] by (simp add: algebra_simps)
      then show ?thesis using that qb l(1) assms(6) by (simp add: cpy region_def w32_add)
    qed
    also have "\<dots> = m (w32 (p + i))"
      by (rule keepsD [OF l(5) assms(2)]) (use that assms(5) pb in \<open>auto simp: region_def\<close>)
    finally show ?thesis .
  qed
  ultimately show ?thesis using m3 m2 l live2 by (intro exI [of _ l]) auto
qed

end

end
