(* ===== verification/HeapAlloc.thy ===== *)
theory HeapAlloc
  imports Heap Allocator
begin

text \<open>
  The heap as an implementation of the allocator contract, and the properties of its
  public routines: first-fit allocation, freeing with coalescing, \<open>calloc\<close>, \<open>realloc\<close>, and
  the reports of \<open>heap_walk\<close>.
\<close>

lemma live_at_disjoint:
  "r \<in> live_at a bs \<Longrightarrow> r' \<in> live_at a bs \<Longrightarrow> r \<noteq> r' \<Longrightarrow> \<forall>b \<in> set bs. 12 \<le> fst b \<Longrightarrow>
   region r \<inter> region r' = {}"
proof (induction bs arbitrary: a)
  case (Cons b bs)
  obtain n u where b: "b = (n, u)" by force
  have later: "region (a + 4, n - 8) \<inter> region s = {}" if "s \<in> live_at (a + n) bs" for s
  proof -
    have "a + n + 4 \<le> fst s"
      using live_at_bounds [of "fst s" "snd s" "a + n" bs] that Cons.prems(4) by auto
    then show ?thesis by (auto simp: region_def)
  qed
  show ?case
  proof (cases "r \<in> live_at (a + n) bs \<and> r' \<in> live_at (a + n) bs")
    case True
    then show ?thesis using Cons b by auto
  next
    case False
    with Cons.prems(1-3) b have
      "r = (a + 4, n - 8) \<and> r' \<in> live_at (a + n) bs \<or> r' = (a + 4, n - 8) \<and> r \<in> live_at (a + n) bs"
      by (auto split: if_splits)
    with later show ?thesis by blast
  qed
qed simp

text \<open>Regions of other live allocations lie outside the block at a given position.\<close>

lemma live_at_outside:
  assumes "r \<in> live_at HS (xs @ ys)" and "\<forall>b \<in> set (xs @ ys). 12 \<le> fst b"
    and "r \<in> live_at HS xs \<or> r \<in> live_at (HS + total xs + n) zs" and "set zs \<subseteq> set ys"
  shows "region r \<inter> {HS + total xs ..< HS + total xs + n} = {}"
proof -
  have "fst r + snd r \<le> HS + total xs \<or> HS + total xs + n \<le> fst r"
    using assms live_at_bounds [of "fst r" "snd r" HS xs]
      live_at_bounds [of "fst r" "snd r" "HS + total xs + n" zs] by force
  then show ?thesis by (auto simp: region_def)
qed

lemma malloc_rep:
  assumes "heap_rep m bs" and "malloc_impl sz m = Some (q, m')" and "q \<noteq> 0"
  obtains xs n ys where "bs = xs @ (n, False) # ys" and "need_of (unat sz) \<le> n"
    and "\<forall>b \<in> set xs. snd b \<or> fst b < need_of (unat sz)"
    and "q = w32 (HS + total xs + 4)" and "unat q = HS + total xs + 4"
    and "heap_rep m' (xs @ carve (need_of (unat sz)) n @ ys)"
    and "same_outside (HS + total xs) (HS + total xs + n) m m'"
proof -
  from assms(2,3) have sz: "sz \<noteq> 0" "sz \<le> HEAP_SIZE"
    by (auto simp: malloc_impl_def split: if_splits)
  let ?need = "need_of (unat sz)"
  from malloc_impl_fit [OF assms(1) sz] assms(2,3) obtain xs n ys where
    fit: "fit ?need bs = Some (xs, n, ys)" and
    r: "q = w32 (HS + total xs + 4)" "m' = malloc_take (w32 (HS + total xs)) (w32 n) (w32 ?need) m"
    by (auto split: option.splits)
  note bs = fit_Some [OF fit]
  then have rep: "heap_rep m (xs @ (n, False) # ys)" using assms(1) by simp
  have "unat q = HS + total xs + 4" using heap_rep_at(1,3) [OF rep] r(1) by simp
  with that bs r malloc_take_rep [OF rep need_of_bounds(1,2)] show thesis by blast
qed

lemma carve_live:
  "live_at a (carve need n) = {(a + 4, (if 12 \<le> n - need then need else n) - 8)}"
  by (simp add: carve_def)

lemma total_carve [simp]: "need \<le> n \<Longrightarrow> total (carve need n) = n"
  by (simp add: carve_def)

lemma heap_rep_write:
  assumes "heap_rep m (xs @ (n, u) # ys)"
    and "same_outside (HS + total xs + 4) (HS + total xs + 4 + (n - 8)) m m'"
  shows "heap_rep m' (xs @ (n, u) # ys)"
proof -
  note at = heap_rep_at [OF assms(1)]
  have "rd32 m' (w32 (HS + total xs)) = header n u" "rd32 m' (w32 (HS + total xs + n - 4)) = w32 n"
    using same_outside_rd32 [OF assms(2), of "HS + total xs"]
      same_outside_rd32 [OF assms(2), of "HS + total xs + n - 4"] at by auto
  then have "blocks_at m' (HS + total xs) [(n, u)]" using at(1,2) by simp
  moreover have "same_outside (HS + total xs) (HS + total xs + total [(n, u)]) m m'"
    by (rule same_outside_mono [OF assms(2)]) (use at(1) in auto)
  ultimately have "heap_rep m' (xs @ [(n, u)] @ ys)"
    using heap_rep_replace [of m xs "[(n, u)]" ys m' "[(n, u)]"] assms(1) by simp
  then show ?thesis by simp
qed

lemma live_below_free_lo:
  assumes "r \<in> live_at HS xs" and "\<forall>b \<in> set xs. 12 \<le> fst b"
  shows "fst r + snd r \<le> free_lo xs"
proof (cases xs rule: rev_cases)
  case (snoc ys b)
  show ?thesis
  proof (cases "snd b")
    case True
    with snoc assms live_at_bounds [of "fst r" "snd r" HS xs] show ?thesis by (simp add: free_lo_def)
  next
    case False
    with snoc assms(1) have "r \<in> live_at HS ys" by (cases b) auto
    with snoc False assms(2) live_at_bounds [of "fst r" "snd r" HS ys] show ?thesis
      by (simp add: free_lo_def)
  qed
qed (use assms in simp)

lemma absorb_next_split:
  obtains k zs where "absorb_next n ys = (k, False) # zs"
    and "\<And>a. live_at (a + n) ys = live_at (a + k) zs" and "set zs \<subseteq> set ys" and "n \<le> k"
proof (cases "\<exists>j zs. ys = (j, False) # zs")
  case True
  then obtain j zs where "ys = (j, False) # zs" by blast
  with that [of "n + j" zs] show thesis by (simp add: absorb_next_def add.assoc subset_insertI)
next
  case False
  then have "absorb_next n ys = (n, False) # ys"
    by (cases ys) (auto simp: absorb_next_def split: bool.splits)
  with that show thesis by simp
qed

lemma live_absorb_prev:
  "live_at a (absorb_prev xs ((k, False) # zs)) = live_at a xs \<union> live_at (a + total xs + k) zs"
proof (cases "12 < total xs \<and> \<not> snd (last xs)")
  case True
  then obtain ys j where "xs = ys @ [(j, False)]" by (cases xs rule: rev_cases) auto
  with True show ?thesis by (simp add: absorb_prev_def add.assoc)
qed (auto simp: absorb_prev_def)

lemma free_live:
  assumes "\<forall>b \<in> set (xs @ (n, True) # ys). 12 \<le> fst b"
  shows "live_at HS (afree xs n ys) = live_at HS (xs @ (n, True) # ys) - {(HS + total xs + 4, n - 8)}"
    and "r \<in> live_at HS (afree xs n ys) \<Longrightarrow> region r \<inter> {free_lo xs ..< free_hi xs n ys} = {}"
proof -
  obtain k zs where abs: "absorb_next n ys = (k, False) # zs"
      "live_at (HS + total xs + n) ys = live_at (HS + total xs + k) zs" "set zs \<subseteq> set ys" "n \<le> k"
    by (rule absorb_next_split [of n ys]) blast
  have lv: "live_at HS (afree xs n ys) = live_at HS xs \<union> live_at (HS + total xs + k) zs"
    by (simp add: afree_def abs(1) live_absorb_prev)
  have low: "fst r + snd r \<le> free_lo xs" if "r \<in> live_at HS xs" for r
    using live_below_free_lo [OF that] assms by simp
  have high: "HS + total xs + k + 4 \<le> fst r" if "r \<in> live_at (HS + total xs + k) zs" for r
    using live_at_bounds [of "fst r" "snd r" "HS + total xs + k" zs] that abs(3) assms by auto
  have "(HS + total xs + 4, n - 8) \<notin> live_at HS (afree xs n ys)"
    using low [of "(HS + total xs + 4, n - 8)"] high [of "(HS + total xs + 4, n - 8)"]
      free_lo_le [of xs] abs(4) assms by (auto simp: lv)
  then show "live_at HS (afree xs n ys) = live_at HS (xs @ (n, True) # ys) - {(HS + total xs + 4, n - 8)}"
    by (auto simp: lv abs(2))
  show "region r \<inter> {free_lo xs ..< free_hi xs n ys} = {}" if "r \<in> live_at HS (afree xs n ys)"
  proof -
    have "free_hi xs n ys = HS + total xs + k" by (simp add: free_hi_def abs(1))
    moreover have "fst r + snd r \<le> free_lo xs \<or> HS + total xs + k \<le> fst r"
      using that low [of r] high [of r] by (auto simp: lv)
    ultimately show ?thesis by (auto simp: region_def)
  qed
qed

section \<open>The heap implements the contract\<close>

lemma heap_alloc_result:
  assumes "heap_ok m" and "malloc_impl n m = Some (q, m')" and "q \<noteq> 0"
  shows "\<exists>k. unat n \<le> k \<and> heap_ok m' \<and> (unat q, k) \<notin> live m \<and>
    live m' = insert (unat q, k) (live m) \<and> keeps (live m) m m'"
proof -
  from assms(1) obtain bs where bs: "heap_rep m bs" by (auto simp: heap_ok_iff)
  let ?need = "need_of (unat n)"
  obtain xs b ys where *: "bs = xs @ (b, False) # ys" "?need \<le> b"
      "unat q = HS + total xs + 4" "heap_rep m' (xs @ carve ?need b @ ys)"
      "same_outside (HS + total xs) (HS + total xs + b) m m'"
    using malloc_rep [OF bs assms(2,3)] by metis
  have sizes: "\<forall>c \<in> set (xs @ (b, False) # ys). 12 \<le> fst c" using heap_rep_sizes [OF bs] *(1) by simp
  have lv: "live m = live_at HS xs \<union> live_at (HS + total xs + b) ys"
    using live_rep [OF bs] *(1) by simp
  let ?k = "(if 12 \<le> b - ?need then ?need else b) - 8"
  have k: "unat n \<le> ?k" using need_of_bounds(3) [of "unat n"] *(2) by auto
  have lv': "live m' = insert (unat q, ?k) (live m)"
    using live_rep [OF *(4)] lv *(2,3) by (auto simp: carve_live)
  have out: "region r \<inter> {HS + total xs ..< HS + total xs + b} = {}" if "r \<in> live m" for r
    by (rule live_at_outside [of _ _ "(b, False) # ys" _ ys]) (use that lv sizes in auto)
  have "12 \<le> b" "?k < b" using sizes by auto
  then have "unat q \<in> region (unat q, ?k)" "unat q \<in> {HS + total xs ..< HS + total xs + b}"
    using *(2,3) need_of_bounds(1) [of "unat n"] by (auto simp: region_def)
  with out have "(unat q, ?k) \<notin> live m" by blast
  moreover have "keeps (live m) m m'" by (rule keeps_same_outside [OF *(5) out])
  moreover have "heap_ok m'" using *(4) heap_ok_iff by blast
  ultimately show ?thesis using k lv' by blast
qed

lemma heap_release_result:
  assumes "heap_ok m" and "(p, k) \<in> live m"
  shows "heap_ok (free_impl (w32 p) m) \<and> live (free_impl (w32 p) m) = live m - {(p, k)} \<and>
    keeps (live m - {(p, k)}) m (free_impl (w32 p) m)"
proof -
  from assms obtain bs where bs: "heap_rep m bs" and lv: "(p, k) \<in> live_at HS bs"
    by (auto simp: heap_ok_iff live_rep)
  from live_at_split [OF lv] obtain xs n ys where *: "bs = xs @ (n, True) # ys"
      "p = HS + total xs + 4" "k = n - 8" by blast
  let ?m = "free_impl (w32 p) m"
  have rep: "heap_rep ?m (afree xs n ys)" "same_outside (free_lo xs) (free_hi xs n ys) m ?m"
    using free_rep [of m xs n ys] bs * by simp_all
  have sizes: "\<forall>b \<in> set (xs @ (n, True) # ys). 12 \<le> fst b" using heap_rep_sizes [OF bs] * by simp
  have "live ?m = live m - {(p, k)}"
    using live_rep [OF rep(1)] live_rep [OF bs] free_live(1) [OF sizes] * by simp
  moreover have "keeps (live ?m) m ?m"
    by (rule keeps_same_outside [OF rep(2)], rule free_live(2) [OF sizes])
       (use live_rep [OF rep(1)] in simp)
  ultimately show ?thesis using rep(1) heap_ok_iff by auto
qed

interpretation heap: allocator heap_ok live malloc_impl free_impl
proof
  fix m m' p k q n r r'
  assume ok: "heap_ok m"
  then obtain bs where bs: "heap_rep m bs" by (auto simp: heap_ok_iff)
  note lv = live_rep [OF bs] and sizes = heap_rep_sizes [OF bs]
  show "0 < p \<and> p + k < 4294967296" if "(p, k) \<in> live m"
    using live_at_bounds [of p k HS bs] that lv sizes bs by (simp add: heap_rep_def)
  show "region r \<inter> region r' = {}" if "r \<in> live m" "r' \<in> live m" "r \<noteq> r'"
    using live_at_disjoint [of r HS bs r'] that lv sizes by simp
  show "heap_ok m' \<and> live m' = live m" if "(p, k) \<in> live m" "same_outside p (p + k) m m'"
  proof -
    from live_at_split [of p k HS bs] that(1) lv obtain xs n ys where
      "bs = xs @ (n, True) # ys" "p = HS + total xs + 4" "k = n - 8" by auto
    with bs that(2) have "heap_rep m' bs" using heap_rep_write [of m xs n True ys m'] by simp
    then show ?thesis using heap_ok_iff live_rep lv by auto
  qed
qed (use heap_alloc_result heap_release_result in blast)+

section \<open>Supporting facts for the properties\<close>

lemma heap_init_rep: "heap_rep (heap_init m) [(2097152, False)]"
proof -
  have "heap_init m = put_block HS 2097152 False m"
    by (simp add: heap_init_def heap_w32 put_blockI)
  then show ?thesis using blocks_at_put_block [of 2097152 HS False m] by (simp add: heap_rep_def)
qed

lemma heap_init_ok: "heap_ok (heap_init m)"
  using heap_init_rep heap_ok_iff by blast

lemma malloc_returns:
  assumes "heap_ok m"
  obtains q m' where "malloc_impl sz m = Some (q, m')" and "q = 0 \<longrightarrow> m' = m"
proof -
  from assms obtain bs where bs: "heap_rep m bs" by (auto simp: heap_ok_iff)
  show thesis
  proof (cases "sz \<noteq> 0 \<and> sz \<le> HEAP_SIZE")
    case True
    then have sz: "sz \<noteq> 0" "sz \<le> HEAP_SIZE" by simp_all
    show thesis
    proof (cases "fit (need_of (unat sz)) bs")
      case None
      with malloc_impl_fit [OF bs sz] that show thesis by simp
    next
      case (Some t)
      obtain xs n ys where t: "t = (xs, n, ys)" by (cases t)
      have "heap_rep m (xs @ (n, False) # ys)" using fit_Some Some t bs by blast
      from heap_rep_at(1,3) [OF this] have "w32 (HS + total xs + 4) \<noteq> 0" by simp
      with malloc_impl_fit [OF bs sz] that Some t show thesis by simp
    qed
  next
    case False
    then have "malloc_impl sz m = Some (0, m)" by (auto simp: malloc_impl_def)
    with that show thesis by simp
  qed
qed

lemma put_block_inside:
  assumes "a + 4 \<le> unat x" and "unat x + 4 < a + n" and "a + n \<le> 4294967296"
  shows "put_block a n u m x = m x"
  using wr32_outside [of "unat x" a m "header n u"]
    wr32_outside [of "unat x" "a + n - 4" "wr32 m (w32 a) (header n u)" "w32 n"] assms
  by (simp add: put_block_def)

lemma heap_word:
  assumes "heap_rep m (xs @ (n, u) # ys)"
  shows "w32 (HS + total xs + 4) \<noteq> 0"
    and "\<not> (w32 (HS + total xs) < HEAP_START \<or> HEAP_START + HEAP_SIZE \<le> w32 (HS + total xs))"
    and "w32 (HS + total xs + 4) - HEADER_SIZE = w32 (HS + total xs)"
  using heap_rep_at(1,3) [OF assms] by (auto simp: heap_w32 w32_add w32_sub)

lemma malloc_take_prefix:
  assumes "heap_rep m (xs @ (n, True) # ys)" and "12 \<le> need" and "4 dvd need" and "need + 12 \<le> n"
    and "i + 8 < need"
  shows "malloc_take (w32 (HS + total xs)) (w32 n) (w32 need) m (w32 (HS + total xs + 4 + i))
    = m (w32 (HS + total xs + 4 + i))"
proof -
  let ?a = "HS + total xs"
  note at = heap_rep_at [OF assms(1)]
  have "malloc_take (w32 ?a) (w32 n) (w32 need) m =
      put_block (?a + need) (n - need) False (put_block ?a need True m)"
    using malloc_take_eq [OF assms(1-3)] assms(4) le_diff_conv2 [of need n 12] by (simp add: add.commute)
  moreover have "put_block (?a + need) (n - need) False (put_block ?a need True m) (w32 (?a + 4 + i))
      = put_block ?a need True m (w32 (?a + 4 + i))"
    by (rule same_outsideD [OF same_outside_put_block [of _ "?a + need" _ "?a + n"]])
       (use assms at(3) in auto)
  moreover have "put_block ?a need True m (w32 (?a + 4 + i)) = m (w32 (?a + 4 + i))"
    using assms at(3) by (intro put_block_inside) auto
  ultimately show ?thesis by simp
qed

text \<open>The three ways through \<open>realloc_impl\<close> on a live allocation.\<close>

lemma realloc_live:
  assumes "heap_rep m (xs @ (n, True) # ys)" and "sz \<noteq> 0" and "unat sz \<le> 4294967280"
  shows "realloc_impl (w32 (HS + total xs + 4)) sz m =
    (if need_of (unat sz) \<le> n
     then Some (w32 (HS + total xs + 4),
            if 12 \<le> n - need_of (unat sz)
            then malloc_take (w32 (HS + total xs)) (w32 n) (w32 (need_of (unat sz))) m else m)
     else case malloc_impl (w32 (4 * ((unat sz + 3) div 4))) m of
            None \<Rightarrow> None
          | Some (q, m) \<Rightarrow>
              if q = 0 then Some (0, m)
              else Some (q, free_impl (w32 (HS + total xs + 4))
                (memcpy_loop (min (n - 8) (4 * ((unat sz + 3) div 4))) q (w32 (HS + total xs + 4)) m)))"
proof -
  note at = heap_rep_at [OF assms(1)] and w = heap_word [OF assms(1)]
  let ?need = "need_of (unat sz)" and ?al = "4 * ((unat sz + 3) div 4)"
  have b: "?need < 4294967296" "?al < 4294967296" "n < 4294967296"
    using assms(3) need_of_bounds(4) [of "unat sz"] at(3) by linarith+
  have hdr: "rd32 m (w32 (HS + total xs)) AND NOT 1 = w32 n" "rd32 m (w32 (HS + total xs)) AND 1 \<noteq> 0"
    using at by auto
  have data: "w32 n - HEADER_SIZE - FOOTER_SIZE = w32 (n - 8)"
    using at(1) by (simp add: heap_w32 w32_sub)
  have copy: "unat (if w32 (n - 8) < w32 ?al then w32 (n - 8) else w32 ?al) = min (n - 8) ?al"
    using b by (simp add: min_def)
  have fits: "w32 ?need \<le> w32 n \<longleftrightarrow> ?need \<le> n" using b by simp
  have rest: "MIN_BLOCK \<le> w32 n - w32 ?need \<longleftrightarrow> 12 \<le> n - ?need" if "?need \<le> n"
    using that b by (simp add: heap_w32 w32_sub)
  show ?thesis
    unfolding realloc_impl_def Let_def w(3) block_need_w32 [OF assms(3)] align_size_w32 [OF assms(3)]
      hdr(1) data copy fits
    using w(1,2) assms(2) hdr(2) rest by (cases "?need \<le> n") (simp_all del: w32_eq_0_iff)
qed

lemma split_used:
  assumes "heap_rep m (xs @ (n, True) # ys)" and "12 \<le> need" and "4 dvd need" and "need + 12 \<le> n"
  defines "m' \<equiv> malloc_take (w32 (HS + total xs)) (w32 n) (w32 need) m"
    and "r \<equiv> (HS + total xs + 4, n - 8)"
  shows "heap_ok m' \<and> live m' = insert (HS + total xs + 4, need - 8) (live m - {r}) \<and>
    keeps (live m - {r}) m m'"
proof -
  have "need \<le> n" using assms(4) by simp
  note take = malloc_take_rep [OF assms(1-3) this, folded m'_def]
  have lm: "live m = live_at HS xs \<union> {r} \<union> live_at (HS + total xs + n) ys"
    using live_rep [OF assms(1)] by (simp add: r_def)
  note sizes = heap_rep_sizes [OF assms(1)]
  have "r \<notin> live_at HS xs" "r \<notin> live_at (HS + total xs + n) ys"
    using live_at_bounds [of "fst r" "snd r" HS xs]
      live_at_bounds [of "fst r" "snd r" "HS + total xs + n" ys] sizes by (auto simp: r_def)
  then have "live m' = insert (HS + total xs + 4, need - 8) (live m - {r})"
    using live_rep [OF take(1)] lm assms(4) by (auto simp: carve_live)
  moreover have "keeps (live m - {r}) m m'"
  proof (rule keeps_same_outside [OF take(2)])
    fix s assume "s \<in> live m - {r}"
    then show "region s \<inter> {HS + total xs ..< HS + total xs + n} = {}"
      using lm sizes by (intro live_at_outside [of _ _ "(n, True) # ys" _ ys]) auto
  qed
  ultimately show ?thesis using take(1) heap_ok_iff by blast
qed

lemma sample_heap: "\<exists>m. heap_rep m ([] @ (108, True) # [(2097044, False)])"
proof -
  have "heap_rep (heap_init (\<lambda>_. 0)) ([] @ (2097152, False) # [])" using heap_init_rep by simp
  from malloc_take_rep(1) [OF this, of 108] show ?thesis by (auto simp: carve_def)
qed

section \<open>Properties\<close>

text \<open>
  C11: \<open>malloc\<close> is first fit. On a well-formed heap with blocks \<open>bs\<close> it never halts; for
  a request of 1 to \<open>HEAP_SIZE\<close> bytes it takes the first free block that can hold the
  request with header and footer, splits off the rest exactly if at least 12 bytes remain,
  leaves the heap well-formed with that block in use, and writes nothing outside that
  block; and it returns null with the memory unchanged exactly if no free block is large
  enough.
\<close>

theorem malloc_first_fit:
  assumes "heap_rep m bs" and "sz \<noteq> 0" and "sz \<le> HEAP_SIZE"
  shows "malloc_impl sz m = Some (0, m) \<and> (\<forall>b \<in> set bs. snd b \<or> fst b < need_of (unat sz)) \<or>
    (\<exists>xs n ys m'. bs = xs @ (n, False) # ys \<and> need_of (unat sz) \<le> n \<and>
       (\<forall>b \<in> set xs. snd b \<or> fst b < need_of (unat sz)) \<and>
       malloc_impl sz m = Some (w32 (HS + total xs + 4), m') \<and> w32 (HS + total xs + 4) \<noteq> 0 \<and>
       heap_rep m' (xs @ carve (need_of (unat sz)) n @ ys) \<and>
       same_outside (HS + total xs) (HS + total xs + n) m m')"
proof (cases "fit (need_of (unat sz)) bs")
  case None
  with malloc_impl_fit [OF assms] show ?thesis by (simp add: fit_None)
next
  case (Some t)
  obtain xs n ys where t: "t = (xs, n, ys)" by (cases t)
  note bs = fit_Some [OF Some [unfolded t]]
  have rep: "heap_rep m (xs @ (n, False) # ys)" using assms(1) bs by simp
  note take = malloc_take_rep [OF rep need_of_bounds(1,2)]
  have "malloc_impl sz m = Some (w32 (HS + total xs + 4),
      malloc_take (w32 (HS + total xs)) (w32 n) (w32 (need_of (unat sz))) m)"
    using malloc_impl_fit [OF assms] Some t by simp
  with bs take heap_word(1) [OF rep] show ?thesis by blast
qed

theorem malloc_first_fit_witness:
  "heap_rep (heap_init (\<lambda>_. 0)) [(2097152, False)] \<and> (100 :: u32) \<noteq> 0 \<and> 100 \<le> HEAP_SIZE \<and>
   (\<exists>m'. malloc_impl 100 (heap_init (\<lambda>_. 0)) = Some (w32 8388612, m') \<and>
      heap_rep m' [(108, True), (2097044, False)])"
proof -
  have "(100 :: u32) \<noteq> 0" "100 \<le> HEAP_SIZE" by (simp_all add: HEAP_SIZE_def)
  with malloc_first_fit [OF heap_init_rep, of 100 "\<lambda>_. 0"] heap_init_rep show ?thesis
    by (auto simp: need_of_def carve_def Cons_eq_append_conv)
qed

text \<open>
  C28: allocations never overlap and never damage each other. When \<open>malloc\<close> returns a
  non-null pointer on a well-formed heap, at least the requested number of bytes lies there,
  disjoint from every allocation that was live before; the set of live allocations grows by
  exactly the new one, the heap stays well-formed, and no byte of an older allocation changes.
\<close>

theorem malloc_fresh:
  assumes "heap_ok m" and "malloc_impl sz m = Some (q, m')" and "q \<noteq> 0"
  shows "\<exists>k. unat sz \<le> k \<and> heap_ok m' \<and> live m' = insert (unat q, k) (live m) \<and>
    (\<forall>r \<in> live m. region r \<inter> region (unat q, k) = {}) \<and> keeps (live m) m m'"
proof -
  obtain k where k: "unat sz \<le> k" "heap_ok m'" "(unat q, k) \<notin> live m"
      "live m' = insert (unat q, k) (live m)" "keeps (live m) m m'"
    using heap.alloc_result [OF assms] by blast
  then have "region r \<inter> region (unat q, k) = {}" if "r \<in> live m" for r
    using that heap.live_disjoint [of m' r "(unat q, k)"] by auto
  with k show ?thesis by blast
qed

theorem malloc_fresh_witness:
  "heap_ok (heap_init (\<lambda>_. 0)) \<and>
   (\<exists>q m' k. malloc_impl 100 (heap_init (\<lambda>_. 0)) = Some (q, m') \<and> q \<noteq> 0 \<and> 100 \<le> k \<and>
      live m' = {(unat q, k)})"
proof -
  have sz: "(100 :: u32) \<noteq> 0" "100 \<le> HEAP_SIZE" by (simp_all add: HEAP_SIZE_def)
  have fit: "fit 108 [(2097152, False)] = Some ([], 2097152, [])" by simp
  obtain q m' where q: "malloc_impl 100 (heap_init (\<lambda>_. 0)) = Some (q, m')" "q \<noteq> 0"
    using malloc_impl_fit [OF heap_init_rep sz, of "\<lambda>_. 0"] fit by (auto simp: need_of_def)
  have "live (heap_init (\<lambda>_. 0)) = {}" using live_rep [OF heap_init_rep] by simp
  with malloc_fresh [OF heap_init_ok q] heap_init_ok q show ?thesis by auto
qed

text \<open>
  C29: \<open>free\<close> of a live allocation keeps the heap well-formed, ends exactly that
  allocation, and changes no byte of any other. The freed block is merged with a free
  successor and a free predecessor, so on a fully coalesced heap the result is
  fully coalesced again unless the predecessor is a 12-byte block at the very start of the heap.
\<close>

theorem free_releases:
  assumes "heap_rep m (xs @ (n, True) # ys)"
  shows "\<exists>m'. free_impl (w32 (HS + total xs + 4)) m = m' \<and> heap_rep m' (afree xs n ys) \<and>
    live m' = live m - {(HS + total xs + 4, n - 8)} \<and>
    keeps (live m - {(HS + total xs + 4, n - 8)}) m m' \<and>
    (coalesced (xs @ (n, True) # ys) \<and> total xs \<noteq> 12 \<longrightarrow> coalesced (afree xs n ys))"
proof -
  have ok: "heap_ok m" using assms heap_ok_iff by blast
  have lv: "(HS + total xs + 4, n - 8) \<in> live m" using live_rep [OF assms] by simp
  show ?thesis
    using free_rep(1) [OF assms] heap.release_result [OF ok lv] coalesced_afree
      heap_rep_sizes [OF assms] by blast
qed

theorem free_releases_witness:
  "\<exists>m m'. heap_rep m [(108, True), (2097044, False)] \<and>
     free_impl (w32 (HS + total [] + 4)) m = m' \<and> heap_rep m' [(2097152, False)] \<and> live m' = {}"
proof -
  obtain m where m: "heap_rep m ([] @ (108, True) # [(2097044, False)])" using sample_heap by blast
  from free_releases [OF m] live_rep [OF m] m show ?thesis
    by (auto simp: afree_def absorb_next_def absorb_prev_def)
qed

text \<open>
  C30: freeing a fresh allocation restores the heap: on a coalesced heap, \<open>malloc\<close>
  followed by \<open>free\<close> of the returned pointer gives back exactly the old list of blocks, so
  no memory is lost to fragmentation by such a pair.
\<close>

theorem free_undoes_malloc:
  assumes "heap_rep m bs" and "coalesced bs" and "malloc_impl sz m = Some (q, m')" and "q \<noteq> 0"
  shows "heap_rep (free_impl q m') bs \<and> keeps (live m) m (free_impl q m')"
proof -
  let ?need = "need_of (unat sz)"
  obtain xs n ys where *: "bs = xs @ (n, False) # ys" "?need \<le> n" "q = w32 (HS + total xs + 4)"
      "heap_rep m' (xs @ carve ?need n @ ys)"
    using malloc_rep [OF assms(1,3,4)] by metis
  obtain k zs where k: "carve ?need n @ ys = (k, True) # zs" "afree xs k zs = bs"
    using afree_carve [of xs n ys ?need] assms(2) *(1,2) by (auto simp: carve_def split: if_splits)
  have rep: "heap_rep (free_impl q m') bs"
    using free_rep(1) [of m' xs k zs] *(3,4) k by simp
  have ok: "heap_ok m" "heap_ok m'" using assms(1) *(4) heap_ok_iff by blast+
  obtain j where j: "(unat q, j) \<notin> live m" "live m' = insert (unat q, j) (live m)"
      "keeps (live m) m m'"
    using heap.alloc_result [OF ok(1) assms(3,4)] by blast
  have "keeps (live m) m' (free_impl q m')"
    using heap.release_result [OF ok(2), of "unat q" j] j by auto
  with j(3) rep show ?thesis by (auto intro: keeps_trans)
qed

theorem free_undoes_malloc_witness:
  "heap_rep (heap_init (\<lambda>_. 0)) [(2097152, False)] \<and> coalesced [(2097152, False)] \<and>
   (\<exists>q m'. malloc_impl 100 (heap_init (\<lambda>_. 0)) = Some (q, m') \<and> q \<noteq> 0 \<and>
      heap_rep (free_impl q m') [(2097152, False)])"
proof -
  have sz: "(100 :: u32) \<noteq> 0" "100 \<le> HEAP_SIZE" by (simp_all add: HEAP_SIZE_def)
  have fit: "fit 108 [(2097152, False)] = Some ([], 2097152, [])" by simp
  obtain q m' where q: "malloc_impl 100 (heap_init (\<lambda>_. 0)) = Some (q, m')" "q \<noteq> 0"
    using malloc_impl_fit [OF heap_init_rep sz, of "\<lambda>_. 0"] fit by (auto simp: need_of_def)
  have "coalesced [(2097152, False)]" by simp
  from free_undoes_malloc [OF heap_init_rep this q] heap_init_rep q show ?thesis by auto
qed

text \<open>
  C31: \<open>calloc\<close> returns zeroed memory. On a well-formed heap it always returns; a
  request whose product overflows 32 bits, or is empty, gets null and changes nothing; any
  non-null result is a fresh allocation of at least \<open>num * size\<close> bytes, computed without
  wrap-around, all of which are zero, and the older allocations keep their bytes.
\<close>

theorem calloc_zeroed:
  assumes "heap_ok m"
  shows "\<exists>q m'. calloc_impl num sz m = Some (q, m') \<and>
    (q = 0 \<and> m' = m \<or>
     q \<noteq> 0 \<and> 0 < unat num * unat sz \<and> heap_ok m' \<and>
     (\<exists>k. unat num * unat sz \<le> k \<and> live m' = insert (unat q, k) (live m) \<and>
       (unat q, k) \<notin> live m) \<and> keeps (live m) m m' \<and>
     (\<forall>x. unat x \<in> region (unat q, unat num * unat sz) \<longrightarrow> m' x = 0))"
proof (cases "num = 0 \<or> sz = 0 \<or> num > 0xFFFFFFFF div sz")
  case True
  then show ?thesis by (auto simp: calloc_impl_def)
next
  case False
  then have nz: "0 < unat num" "0 < unat sz" and "unat num \<le> 4294967295 div unat sz"
    by (auto simp: unat_gt_0 word_le_nat_alt unat_div not_less)
  then have "unat num * unat sz \<le> 4294967295"
    by (meson div_times_less_eq_dividend le_trans mult_le_mono1)
  then have prod: "unat (num * sz) = unat num * unat sz" by (simp add: unat_word_ariths)
  obtain q m1 where q: "malloc_impl (num * sz) m = Some (q, m1)" "q = 0 \<longrightarrow> m1 = m"
    using malloc_returns [OF assms] .
  show ?thesis
  proof (cases "q = 0")
    case True
    with False q show ?thesis by (auto simp: calloc_impl_def Let_def)
  next
    case q0: False
    let ?m2 = "memset_loop (unat (num * sz)) q 0 m1"
    have "calloc_impl num sz m = Some (q, ?m2)"
      using False q q0 by (simp add: calloc_impl_def Let_def lib_memset_def)
    with heap.alloc_zeroed [OF assms q(1) q0] q0 nz prod show ?thesis by auto
  qed
qed

theorem calloc_zeroed_witness:
  "heap_ok (heap_init (\<lambda>_. 7)) \<and>
   (\<exists>q m'. calloc_impl 4 8 (heap_init (\<lambda>_. 7)) = Some (q, m') \<and> q \<noteq> 0 \<and> m' q = 0)"
proof -
  have sz: "(32 :: u32) \<noteq> 0" "32 \<le> HEAP_SIZE" by (simp_all add: HEAP_SIZE_def)
  have "malloc_impl 32 (heap_init (\<lambda>_. 7)) \<noteq> Some (0, m)" for m
    using malloc_impl_fit [OF heap_init_rep sz, of "\<lambda>_. 7"] by (simp add: need_of_def)
  then have "calloc_impl 4 8 (heap_init (\<lambda>_. 7)) \<noteq> Some (0, m)" for m
    by (auto simp: calloc_impl_def split: option.splits)
  with calloc_zeroed [OF heap_init_ok, of 4 8 "\<lambda>_. 7"] heap_init_ok show ?thesis
    by (auto simp: region_def)
qed

text \<open>
  C13: \<open>realloc\<close> keeps the data. For a live allocation of \<open>k\<close> bytes and a new size
  (below the last 16 bytes of the 32-bit range), it always returns; either it returns null
  and the memory is untouched, or the allocation is replaced by one of at least the new
  size whose first bytes, as many as both sizes allow, are those of the old one. Either way
  the heap stays well-formed and every other allocation keeps its bytes.
\<close>

theorem realloc_keeps_data:
  assumes "heap_ok m" and "(p, k) \<in> live m" and "sz \<noteq> 0" and "unat sz \<le> 4294967280"
  shows "\<exists>q m'. realloc_impl (w32 p) sz m = Some (q, m') \<and>
    (q = 0 \<and> m' = m \<or>
     q \<noteq> 0 \<and> heap_ok m' \<and> keeps (live m - {(p, k)}) m m' \<and>
     (\<exists>l. unat sz \<le> l \<and> live m' = insert (unat q, l) (live m - {(p, k)})) \<and>
     (\<forall>i < min k (unat sz). m' (w32 (unat q + i)) = m (w32 (p + i))))"
proof -
  from assms(1,2) obtain bs where bs: "heap_rep m bs" and "(p, k) \<in> live_at HS bs"
    by (auto simp: heap_ok_iff live_rep)
  from live_at_split [OF this(2)] obtain xs n ys where
    *: "bs = xs @ (n, True) # ys" "p = HS + total xs + 4" "k = n - 8" by blast
  have rep: "heap_rep m (xs @ (n, True) # ys)" using bs * by simp
  note at = heap_rep_at [OF rep] and eq = realloc_live [OF rep assms(3,4)]
  let ?need = "need_of (unat sz)" and ?al = "4 * ((unat sz + 3) div 4)"
  have p: "unat (w32 p) = p" "w32 p \<noteq> 0" using at(1,3) *(2) heap_word(1) [OF rep] by simp_all
  have lv: "live m = insert (p, k) (live m - {(p, k)})" using assms(2) by auto
  consider "?need \<le> n" "n - ?need < 12" | "?need + 12 \<le> n" | "n < ?need" by linarith
  then show ?thesis
  proof cases
    case 1
    then have "realloc_impl (w32 p) sz m = Some (w32 p, m)" using eq *(2) by simp
    moreover have "unat sz \<le> k" using 1 need_of_bounds(3) [of "unat sz"] *(3) by linarith
    ultimately show ?thesis using assms(1) p lv by auto
  next
    case 2
    let ?m = "malloc_take (w32 (HS + total xs)) (w32 n) (w32 ?need) m"
    have "12 \<le> n - ?need" "?need \<le> n" using 2 by simp_all
    then have "realloc_impl (w32 p) sz m = Some (w32 p, ?m)" using eq *(2) by simp
    moreover have "?m (w32 (p + i)) = m (w32 (p + i))" if "i < unat sz" for i
      using malloc_take_prefix [OF rep need_of_bounds(1,2) 2, of i] that need_of_bounds(3) [of "unat sz"]
      by (simp add: *(2))
    moreover have "unat sz \<le> ?need - 8" using need_of_bounds(3) [of "unat sz"] by linarith
    ultimately show ?thesis
      using p split_used [OF rep need_of_bounds(1,2) 2] * by auto
  next
    case 3
    obtain q m1 where q: "malloc_impl (w32 ?al) m = Some (q, m1)" "q = 0 \<longrightarrow> m1 = m"
      using malloc_returns [OF assms(1)] .
    have al: "unat (w32 ?al) = ?al" "unat sz \<le> ?al" using assms(4) by auto
    show ?thesis
    proof (cases "q = 0")
      case True
      then show ?thesis using eq 3 q *(2) by simp
    next
      case False
      let ?c = "min k ?al"
      have "realloc_impl (w32 p) sz m = Some (q, free_impl (w32 p) (memcpy_loop ?c q (w32 p) m1))"
        using eq 3 q False * by simp
      moreover obtain l m3 where "m3 = free_impl (w32 p) (memcpy_loop ?c q (w32 p) m1)" "?al \<le> l"
          "heap_ok m3" "live m3 = insert (unat q, l) (live m - {(p, k)})"
          "keeps (live m - {(p, k)}) m m3" "\<forall>i < ?c. m3 (w32 (unat q + i)) = m (w32 (p + i))"
        using heap.move_allocation [OF assms(1,2) q(1) False, of ?c] al(1) by auto
      moreover have "\<exists>l'. unat sz \<le> l' \<and> insert (unat q, l) (live m - {(p, k)}) = insert (unat q, l') (live m - {(p, k)})"
        using al(2) \<open>?al \<le> l\<close> by (intro exI [of _ l]) simp
      ultimately show ?thesis using False al(2) by (intro exI [of _ q] exI [of _ m3]) simp
    qed
  qed
qed

theorem realloc_keeps_data_witness:
  "\<exists>m. heap_ok m \<and> (8388612, 100) \<in> live m \<and> (50 :: u32) \<noteq> 0 \<and> unat (50 :: u32) \<le> 4294967280 \<and>
     (\<exists>q m'. realloc_impl (w32 8388612) 50 m = Some (q, m') \<and>
       (q = 0 \<and> m' = m \<or> q \<noteq> 0 \<and> m' (w32 (unat q + 7)) = m (w32 8388619)))"
proof -
  obtain m where m: "heap_rep m [(108, True), (2097044, False)]" using sample_heap by auto
  then have ok: "heap_ok m" "(8388612, 100) \<in> live m" using heap_ok_iff live_rep by auto
  have sz: "(50 :: u32) \<noteq> 0" "unat (50 :: u32) \<le> 4294967280" by simp_all
  from realloc_keeps_data [OF ok sz] obtain q m' where
    "realloc_impl (w32 8388612) 50 m = Some (q, m')"
    "q = 0 \<and> m' = m \<or> q \<noteq> 0 \<and> (\<forall>i < min 100 (unat (50 :: u32)). m' (w32 (unat q + i)) = m (w32 (8388612 + i)))"
    by blast
  then have "q = 0 \<and> m' = m \<or> q \<noteq> 0 \<and> m' (w32 (unat q + 7)) = m (w32 8388619)" by force
  with ok sz \<open>realloc_impl (w32 8388612) 50 m = Some (q, m')\<close> show ?thesis by blast
qed

text \<open>
  C34: the size computation of \<open>realloc\<close> wraps around. \<open>malloc\<close> rejects requests above
  \<open>HEAP_SIZE\<close>, but \<open>realloc\<close> rounds the new size up first: for each of the three largest
  32-bit sizes it sees a need of the minimal block, keeps or shrinks the allocation and returns
  the old pointer, as if a block of four gigabytes had been provided.
\<close>

theorem realloc_size_wraps:
  assumes "heap_rep m (xs @ (n, True) # ys)" and "sz \<ge> 0xFFFFFFFD"
  shows "\<exists>m'. realloc_impl (w32 (HS + total xs + 4)) sz m = Some (w32 (HS + total xs + 4), m') \<and>
    w32 (HS + total xs + 4) \<noteq> 0 \<and> malloc_impl sz m = Some (0, m)"
proof -
  note at = heap_rep_at [OF assms(1)] and w = heap_word [OF assms(1)]
  have "unat sz \<ge> 4294967293" using assms(2) by (simp add: word_le_nat_alt)
  then have "unat (sz + 3) = unat sz + 3 - 4294967296"
    using unat_lt_2p32 [of sz] by (simp add: unat_word_ariths le_mod_geq del: unat_lt_2p32)
  then have "unat (sz + 3) < 4" using unat_lt_2p32 [of sz] by linarith
  then have "unat ((sz + 3) AND NOT 3) = 0" by (simp only: unat_and_not_3) simp
  then have "align_size sz = 0" by (simp add: align_size_def ALIGN_def unat_eq_zero add.commute)
  then have need: "block_need sz = w32 12" by (simp add: block_need_def heap_w32 w32_add)
  have "sz \<noteq> 0" "sz > HEAP_SIZE"
    using \<open>unat sz \<ge> 4294967293\<close> by (auto simp: HEAP_SIZE_def word_less_nat_alt)
  then have "malloc_impl sz m = Some (0, m)" by (simp add: malloc_impl_def)
  moreover have "rd32 m (w32 (HS + total xs)) AND - 2 = w32 n"
    "rd32 m (w32 (HS + total xs)) AND 1 \<noteq> 0" "n < 4294967296" using at by auto
  ultimately show ?thesis
    unfolding realloc_impl_def Let_def w(3) need using w \<open>sz \<noteq> 0\<close> at(1) by simp
qed

theorem realloc_size_wraps_witness:
  "\<exists>m m'. heap_rep m ([] @ (108, True) # [(2097044, False)]) \<and> (0xFFFFFFFE :: u32) \<ge> 0xFFFFFFFD \<and>
     realloc_impl (w32 8388612) 0xFFFFFFFE m = Some (w32 8388612, m')"
proof -
  obtain m where m: "heap_rep m ([] @ (108, True) # [(2097044, False)])" using sample_heap by blast
  from realloc_size_wraps [OF m, of "0xFFFFFFFE"] m show ?thesis by auto
qed

text \<open>
  C32: a second \<open>free\<close> of the same pointer is detected and changes nothing, also when the
  block has meanwhile been merged into its neighbours; so is a \<open>free\<close> of null or of a
  pointer outside the heap.
\<close>

theorem double_free_harmless:
  assumes "heap_ok m" and "(p, k) \<in> live m"
  shows "free_impl (w32 p) (free_impl (w32 p) m) = free_impl (w32 p) m \<and> free_impl 0 m = m \<and>
    (\<forall>q. q < 0x00800004 \<or> q \<ge> 0x00A00004 \<longrightarrow> free_impl q m = m)"
proof -
  from assms obtain bs where bs: "heap_rep m bs" and "(p, k) \<in> live_at HS bs"
    by (auto simp: heap_ok_iff live_rep)
  from live_at_split [OF this(2)] obtain xs n ys where
    *: "bs = xs @ (n, True) # ys" "p = HS + total xs + 4" by blast
  have rep: "heap_rep m (xs @ (n, True) # ys)" using bs * by simp
  have "free_impl (w32 p) m' = m'" if "rd32 m' (w32 (HS + total xs)) AND 1 = 0" for m'
    unfolding free_impl_def Let_def *(2) heap_word(3) [OF rep] using that by simp
  with free_rep(3) [OF rep] *(2) have "free_impl (w32 p) (free_impl (w32 p) m) = free_impl (w32 p) m"
    by simp
  moreover have "free_impl q m = m" if q: "q < 0x00800004 \<or> q \<ge> 0x00A00004" for q
  proof -
    have "q = 0 \<or> q - 4 < 0x00800000 \<or> 0x00A00000 \<le> q - 4"
      using q by (auto simp: word_nat unat_sub_if' unat_eq_zero)
    then show ?thesis by (auto simp: free_impl_def Let_def heap_consts)
  qed
  moreover have "free_impl 0 m = m" by (simp add: free_impl_def)
  ultimately show ?thesis by blast
qed

theorem double_free_harmless_witness:
  "\<exists>m. heap_ok m \<and> (8388612, 100) \<in> live m \<and>
     free_impl (w32 8388612) (free_impl (w32 8388612) m) = free_impl (w32 8388612) m"
proof -
  obtain m where m: "heap_rep m [(108, True), (2097044, False)]" using sample_heap by auto
  then have ok: "heap_ok m" "(8388612, 100) \<in> live m" using heap_ok_iff live_rep by auto
  with double_free_harmless [OF ok] show ?thesis by blast
qed

text \<open>
  C33: \<open>heap_walk\<close> on a well-formed heap reports no corruption, lists exactly the blocks
  in order, and its totals are those of the free and the used blocks; together they make
  up the whole heap.
\<close>

theorem heap_walk_report:
  assumes "heap_rep m bs"
  shows "corrupt_at (heap_walk_impl m) = None \<and>
    map (\<lambda>(a, f, s). (unat s, \<not> f)) (walk_lines (heap_walk_impl m)) = bs \<and>
    unat (total_free (heap_walk_impl m)) = total (filter (\<lambda>b. \<not> snd b) bs) \<and>
    unat (total_used (heap_walk_impl m)) = total (filter snd bs) \<and>
    total_free (heap_walk_impl m) + total_used (heap_walk_impl m) = HEAP_SIZE \<and>
    unat (walk_blocks (heap_walk_impl m)) = length bs"
proof -
  have sum: "total (filter (\<lambda>b. \<not> snd b) bs) + total (filter snd bs) = total bs" for bs
    by (induction bs) auto
  have "12 * length bs \<le> total bs" if "\<forall>b \<in> set bs. 12 \<le> fst b" for bs
    using that by (induction bs) fastforce+
  with heap_rep_sizes [OF assms] assms have len: "length bs < 4294967296" "total bs = 2097152"
    by (fastforce simp: heap_rep_def)+
  have bs: "blocks_at m HS bs" "HS + total bs = 10485760" using assms by (simp_all add: heap_rep_def)
  have f: "total (filter (\<lambda>b. \<not> snd b) bs) < 4294967296" "total (filter snd bs) < 4294967296"
    using sum [of bs] len(2) by linarith+
  show ?thesis
    using heap_walk_loop_blocks [OF bs, of "\<lparr>walk_lines = [], corrupt_at = None, total_free = 0,
        total_used = 0, walk_blocks = 0\<rparr>"] sum [of bs] len f
    by (simp add: heap_walk_impl_def heap_w32 w32_add)
qed

theorem heap_walk_report_witness:
  "heap_rep (heap_init (\<lambda>_. 0)) [(2097152, False)] \<and>
   unat (total_free (heap_walk_impl (heap_init (\<lambda>_. 0)))) = 2097152"
  using heap_walk_report [OF heap_init_rep, of "\<lambda>_. 0"] heap_init_rep by simp

end
