(* ===== verification/Sync.thy ===== *)
theory Sync
  imports Prelude
begin

text \<open>
  The synchronisation primitives of \<^verbatim>\<open>kernel/sync/sync.h\<close>: the spinlock built on the atomic
  \<open>xchg\<close> instruction, its interrupt-saving variants and the atomic operations. The machine
  below runs any number of CPUs whose locked sections are lists of single memory
  accesses, interleaved access by access. It shows that the lock serialises the sections,
  which is what allows the other theories to treat an operation that runs under its lock
  as one step.
\<close>

section \<open>The primitives\<close>

definition SPINLOCK_INIT :: u32 where "SPINLOCK_INIT = 0"

definition spinlock_init :: "u32 \<Rightarrow> u32" where "spinlock_init locked = 0"

text \<open>\<open>xchg\<close>: the old value of the memory word and its new value, in one step.\<close>

definition atomic_xchg :: "u32 \<Rightarrow> u32 \<Rightarrow> u32 \<times> u32" where
  "atomic_xchg mem val = (mem, val)"

definition spinlock_try_lock :: "u32 \<Rightarrow> bool \<times> u32" where
  "spinlock_try_lock locked = (let (old, locked) = atomic_xchg locked 1 in (old = 0, locked))"

definition spinlock_unlock :: "u32 \<Rightarrow> u32" where
  "spinlock_unlock locked = 0"

definition atomic_inc :: "u32 \<Rightarrow> u32" where "atomic_inc p = p + 1"
definition atomic_dec :: "u32 \<Rightarrow> u32" where "atomic_dec p = p - 1"

text \<open>The old value and the new memory; the exchange succeeds exactly if the old value is \<open>old\<close>.\<close>

definition atomic_cmpxchg :: "u32 \<Rightarrow> u32 \<Rightarrow> u32 \<Rightarrow> u32 \<times> u32" where
  "atomic_cmpxchg mem old new = (mem, if mem = old then new else mem)"

definition IF_FLAG :: u32 where "IF_FLAG = 0x200"

definition cli :: "u32 \<Rightarrow> u32" where "cli eflags = eflags AND NOT IF_FLAG"

section \<open>CPUs that share a lock\<close>

datatype pc = Idle | Spin | Crit | Restore

type_synonym ('s, 'l) action = "'s \<times> 'l \<Rightarrow> 's \<times> 'l"

record ('s, 'l) sys =
  locked :: u32
  shared :: 's
  cpu_data :: "nat \<Rightarrow> 'l"
  pc :: "nat \<Rightarrow> pc"
  eflags :: "nat \<Rightarrow> u32"
  saved :: "nat \<Rightarrow> u32"
  todo :: "nat \<Rightarrow> ('s, 'l) action list"
  ran :: "nat \<Rightarrow> ('s, 'l) action list"
  history :: "(nat \<times> ('s, 'l) action list) list"
  outer_flags :: "nat \<Rightarrow> u32"

text \<open>
  \<open>ran\<close>, \<open>history\<close> and \<open>outer_flags\<close> only observe the run: the accesses of the current
  section, the sections that have finished, and the flags each CPU had set outside locked
  sections. One round of the loop in \<open>spinlock_lock\<close> is one \<open>try_lock\<close> step.
\<close>

inductive lock_step :: "('s, 'l) sys \<Rightarrow> ('s, 'l) sys \<Rightarrow> bool" where
  set_flags: "pc s c = Idle \<Longrightarrow>
     lock_step s (s\<lparr>eflags := (eflags s)(c := f), outer_flags := (outer_flags s)(c := f)\<rparr>)"
| lock_irqsave: "pc s c = Idle \<Longrightarrow>
     lock_step s (s\<lparr>saved := (saved s)(c := eflags s c), eflags := (eflags s)(c := cli (eflags s c)),
               pc := (pc s)(c := Spin), todo := (todo s)(c := acts)\<rparr>)"
| try_lock: "pc s c = Spin \<Longrightarrow> spinlock_try_lock (locked s) = (got, l) \<Longrightarrow>
     lock_step s (s\<lparr>locked := l, pc := (pc s)(c := (if got then Crit else Spin)),
               ran := (ran s)(c := (if got then [] else ran s c))\<rparr>)"
| access: "pc s c = Crit \<Longrightarrow> todo s c = a # as \<Longrightarrow> a (shared s, cpu_data s c) = (sh, lo) \<Longrightarrow>
     lock_step s (s\<lparr>shared := sh, cpu_data := (cpu_data s)(c := lo), todo := (todo s)(c := as),
               ran := (ran s)(c := ran s c @ [a])\<rparr>)"
| unlock: "pc s c = Crit \<Longrightarrow> todo s c = [] \<Longrightarrow>
     lock_step s (s\<lparr>locked := spinlock_unlock (locked s), pc := (pc s)(c := Restore),
               history := history s @ [(c, ran s c)]\<rparr>)"
| irqrestore: "pc s c = Restore \<Longrightarrow>
     lock_step s (s\<lparr>eflags := (eflags s)(c := saved s c), pc := (pc s)(c := Idle)\<rparr>)"

inductive_cases lock_step_cases: "lock_step s s'"

definition lock_start :: "'s \<Rightarrow> (nat \<Rightarrow> 'l) \<Rightarrow> (nat \<Rightarrow> u32) \<Rightarrow> ('s, 'l) sys" where
  "lock_start sh lo fl = \<lparr>locked = SPINLOCK_INIT, shared = sh, cpu_data = lo, pc = (\<lambda>_. Idle), eflags = fl,
     saved = fl, todo = (\<lambda>_. []), ran = (\<lambda>_. []), history = [], outer_flags = fl\<rparr>"

text \<open>A whole section run at once, and a sequence of sections run one after the other.\<close>

definition run_section ::
    "nat \<Rightarrow> ('s, 'l) action list \<Rightarrow> 's \<times> (nat \<Rightarrow> 'l) \<Rightarrow> 's \<times> (nat \<Rightarrow> 'l)" where
  "run_section c acts = (\<lambda>(sh, lo). let (sh', l') = fold (\<lambda>a. a) acts (sh, lo c) in (sh', lo(c := l')))"

definition serial ::
    "(nat \<times> ('s, 'l) action list) list \<Rightarrow> 's \<times> (nat \<Rightarrow> 'l) \<Rightarrow> 's \<times> (nat \<Rightarrow> 'l)" where
  "serial l = fold (\<lambda>(c, acts). run_section c acts) l"

section \<open>The invariant\<close>

definition lock_inv :: "'s \<times> (nat \<Rightarrow> 'l) \<Rightarrow> ('s, 'l) sys \<Rightarrow> bool" where
  "lock_inv i s \<longleftrightarrow>
     (\<forall>c d. pc s c = Crit \<longrightarrow> pc s d = Crit \<longrightarrow> c = d) \<and>
     (locked s \<noteq> 0 \<longleftrightarrow> (\<exists>c. pc s c = Crit)) \<and>
     (locked s = 0 \<longrightarrow> (shared s, cpu_data s) = serial (history s) i) \<and>
     (\<forall>c. pc s c = Crit \<longrightarrow> (shared s, cpu_data s) = run_section c (ran s c) (serial (history s) i)) \<and>
     (\<forall>c. pc s c = Idle \<longrightarrow> eflags s c = outer_flags s c) \<and>
     (\<forall>c. pc s c \<noteq> Idle \<longrightarrow> saved s c = outer_flags s c \<and> eflags s c = cli (outer_flags s c))"

lemma try_lock_simps [simp]: "spinlock_try_lock l = (l = 0, 1)"
  by (simp add: spinlock_try_lock_def atomic_xchg_def)

lemma run_section_Nil [simp]: "run_section c [] x = x"
  by (cases x) (simp add: run_section_def)

lemma run_section_snoc:
  "run_section c acts x = (sh, lo) \<Longrightarrow> a (sh, lo c) = (sh', l') \<Longrightarrow>
   run_section c (acts @ [a]) x = (sh', lo(c := l'))"
  by (cases x) (auto simp: run_section_def split: prod.splits)

lemma serial_snoc [simp]: "serial (l @ [(c, acts)]) x = run_section c acts (serial l x)"
  by (simp add: serial_def)

lemma lock_inv_start: "lock_inv (sh, lo) (lock_start sh lo fl)"
  by (simp add: lock_inv_def lock_start_def SPINLOCK_INIT_def serial_def)

lemma crit_upd:
  "f c \<noteq> Crit \<Longrightarrow> p \<noteq> Crit \<Longrightarrow> (f(c := p)) d = Crit \<longleftrightarrow> f d = Crit"
  by auto

lemma lock_inv_step: "lock_step s s' \<Longrightarrow> lock_inv i s \<Longrightarrow> lock_inv i s'"
proof (induction rule: lock_step.induct)
  case (try_lock s c got l)
  then show ?case by (cases "locked s = 0") (auto simp: lock_inv_def fun_upd_idem)
next
  case (access s c a as sh lo)
  then have run: "run_section c (ran s c) (serial (history s) i) = (shared s, cpu_data s)"
    and other: "pc s d = Crit \<Longrightarrow> d = c" and l: "locked s \<noteq> 0" for d
    by (auto simp: lock_inv_def)
  have flags: "\<forall>c. pc s c = Idle \<longrightarrow> eflags s c = outer_flags s c"
    "\<forall>c. pc s c \<noteq> Idle \<longrightarrow> saved s c = outer_flags s c \<and> eflags s c = cli (outer_flags s c)"
    using access(4) by (simp_all add: lock_inv_def)
  note new = run_section_snoc [OF run, of a, OF access(3)]
  have "pc s d = Crit \<longleftrightarrow> d = c" for d using other access(1) by blast
  with new l flags show ?case by (simp add: lock_inv_def)
next
  case (unlock s c)
  then show ?case by (auto simp: lock_inv_def spinlock_unlock_def)
next
  case (irqrestore s c)
  then have "((pc s)(c := Idle)) d = Crit \<longleftrightarrow> pc s d = Crit" for d by (simp add: crit_upd)
  with irqrestore show ?case unfolding lock_inv_def by (simp del: fun_upd_apply) auto
next
  case (lock_irqsave s c acts)
  then have "((pc s)(c := Spin)) d = Crit \<longleftrightarrow> pc s d = Crit" for d by (simp add: crit_upd)
  with lock_irqsave show ?case unfolding lock_inv_def by (simp del: fun_upd_apply) auto
qed (auto simp: lock_inv_def)

lemma lock_inv_reachable: "lock_step\<^sup>*\<^sup>* (lock_start sh lo fl) s \<Longrightarrow> lock_inv (sh, lo) s"
  by (induction rule: rtranclp_induct) (auto intro: lock_inv_start lock_inv_step)

section \<open>Properties\<close>

text \<open>
  C8: the spinlock serialises the sections that run under it. In every state that any
  interleaving of any number of CPUs can reach, at most one CPU is inside a locked section,
  its interrupts are off, and the shared and private data are exactly what results from
  running the finished sections one at a time, in the order in which they released the
  lock, followed by the accesses the current holder has made; outside a section every CPU
  has the interrupt flag it had before taking the lock.
\<close>

theorem lock_linearizable:
  assumes "lock_step\<^sup>*\<^sup>* (lock_start sh lo fl) s"
  shows "(\<forall>c d. pc s c = Crit \<longrightarrow> pc s d = Crit \<longrightarrow> c = d) \<and>
    ((\<forall>c. pc s c \<noteq> Crit) \<longrightarrow> (shared s, cpu_data s) = serial (history s) (sh, lo)) \<and>
    (\<forall>c. pc s c = Crit \<longrightarrow> eflags s c AND IF_FLAG = 0 \<and>
       (shared s, cpu_data s) = run_section c (ran s c) (serial (history s) (sh, lo))) \<and>
    (\<forall>c. pc s c = Idle \<longrightarrow> eflags s c = outer_flags s c)"
proof -
  have "cli f AND IF_FLAG = 0" for f by (rule bit_word_eqI) (simp add: cli_def bit_simps)
  with lock_inv_reachable [OF assms] show ?thesis by (auto simp: lock_inv_def)
qed

theorem lock_linearizable_witness:
  "\<exists>s. lock_step\<^sup>*\<^sup>* (lock_start (5 :: nat) (\<lambda>_. 0 :: nat) (\<lambda>_. 0x202)) s \<and> pc s 3 = Crit \<and>
     eflags s 3 AND IF_FLAG = 0 \<and> shared s = 5"
proof -
  let ?s0 = "lock_start (5 :: nat) (\<lambda>_. 0 :: nat) (\<lambda>_. 0x202)"
  have i: "pc ?s0 3 = Idle" "locked ?s0 = 0" by (simp_all add: lock_start_def SPINLOCK_INIT_def)
  obtain s1 where s1: "lock_step ?s0 s1" "pc s1 3 = Spin" "locked s1 = 0" "shared s1 = 5"
    using lock_step.lock_irqsave [OF i(1), of "[]"] i(2) by (auto simp: lock_start_def)
  obtain s2 where s2: "lock_step s1 s2" "pc s2 3 = Crit" "shared s2 = 5"
    using lock_step.try_lock [OF s1(2) try_lock_simps] s1(3,4) by (auto split: if_splits)
  have r: "lock_step\<^sup>*\<^sup>* ?s0 s2" using s1(1) s2(1) by (meson converse_rtranclp_into_rtranclp r_into_rtranclp)
  from lock_linearizable [OF r] s2(2,3) r show ?thesis by blast
qed

text \<open>
  C35: the lock never gets stuck. In every reachable state in which some CPU waits for
  the lock or is inside a section, some CPU can take a step that makes progress: the holder
  can perform its next access or release the lock, or, if nobody holds the lock, every
  waiting CPU can acquire it.
\<close>

theorem lock_progress:
  assumes "lock_step\<^sup>*\<^sup>* (lock_start sh lo fl) s" and "pc s c = Spin \<or> pc s c = Crit"
  shows "(\<exists>d s'. pc s d = Crit \<and> lock_step s s' \<and>
            (pc s' d = Restore \<and> locked s' = 0 \<or> length (todo s d) = Suc (length (todo s' d)))) \<or>
         (\<forall>d. pc s d = Spin \<longrightarrow> (\<exists>s'. lock_step s s' \<and> pc s' d = Crit))"
proof (cases "locked s = 0")
  case True
  have "\<exists>s'. lock_step s s' \<and> pc s' d = Crit" if "pc s d = Spin" for d
    by (rule exI, rule conjI, rule lock_step.try_lock [OF that try_lock_simps]) (simp add: True)
  then show ?thesis by blast
next
  case False
  then obtain d where d: "pc s d = Crit"
    using lock_inv_reachable [OF assms(1)] by (auto simp: lock_inv_def)
  have "\<exists>s'. lock_step s s' \<and>
      (pc s' d = Restore \<and> locked s' = 0 \<or> length (todo s d) = Suc (length (todo s' d)))"
  proof (cases "todo s d")
    case Nil
    show ?thesis
      by (rule exI, rule conjI, rule lock_step.unlock [OF d Nil]) (simp add: spinlock_unlock_def)
  next
    case (Cons a as)
    obtain sh' lo' where "a (shared s, cpu_data s d) = (sh', lo')" by force
    from lock_step.access [OF d Cons this] Cons show ?thesis by fastforce
  qed
  with d show ?thesis by blast
qed

theorem lock_progress_witness:
  "\<exists>s s'. lock_step\<^sup>*\<^sup>* (lock_start (5 :: nat) (\<lambda>_. 0 :: nat) (\<lambda>_. 0)) s \<and> pc s 3 = Spin \<and> lock_step s s' \<and> pc s' 3 = Crit"
proof -
  let ?s0 = "lock_start (5 :: nat) (\<lambda>_. 0 :: nat) (\<lambda>_. 0)"
  have i: "pc ?s0 3 = Idle" by (simp add: lock_start_def)
  obtain s1 where s1: "lock_step ?s0 s1" "pc s1 3 = Spin" "\<forall>d. pc s1 d \<noteq> Crit"
    using lock_step.lock_irqsave [OF i, of "[]"] by (auto simp: lock_start_def)
  have r: "lock_step\<^sup>*\<^sup>* ?s0 s1" using s1(1) by blast
  from lock_progress [OF r, of 3] s1 r show ?thesis by blast
qed

end
