(* ===== verification/Scheduler.thy ===== *)
theory Scheduler
  imports Prelude "HOL-Library.Multiset"
begin

text \<open>
  The work queue of \<^verbatim>\<open>kernel/scheduler/scheduler.c\<close>: a table of 64 entries under one lock,
  filled by \<open>scheduler_submit\<close>, which assigns the entries to CPUs in turn, and emptied by
  the CPUs' calls of \<open>scheduler_step\<close>. A step runs the task function between two locked
  sections, so other CPUs act in the meantime and the function may submit tasks or call
  \<open>scheduler_step\<close> itself; the step relation below interleaves the locked sections.
\<close>

section \<open>The locked sections\<close>

definition MAX_TASKS :: nat where "MAX_TASKS = 64"

record 'f task_entry =
  fn :: 'f
  arg :: u32
  state :: int
  cpu_id :: int

record 'f sched =
  tasks :: "'f task_entry list"
  next_id :: int
  next_task_cpu :: int

text \<open>All bytes of the table become 0; \<open>null\<close> is the null function pointer.\<close>

definition scheduler_init :: "'f \<Rightarrow> 'f sched" where
  "scheduler_init null =
     \<lparr>tasks = replicate MAX_TASKS \<lparr>fn = null, arg = 0, state = 0, cpu_id = 0\<rparr>,
      next_id = 1, next_task_cpu = 0\<rparr>"

text \<open>The loops over the table look for the first entry with some property.\<close>

definition first_index :: "('a \<Rightarrow> bool) \<Rightarrow> 'a list \<Rightarrow> nat option" where
  "first_index P xs = find (\<lambda>i. P (xs ! i)) [0..<length xs]"

definition scheduler_submit :: "int \<Rightarrow> 'f \<Rightarrow> u32 \<Rightarrow> 'f sched \<Rightarrow> int \<times> 'f sched" where
  "scheduler_submit cpu_count f a s =
     (case first_index (\<lambda>t. state t = 0) (tasks s) of
        Some i \<Rightarrow>
          (next_id s,
           s\<lparr>tasks := (tasks s)[i := \<lparr>fn = f, arg = a, state = 1, cpu_id = next_task_cpu s\<rparr>],
             next_task_cpu := (if cpu_count > 1 then (next_task_cpu s + 1) mod cpu_count
                               else next_task_cpu s),
             next_id := next_id s + 1\<rparr>)
      | None \<Rightarrow> (0, s))"

definition scheduler_pending :: "'f sched \<Rightarrow> nat" where
  "scheduler_pending s = length (filter (\<lambda>t. state t = 1) (tasks s))"

text \<open>The check of \<open>scheduler_wait_all\<close>: is any task submitted or running?\<close>

definition any_pending :: "'f sched \<Rightarrow> bool" where
  "any_pending s \<longleftrightarrow> first_index (\<lambda>t. state t = 1 \<or> state t = 2) (tasks s) \<noteq> None"

text \<open>The first locked section of \<open>scheduler_step\<close>: the entry the CPU will run.\<close>

definition step_claim :: "int \<Rightarrow> 'f sched \<Rightarrow> (nat \<times> 'f \<times> u32 \<times> 'f sched) option" where
  "step_claim cpu s =
     (case first_index (\<lambda>t. state t = 1 \<and> cpu_id t = cpu) (tasks s) of
        Some i \<Rightarrow> Some (i, fn (tasks s ! i), arg (tasks s ! i),
                        s\<lparr>tasks := (tasks s)[i := (tasks s ! i)\<lparr>state := 2\<rparr>]\<rparr>)
      | None \<Rightarrow> None)"

text \<open>Its second locked section, after the task function has returned.\<close>

definition step_finish :: "int \<Rightarrow> nat \<Rightarrow> 'f sched \<Rightarrow> 'f sched" where
  "step_finish cpu i s = s\<lparr>tasks := (tasks s)[i := (tasks s ! i)\<lparr>state := 0, cpu_id := cpu\<rparr>]\<rparr>"

text \<open>
  A whole \<open>scheduler_step\<close> when nothing else happens while the task runs: \<open>run\<close> is what the
  task function does to the machine \<open>w\<close>.
\<close>

definition scheduler_step ::
    "('f \<Rightarrow> u32 \<Rightarrow> 'w \<Rightarrow> 'w) \<Rightarrow> int \<Rightarrow> 'f sched \<times> 'w \<Rightarrow> bool \<times> 'f sched \<times> 'w" where
  "scheduler_step run cpu = (\<lambda>(s, w).
     case step_claim cpu s of
       Some (i, f, a, s) \<Rightarrow> (True, step_finish cpu i s, run f a w)
     | None \<Rightarrow> (False, s, w))"

partial_function (option) scheduler_wait_all ::
    "('f \<Rightarrow> u32 \<Rightarrow> 'w \<Rightarrow> 'w) \<Rightarrow> int \<Rightarrow> 'f sched \<times> 'w \<Rightarrow> ('f sched \<times> 'w) option" where
  "scheduler_wait_all run cpu sw =
     (if any_pending (fst sw) then scheduler_wait_all run cpu (snd (scheduler_step run cpu sw))
      else Some sw)"

section \<open>CPUs working on the queue\<close>

text \<open>
  \<open>running c\<close> is the stack of entries CPU \<open>c\<close> is executing, innermost first: a task
  function may call \<open>scheduler_step\<close> again. \<open>submitted\<close> and \<open>executed\<close> record the tasks
  that were accepted and those whose function has returned.
\<close>

record 'f pool =
  queue :: "'f sched"
  running :: "int \<Rightarrow> nat list"
  submitted :: "('f \<times> u32) multiset"
  executed :: "(int \<times> 'f \<times> u32) multiset"

inductive pool_step :: "int \<Rightarrow> 'f pool \<Rightarrow> 'f pool \<Rightarrow> bool" for n where
  submit: "scheduler_submit n f a (queue p) = (tid, q) \<Longrightarrow> tid \<noteq> 0 \<Longrightarrow>
     pool_step n p (p\<lparr>queue := q, submitted := add_mset (f, a) (submitted p)\<rparr>)"
| claim: "step_claim c (queue p) = Some (i, f, a, q) \<Longrightarrow>
     pool_step n p (p\<lparr>queue := q, running := (running p)(c := i # running p c)\<rparr>)"
| finish: "running p c = i # rest \<Longrightarrow> t = tasks (queue p) ! i \<Longrightarrow>
     pool_step n p (p\<lparr>queue := step_finish c i (queue p), running := (running p)(c := rest),
                      executed := add_mset (c, fn t, arg t) (executed p)\<rparr>)"

definition pool_start :: "'f \<Rightarrow> 'f pool" where
  "pool_start null = \<lparr>queue = scheduler_init null, running = (\<lambda>_. []), submitted = {#}, executed = {#}\<rparr>"

section \<open>The first entry with a property\<close>

lemma first_index_Some:
  "first_index P xs = Some i \<Longrightarrow> i < length xs \<and> P (xs ! i) \<and> (\<forall>j < i. \<not> P (xs ! j))"
  by (auto simp: first_index_def find_Some_iff)

lemma first_index_None: "first_index P xs = None \<longleftrightarrow> (\<forall>i < length xs. \<not> P (xs ! i))"
  by (auto simp: first_index_def find_None_iff)

section \<open>The invariant\<close>

definition active :: "'f sched \<Rightarrow> ('f \<times> u32) multiset" where
  "active q = image_mset (\<lambda>t. (fn t, arg t)) (filter_mset (\<lambda>t. state t \<noteq> 0) (mset (tasks q)))"

definition pool_inv :: "'f pool \<Rightarrow> bool" where
  "pool_inv p \<longleftrightarrow>
     length (tasks (queue p)) = MAX_TASKS \<and> 1 \<le> next_id (queue p) \<and>
     (\<forall>i < MAX_TASKS. state (tasks (queue p) ! i) \<in> {0, 1, 2}) \<and>
     (\<forall>i < MAX_TASKS. state (tasks (queue p) ! i) = 2 \<longleftrightarrow>
        i \<in> set (running p (cpu_id (tasks (queue p) ! i)))) \<and>
     (\<forall>c. distinct (running p c)) \<and>
     (\<forall>c. \<forall>i \<in> set (running p c). i < MAX_TASKS \<and> cpu_id (tasks (queue p) ! i) = c) \<and>
     submitted p = image_mset snd (executed p) + active (queue p)"

lemma active_update:
  assumes "i < length (tasks q)"
  shows "active (q\<lparr>tasks := (tasks q)[i := t]\<rparr>) =
    (active q - (if state (tasks q ! i) \<noteq> 0 then {#(fn (tasks q ! i), arg (tasks q ! i))#} else {#})) +
    (if state t \<noteq> 0 then {#(fn t, arg t)#} else {#})"
proof -
  obtain M where M: "mset (tasks q) = add_mset (tasks q ! i) M"
    using assms by (metis insert_DiffM nth_mem_mset)
  show ?thesis using assms by (simp add: active_def mset_update M)
qed

lemma active_member:
  assumes "i < length (tasks q)" and "state (tasks q ! i) \<noteq> 0"
  shows "(fn (tasks q ! i), arg (tasks q ! i)) \<in># active q"
  using assms nth_mem_mset [OF assms(1)] unfolding active_def in_image_mset
  by (intro image_eqI [of _ _ "tasks q ! i"]) auto

lemma pool_inv_start: "pool_inv (pool_start null)"
  by (simp add: pool_inv_def pool_start_def scheduler_init_def active_def filter_replicate flip: mset_filter)

lemma pool_invI:
  assumes "queue p = q" and "running p = r" and "submitted p = su" and "executed p = ex"
    and "length (tasks q) = MAX_TASKS" and "1 \<le> next_id q"
    and "\<forall>i < MAX_TASKS. state (tasks q ! i) \<in> {0, 1, 2}"
    and "\<forall>i < MAX_TASKS. state (tasks q ! i) = 2 \<longleftrightarrow> i \<in> set (r (cpu_id (tasks q ! i)))"
    and "\<forall>c. distinct (r c)"
    and "\<forall>c. \<forall>i \<in> set (r c). i < MAX_TASKS \<and> cpu_id (tasks q ! i) = c"
    and "su = image_mset snd ex + active q"
  shows "pool_inv p"
  unfolding pool_inv_def assms(1-4) by (intro conjI) (fact assms)+

lemma pool_inv_running:
  assumes "pool_inv p"
  shows "i \<in> set (running p c) \<Longrightarrow> i < MAX_TASKS" and "i \<in> set (running p c) \<Longrightarrow> cpu_id (tasks (queue p) ! i) = c"
    and "i \<in> set (running p c) \<Longrightarrow> state (tasks (queue p) ! i) = 2" and "distinct (running p c)"
    and "j < MAX_TASKS \<Longrightarrow> state (tasks (queue p) ! j) = 2 \<Longrightarrow> j \<in> set (running p (cpu_id (tasks (queue p) ! j)))"
    and "submitted p = image_mset snd (executed p) + active (queue p)"
proof -
  have C: "\<forall>c. \<forall>i \<in> set (running p c). i < MAX_TASKS \<and> cpu_id (tasks (queue p) ! i) = c"
    and S: "\<forall>i < MAX_TASKS. state (tasks (queue p) ! i) = 2 \<longleftrightarrow> i \<in> set (running p (cpu_id (tasks (queue p) ! i)))"
    and D: "\<forall>c. distinct (running p c)"
    and M: "submitted p = image_mset snd (executed p) + active (queue p)"
    using assms unfolding pool_inv_def by simp_all
  show "distinct (running p c)" using D by blast
  show "submitted p = image_mset snd (executed p) + active (queue p)" by (rule M)
  show "j < MAX_TASKS \<Longrightarrow> state (tasks (queue p) ! j) = 2 \<Longrightarrow> j \<in> set (running p (cpu_id (tasks (queue p) ! j)))"
    using S by blast
  assume "i \<in> set (running p c)"
  with C show "i < MAX_TASKS" "cpu_id (tasks (queue p) ! i) = c" by simp_all
  with S \<open>i \<in> set (running p c)\<close> show "state (tasks (queue p) ! i) = 2" by simp
qed

lemma pool_inv_step: "pool_step n p p' \<Longrightarrow> pool_inv p \<Longrightarrow> pool_inv p'"
proof (induction rule: pool_step.induct)
  case (submit f a p tid q)
  then obtain i where i: "i < length (tasks (queue p))" "state (tasks (queue p) ! i) = 0"
    and q: "tasks q = (tasks (queue p))[i := \<lparr>fn = f, arg = a, state = 1, cpu_id = next_task_cpu (queue p)\<rparr>]"
      "next_id q = next_id (queue p) + 1"
    by (auto simp: scheduler_submit_def split: option.splits dest: first_index_Some)
  have "active q = active ((queue p)\<lparr>tasks := tasks q\<rparr>)" by (simp add: active_def)
  also have "\<dots> = add_mset (f, a) (active (queue p))" unfolding q using i by (simp add: active_update)
  finally have "active q = add_mset (f, a) (active (queue p))" .
  moreover have "i \<notin> set (running p c)" for c using submit(3) i by (auto simp: pool_inv_def)
  ultimately show ?case
    using submit(3) i by (auto simp: pool_inv_def q nth_list_update)
next
  case (claim c p i f a q)
  let ?t = "tasks (queue p) ! i"
  from claim have i: "i < length (tasks (queue p))" "state ?t = 1" "cpu_id ?t = c"
    and q: "q = (queue p)\<lparr>tasks := (tasks (queue p))[i := ?t\<lparr>state := 2\<rparr>]\<rparr>"
    by (auto simp: step_claim_def split: option.splits dest: first_index_Some)
  have "active q = active (queue p)"
    unfolding q using i active_member [OF i(1)] by (simp add: active_update)
  moreover have "i \<notin> set (running p d)" for d using claim(2) i by (auto simp: pool_inv_def)
  ultimately show ?case
    using claim(2) i by (auto simp: pool_inv_def q nth_list_update)
next
  case (finish p c i rest t)
  let ?q = "step_finish c i (queue p)" and ?r = "(running p)(c := rest)"
  have mem: "i \<in> set (running p c)" using finish(1) by simp
  note r = pool_inv_running [OF finish(3)]
  have len: "length (tasks (queue p)) = MAX_TASKS" "1 \<le> next_id (queue p)"
    and st: "\<forall>i < MAX_TASKS. state (tasks (queue p) ! i) \<in> {0, 1, 2}"
      "\<forall>i < MAX_TASKS. state (tasks (queue p) ! i) = 2 \<longleftrightarrow> i \<in> set (running p (cpu_id (tasks (queue p) ! i)))"
    and sub: "submitted p = image_mset snd (executed p) + active (queue p)"
    using finish(3) unfolding pool_inv_def by blast+
  have i: "i < length (tasks (queue p))" "state t = 2"
    using r(1,3) [OF mem] len finish(2) by simp_all
  have rest: "i \<notin> set rest" "distinct rest" using r(4) [of c] finish(1) by simp_all
  have run: "j \<in> set (?r d) \<longleftrightarrow> j \<noteq> i \<and> j \<in> set (running p d)" for j d
    using rest(1) finish(1) r(2) [OF mem] r(2) [of j d] by auto
  have tk: "tasks ?q ! j = (if j = i then t\<lparr>state := 0, cpu_id := c\<rparr> else tasks (queue p) ! j)" for j
    using i(1) finish(2) by (simp add: step_finish_def)
  have "active ?q = active (queue p) - {#(fn t, arg t)#}"
    unfolding step_finish_def using i finish(2) by (simp add: active_update)
  moreover have "(fn t, arg t) \<in># active (queue p)" using active_member [OF i(1)] i(2) finish(2) by simp
  ultimately have "active (queue p) = add_mset (fn t, arg t) (active ?q)" by simp
  then have S: "submitted p = image_mset snd (add_mset (c, fn t, arg t) (executed p)) + active ?q"
    using sub by simp
  have D: "\<forall>d. distinct (?r d)" using r(4) rest(2) by simp
  have N: "length (tasks ?q) = MAX_TASKS" "1 \<le> next_id ?q" using len by (simp_all add: step_finish_def)
  have V: "\<forall>j < MAX_TASKS. state (tasks ?q ! j) \<in> {0, 1, 2}" using st(1) by (simp add: tk)
  have R: "\<forall>j < MAX_TASKS. state (tasks ?q ! j) = 2 \<longleftrightarrow> j \<in> set (?r (cpu_id (tasks ?q ! j)))"
  proof (intro allI impI)
    fix j assume "j < MAX_TASKS"
    with st(2) show "state (tasks ?q ! j) = 2 \<longleftrightarrow> j \<in> set (?r (cpu_id (tasks ?q ! j)))"
      unfolding run by (cases "j = i") (simp_all add: tk)
  qed
  have C: "\<forall>d. \<forall>j \<in> set (?r d). j < MAX_TASKS \<and> cpu_id (tasks ?q ! j) = d"
  proof (intro allI ballI)
    fix d j assume "j \<in> set (?r d)"
    then have "j \<noteq> i" "j \<in> set (running p d)" unfolding run by blast+
    then show "j < MAX_TASKS \<and> cpu_id (tasks ?q ! j) = d" using r(1,2) by (simp add: tk)
  qed
  show ?case by (rule pool_invI [OF _ _ _ _ N V R D C S]) (simp_all add: fun_upd_def)
qed

lemma pool_inv_reachable: "(pool_step n)\<^sup>*\<^sup>* (pool_start null) p \<Longrightarrow> pool_inv p"
  by (induction rule: rtranclp_induct) (auto intro: pool_inv_start pool_inv_step)

section \<open>Draining the queue on one CPU\<close>

definition claimable :: "int \<Rightarrow> 'f sched \<Rightarrow> ('f \<times> u32) list" where
  "claimable cpu s = map (\<lambda>t. (fn t, arg t)) (filter (\<lambda>t. state t = 1 \<and> cpu_id t = cpu) (tasks s))"

lemma filter_first_index:
  assumes "first_index P xs = Some i"
  shows "filter P xs = xs ! i # filter P (drop (Suc i) xs)" and "filter P (take i xs) = []"
proof -
  note i = first_index_Some [OF assms]
  then show none: "filter P (take i xs) = []"
    by (auto simp: filter_empty_conv in_set_conv_nth)
  have "xs = take i xs @ xs ! i # drop (Suc i) xs" using i by (simp add: id_take_nth_drop)
  then have "filter P xs = filter P (take i xs) @ filter P (xs ! i # drop (Suc i) xs)"
    by (metis filter_append)
  then show "filter P xs = xs ! i # filter P (drop (Suc i) xs)" using none i by simp
qed

lemma step_claimable:
  assumes "scheduler_step run cpu (s, w) = (ok, s', w')" and "\<forall>t \<in> set (tasks s). state t = 0 \<or> state t = 1 \<and> cpu_id t = cpu"
  shows "\<forall>t \<in> set (tasks s'). state t = 0 \<or> state t = 1 \<and> cpu_id t = cpu"
    and "if ok then \<exists>f a. claimable cpu s = (f, a) # claimable cpu s' \<and> w' = run f a w
         else claimable cpu s = [] \<and> s' = s \<and> w' = w"
proof -
  let ?P = "\<lambda>t. state t = 1 \<and> cpu_id t = cpu"
  have "(\<forall>t \<in> set (tasks s'). state t = 0 \<or> ?P t) \<and>
      (if ok then \<exists>f a. claimable cpu s = (f, a) # claimable cpu s' \<and> w' = run f a w
       else claimable cpu s = [] \<and> s' = s \<and> w' = w)"
  proof (cases "first_index ?P (tasks s)")
    case None
    then have "claimable cpu s = []"
      by (auto simp: claimable_def filter_empty_conv in_set_conv_nth first_index_None)
    with None assms show ?thesis by (simp add: scheduler_step_def step_claim_def)
  next
    case (Some i)
    let ?t = "tasks s ! i"
    note i = first_index_Some [OF Some] and f = filter_first_index [OF Some]
    have s': "ok" "w' = run (fn ?t) (arg ?t) w"
        "tasks s' = (tasks s)[i := ?t\<lparr>state := 0, cpu_id := cpu\<rparr>]"
      using assms(1) Some i by (auto simp: scheduler_step_def step_claim_def step_finish_def)
    have "tasks s' = take i (tasks s) @ ?t\<lparr>state := 0, cpu_id := cpu\<rparr> # drop (Suc i) (tasks s)"
      using s'(3) i by (simp add: upd_conv_take_nth_drop)
    then have "filter ?P (tasks s') = filter ?P (drop (Suc i) (tasks s))" using f(2) by simp
    then have "claimable cpu s = (fn ?t, arg ?t) # claimable cpu s'"
      using f(1) by (simp add: claimable_def)
    moreover have "\<forall>t \<in> set (tasks s'). state t = 0 \<or> ?P t"
      using assms(2) unfolding s'(3) by (auto dest!: set_update_subset_insert [THEN subsetD])
    ultimately show ?thesis using s' by auto
  qed
  then show "\<forall>t \<in> set (tasks s'). state t = 0 \<or> ?P t"
    and "if ok then \<exists>f a. claimable cpu s = (f, a) # claimable cpu s' \<and> w' = run f a w
         else claimable cpu s = [] \<and> s' = s \<and> w' = w" by blast+
qed

section \<open>Properties\<close>





end
