(* ===== verification/Pfa.thy ===== *)
theory Pfa
  imports Memory
begin

text \<open>
  The page frame allocator, \<^verbatim>\<open>kernel/memory/pfa.c\<close>: one bit per 4 KB frame in a bitmap
  of \<open>MAX_FRAMES / 8\<close> bytes. The bitmap is a map from byte indices to bytes; every index
  the operations use is below \<open>MAX_FRAMES / 8\<close> as long as \<open>total_frames \<le> MAX_FRAMES\<close>, which
  \<open>pfa_init\<close> establishes. The lock around each operation makes it one atomic step
  (see the theory of the spinlocks), and the serial log lines have no effect on the state.
\<close>

definition FRAME_SIZE :: u32 where "FRAME_SIZE = 4096"
definition MAX_MEMORY :: u32 where "MAX_MEMORY = 1024 * 1024 * 1024"
definition MAX_FRAMES :: u32 where "MAX_FRAMES = MAX_MEMORY div FRAME_SIZE"

lemmas pfa_consts = FRAME_SIZE_def MAX_MEMORY_def MAX_FRAMES_def

record pfa =
  bitmap :: "u32 \<Rightarrow> u8"
  total_frames :: u32

definition FRAME :: "u32 \<Rightarrow> u32" where "FRAME addr = addr div FRAME_SIZE"
definition ADDR :: "u32 \<Rightarrow> u32" where "ADDR frame = frame * FRAME_SIZE"

definition pfa_set_bit :: "u32 \<Rightarrow> pfa \<Rightarrow> pfa" where
  "pfa_set_bit frame p =
     p\<lparr>bitmap := (bitmap p)(frame div 8 :=
        bitmap p (frame div 8) OR push_bit (unat (frame mod 8)) 1)\<rparr>"

definition clear_bit :: "u32 \<Rightarrow> pfa \<Rightarrow> pfa" where
  "clear_bit frame p =
     p\<lparr>bitmap := (bitmap p)(frame div 8 :=
        bitmap p (frame div 8) AND NOT (push_bit (unat (frame mod 8)) 1))\<rparr>"

definition test_bit :: "pfa \<Rightarrow> u32 \<Rightarrow> bool" where
  "test_bit p frame \<longleftrightarrow> drop_bit (unat (frame mod 8)) (bitmap p (frame div 8)) AND 1 \<noteq> 0"

definition mark_frame :: "u32 \<Rightarrow> pfa \<Rightarrow> pfa" where
  "mark_frame addr p =
     (let frame = FRAME addr in if frame < total_frames p then pfa_set_bit frame p else p)"

text \<open>
  The marking loops of \<open>pfa_init\<close>: \<open>for (a = lo; a < hi; a += FRAME_SIZE) mark_frame(a)\<close>.
  The increment wraps, so that the loop ends has to be shown.
\<close>

partial_function (option) mark_range :: "u32 \<Rightarrow> u32 \<Rightarrow> pfa \<Rightarrow> pfa option" where
  "mark_range a hi p =
     (if a < hi then mark_range (a + FRAME_SIZE) hi (mark_frame a p) else Some p)"

definition pfa_init :: "u32 \<Rightarrow> u32 \<Rightarrow> pfa \<Rightarrow> pfa option" where
  "pfa_init bss_end_addr detected_ram p =
     (let detected_ram = (if detected_ram > MAX_MEMORY then MAX_MEMORY else detected_ram);
          p = p\<lparr>total_frames := detected_ram div FRAME_SIZE\<rparr>;
          kernel_end = (bss_end_addr + FRAME_SIZE - 1) AND NOT (FRAME_SIZE - 1)
      in case mark_range 0 kernel_end p of
           None \<Rightarrow> None
         | Some p \<Rightarrow>
             (let p = mark_frame 0x00090000 p;
                  p = mark_frame 0x000A0000 p
              in mark_range 0x000A0000 0x00100000 p))"

function alloc_scan :: "pfa \<Rightarrow> u32 \<Rightarrow> u32 option" where
  "alloc_scan p i =
     (if i < total_frames p then (if \<not> test_bit p i then Some i else alloc_scan p (i + 1))
      else None)"
  by pat_completeness auto
termination
  by (relation "measure (\<lambda>(p, i). unat (total_frames p) - unat i)")
     (auto simp: unat_inc word_less_nat_alt)

definition alloc_frame :: "pfa \<Rightarrow> u32 \<times> pfa" where
  "alloc_frame p =
     (case alloc_scan p 0 of
        Some i \<Rightarrow> (ADDR i, pfa_set_bit i p)
      | None \<Rightarrow> (0, p))"

definition free_frame :: "u32 \<Rightarrow> pfa \<Rightarrow> pfa" where
  "free_frame addr p =
     (if addr = 0 then p
      else let frame = FRAME addr in if frame < total_frames p then clear_bit frame p else p)"

function free_count_loop :: "pfa \<Rightarrow> u32 \<Rightarrow> int \<Rightarrow> int" where
  "free_count_loop p i count =
     (if i < total_frames p
      then free_count_loop p (i + 1) (if \<not> test_bit p i then count + 1 else count)
      else count)"
  by pat_completeness auto
termination
  by (relation "measure (\<lambda>(p, i, count). unat (total_frames p) - unat i)")
     (auto simp: unat_inc word_less_nat_alt)

definition get_free_frame_count :: "pfa \<Rightarrow> int" where
  "get_free_frame_count p = free_count_loop p 0 0"

function run_free :: "pfa \<Rightarrow> u32 \<Rightarrow> u32 \<Rightarrow> u32 \<Rightarrow> bool" where
  "run_free p start count j =
     (if j < count then (if test_bit p (start + j) then False else run_free p start count (j + 1))
      else True)"
  by pat_completeness auto
termination
  by (relation "measure (\<lambda>(p, start, count, j). unat count - unat j)")
     (auto simp: unat_inc word_less_nat_alt)

function set_run :: "u32 \<Rightarrow> u32 \<Rightarrow> u32 \<Rightarrow> pfa \<Rightarrow> pfa" where
  "set_run start count j p =
     (if j < count then set_run start count (j + 1) (pfa_set_bit (start + j) p) else p)"
  by pat_completeness auto
termination
  by (relation "measure (\<lambda>(start, count, j, p). unat count - unat j)")
     (auto simp: unat_inc word_less_nat_alt)

text \<open>
  The outer loop of \<open>alloc_frames\<close> runs for \<open>start = 0, \<dots>, total_frames - count\<close>, that is
  \<open>total_frames - count + 1\<close> times unless it returns early; the first argument counts the
  rounds that are left.
\<close>

fun run_scan :: "nat \<Rightarrow> pfa \<Rightarrow> u32 \<Rightarrow> u32 \<Rightarrow> u32 option" where
  "run_scan 0 p count start = None"
| "run_scan (Suc k) p count start =
     (if run_free p start count 0 then Some start else run_scan k p count (start + 1))"

definition alloc_frames :: "u32 \<Rightarrow> pfa \<Rightarrow> u32 \<times> pfa" where
  "alloc_frames count p =
     (if count = 0 \<or> count > total_frames p then (0, p)
      else case run_scan (Suc (unat (total_frames p - count))) p count 0 of
             Some start \<Rightarrow> (ADDR start, set_run start count 0 p)
           | None \<Rightarrow> (0, p))"

function clear_run :: "u32 \<Rightarrow> u32 \<Rightarrow> u32 \<Rightarrow> pfa \<Rightarrow> pfa" where
  "clear_run start count j p =
     (if j < count
      then clear_run start count (j + 1)
             (if start + j < total_frames p then clear_bit (start + j) p else p)
      else p)"
  by pat_completeness auto
termination
  by (relation "measure (\<lambda>(start, count, j, p). unat count - unat j)")
     (auto simp: unat_inc word_less_nat_alt)

definition free_frames :: "u32 \<Rightarrow> u32 \<Rightarrow> pfa \<Rightarrow> pfa" where
  "free_frames addr count p = clear_run (FRAME addr) count 0 p"

declare alloc_scan.simps [simp del] free_count_loop.simps [simp del] run_free.simps [simp del]
  set_run.simps [simp del] clear_run.simps [simp del]

section \<open>The bitmap as a set of frames\<close>

lemma frame_split: "f div 8 = g div 8 \<Longrightarrow> unat (f mod 8) = unat (g mod 8) \<Longrightarrow> f = g" for f g :: u32
  by (metis mult_div_mod_eq unsigned_word_eqI)

lemma unat_mod_8 [simp]: "unat (f mod 8) < 8" for f :: u32
  by (simp add: unat_mod)

lemma test_bit_iff: "test_bit p f \<longleftrightarrow> bit (bitmap p (f div 8)) (unat (f mod 8))"
  by (simp add: test_bit_def drop_bit_and_1)

interpretation frames: bit_array test_bit pfa_set_bit clear_bit
proof
  show "test_bit (pfa_set_bit g p) f \<longleftrightarrow> f = g \<or> test_bit p f" for g p f
    using frame_split [of f g]
    by (auto simp: test_bit_iff pfa_set_bit_def bit_or_exp)
  show "test_bit (clear_bit g p) f \<longleftrightarrow> f \<noteq> g \<and> test_bit p f" for g p f
    using frame_split [of f g]
    by (auto simp: test_bit_iff clear_bit_def bit_and_not_exp)
qed

lemma total_frames_bits [simp]:
  "total_frames (pfa_set_bit f p) = total_frames p" "total_frames (clear_bit f p) = total_frames p"
  by (simp_all add: pfa_set_bit_def clear_bit_def)

lemma total_frames_fold [simp]:
  "total_frames (fold pfa_set_bit fs p) = total_frames p"
  "total_frames (fold clear_bit fs p) = total_frames p"
  by (induction fs arbitrary: p) simp_all

lemma alloc_scan_find: "alloc_scan p i = find_from (\<lambda>f. \<not> test_bit p f) (total_frames p) i"
  by (induction p i rule: alloc_scan.induct) (subst alloc_scan.simps, subst find_from.simps, simp)

lemma run_free_iff:
  "run_free p start count j \<longleftrightarrow> (\<forall>f \<in> set (run_from start j count). \<not> test_bit p f)"
  by (induction p start count j rule: run_free.induct)
     (subst run_free.simps, simp add: run_from_Cons run_from_Nil)

lemma set_run_fold: "set_run start count j p = fold pfa_set_bit (run_from start j count) p"
  by (induction start count j p rule: set_run.induct)
     (subst set_run.simps, simp add: run_from_Cons run_from_Nil)

lemma run_scan_find:
  "unat start + k < 4294967296 \<Longrightarrow>
   run_scan k p count start = find_from (\<lambda>s. run_free p s count 0) (start + of_nat k) start"
proof (induction k arbitrary: start)
  case 0
  then show ?case by (simp add: find_from.simps)
next
  case (Suc k)
  have lt: "start < start + of_nat (Suc k)"
    using Suc.prems by (simp add: word_less_nat_alt unat_word_ariths unat_of_nat del: of_nat_Suc)
  then have "unat (start + 1) + k < 4294967296" using Suc.prems by (simp add: unat_inc)
  then have "run_scan k p count (start + 1) =
      find_from (\<lambda>s. run_free p s count 0) (start + of_nat (Suc k)) (start + 1)"
    using Suc.IH by (simp add: add.assoc)
  with lt show ?case
    by (simp add: find_from.simps [of _ _ start] del: of_nat_Suc)
qed

lemma clear_run_fold:
  "clear_run start count j p =
   fold clear_bit (filter (\<lambda>f. f < total_frames p) (run_from start j count)) p"
  by (induction start count j p rule: clear_run.induct)
     (subst clear_run.simps, simp add: run_from_Cons run_from_Nil)

lemma free_count_loop_card:
  "free_count_loop p i c = c + int (card {f. i \<le> f \<and> f < total_frames p \<and> \<not> test_bit p f})"
proof (induction p i c rule: free_count_loop.induct)
  case (1 p i c)
  let ?S = "\<lambda>i. {f. i \<le> f \<and> f < total_frames p \<and> \<not> test_bit p f}"
  show ?case
  proof (cases "i < total_frames p")
    case True
    then have "i < i + 1" using unat_inc [OF True] by (simp add: word_less_nat_alt)
    then have S: "?S i = (if test_bit p i then ?S (i + 1) else insert i (?S (i + 1)))"
      and new: "i \<notin> ?S (i + 1)"
      using True by (auto dest: word_between_inc)
    have "card (insert i (?S (i + 1))) = Suc (card (?S (i + 1)))"
      by (rule card_insert_disjoint) (use new in simp_all)
    with S True "1.IH" show ?thesis by (subst free_count_loop.simps) simp
  next
    case False
    then have "?S i = {}" by auto
    with False show ?thesis by (subst free_count_loop.simps) simp
  qed
qed

section \<open>Addresses of frames\<close>

definition pfa_wf :: "pfa \<Rightarrow> bool" where
  "pfa_wf p \<longleftrightarrow> total_frames p \<le> MAX_FRAMES \<and> test_bit p 0"

lemma unat_ADDR: "f < MAX_FRAMES \<Longrightarrow> unat (ADDR f) = 4096 * unat f"
  by (simp add: ADDR_def pfa_consts word_less_nat_alt unat_word_ariths)

lemma FRAME_ADDR [simp]: "f < MAX_FRAMES \<Longrightarrow> FRAME (ADDR f) = f"
  by (simp add: word_unat_eq_iff unat_ADDR FRAME_def FRAME_SIZE_def unat_div)

lemma ADDR_eq_0 [simp]: "f < MAX_FRAMES \<Longrightarrow> ADDR f = 0 \<longleftrightarrow> f = 0"
  using unat_ADDR [of f] by (metis ADDR_def mult_zero_left mult_eq_0_iff unat_0_iff
      zero_neq_numeral)

section \<open>Initialisation\<close>

lemma mark_frame_page:
  "k < 1048576 \<Longrightarrow> mark_frame (of_nat (4096 * k)) p =
     (if of_nat k < total_frames p then pfa_set_bit (of_nat k) p else p)"
proof -
  assume k: "k < 1048576"
  then have "4096 * k < 4294967296" by simp
  then have "FRAME (of_nat (4096 * k)) = of_nat k"
    using k by (simp add: FRAME_def FRAME_SIZE_def word_unat_eq_iff unat_div unat_of_nat32
        del: of_nat_mult)
  then show ?thesis by (simp add: mark_frame_def Let_def)
qed

lemma total_frames_mark_frame [simp]: "total_frames (mark_frame a p) = total_frames p"
  by (simp add: mark_frame_def Let_def)

lemma mark_range_pages:
  "i \<le> n \<Longrightarrow> n < 1048576 \<Longrightarrow>
   \<exists>p'. mark_range (of_nat (4096 * i)) (of_nat (4096 * n)) p = Some p' \<and>
     total_frames p' = total_frames p \<and>
     (\<forall>f. test_bit p' f \<longleftrightarrow> test_bit p f \<or> f < total_frames p \<and> i \<le> unat f \<and> unat f < n)"
proof (induction "n - i" arbitrary: i p)
  case 0
  then have "i = n" by simp
  then show ?case by (subst mark_range.simps) auto
next
  case (Suc d)
  then have i: "i < n" "d = n - Suc i" by simp_all
  with Suc.prems have lt: "(of_nat (4096 * i) :: u32) < of_nat (4096 * n)"
    by (simp only: of_nat_less32)
  let ?p = "mark_frame (of_nat (4096 * i)) p"
  have step: "mark_range (of_nat (4096 * i)) (of_nat (4096 * n)) p =
      mark_range (of_nat (4096 * Suc i)) (of_nat (4096 * n)) ?p"
    using lt by (subst mark_range.simps) (simp add: FRAME_SIZE_def add.commute)
  obtain p' where p': "mark_range (of_nat (4096 * Suc i)) (of_nat (4096 * n)) ?p = Some p'"
      "total_frames p' = total_frames p"
      "\<forall>f. test_bit p' f \<longleftrightarrow>
         test_bit ?p f \<or> f < total_frames p \<and> Suc i \<le> unat f \<and> unat f < n"
    using Suc.hyps(1) [OF i(2), of ?p] i(1) Suc.prems(2) by auto
  have "test_bit ?p f \<longleftrightarrow> test_bit p f \<or> f < total_frames p \<and> unat f = i" for f
    using i(1) Suc.prems(2) mark_frame_page [of i p]
    by (auto simp: frames.test_mark word_unat_eq_iff unat_of_nat32 simp del: of_nat_mult)
  moreover have "(unat f = i \<or> Suc i \<le> unat f \<and> unat f < n) \<longleftrightarrow> i \<le> unat f \<and> unat f < n" for f :: u32
    using i(1) by linarith
  ultimately have "test_bit p' f \<longleftrightarrow> test_bit p f \<or> f < total_frames p \<and> i \<le> unat f \<and> unat f < n" for f
    using p'(3) by metis
  with p'(1,2) step show ?case by metis
qed

lemma align_up_page:
  "unat a \<le> 4294963200 \<Longrightarrow>
   (a + FRAME_SIZE - 1) AND NOT (FRAME_SIZE - 1) = of_nat (4096 * ((unat a + 4095) div 4096))"
  for a :: u32
proof -
  assume a: "unat a \<le> 4294963200"
  have "unat (a + 4095) = unat a + 4095" using a by (simp add: unat_word_ariths)
  then have "unat ((a + 4095) AND NOT 4095) = 4096 * ((unat a + 4095) div 4096)"
    by (simp only: unat_and_not_4095 mult.commute)
  moreover have "4096 * ((unat a + 4095) div 4096) < 4294967296" using a by simp
  ultimately have "(a + 4095) AND NOT 4095 = of_nat (4096 * ((unat a + 4095) div 4096))"
    by (simp only: word_unat_eq_iff unat_of_nat32)
  moreover have "a + FRAME_SIZE - 1 = a + 4095" and "FRAME_SIZE - 1 = (4095 :: u32)"
    by (simp_all add: FRAME_SIZE_def)
  ultimately show ?thesis by (simp only:)
qed

lemma pages_of_0xA0: "(0x000A0000 :: u32) = of_nat (4096 * 160)" "(0x00100000 :: u32) = of_nat (4096 * 256)"
  by simp_all

lemma test_bit_mark_frame_const:
  "test_bit (mark_frame 0x00090000 p) f \<longleftrightarrow> test_bit p f \<or> f < total_frames p \<and> f = 0x90"
  "test_bit (mark_frame 0x000A0000 p) f \<longleftrightarrow> test_bit p f \<or> f < total_frames p \<and> f = 0xA0"
  by (auto simp: mark_frame_def FRAME_def FRAME_SIZE_def frames.test_mark)

section \<open>Allocating one frame\<close>

lemma alloc_frame_cases:
  assumes "pfa_wf p"
  obtains (full) "alloc_frame p = (0, p)" and "\<forall>f < total_frames p. test_bit p f"
  | (frame) f where "alloc_frame p = (ADDR f, pfa_set_bit f p)" and "ADDR f \<noteq> 0"
      and "f < total_frames p" and "f < MAX_FRAMES" and "\<not> test_bit p f" and "\<forall>g < f. test_bit p g"
proof (cases "alloc_scan p 0")
  case None
  then have "\<forall>f < total_frames p. test_bit p f"
    by (simp add: alloc_scan_find find_from_None_iff)
  with None show thesis by (intro full) (simp_all add: alloc_frame_def)
next
  case (Some f)
  then have f: "f < total_frames p" "\<not> test_bit p f" "\<forall>g < f. test_bit p g"
    by (auto simp: alloc_scan_find dest: find_from_Some)
  with assms have "f < MAX_FRAMES" "f \<noteq> 0" by (auto simp: pfa_wf_def)
  with Some f show thesis by (intro frame [of f]) (simp_all add: alloc_frame_def)
qed

section \<open>Properties\<close>

text \<open>
  C27: \<open>pfa_init\<close> always returns, for every amount of detected memory and every kernel
  image that ends below the last page of the address space. Afterwards a frame is taken
  exactly if it was taken before, lies below the (page-aligned) end of the kernel image, is
  frame \<open>0x90\<close>, or lies in the legacy video and BIOS area from \<open>0xA0000\<close> to \<open>0xFFFFF\<close>; and
  the number of frames is that of the detected memory, cut at 1 GB.
\<close>

theorem pfa_init_reserves:
  assumes "unat bss_end \<le> 4294959104"
  shows "\<exists>p'. pfa_init bss_end ram p = Some p' \<and>
    unat (total_frames p') = min (unat ram) 1073741824 div 4096 \<and>
    (\<forall>f. test_bit p' f \<longleftrightarrow> test_bit p f \<or> f < total_frames p' \<and>
       (unat f < (unat bss_end + 4095) div 4096 \<or> f = 0x90 \<or> 0xA0 \<le> f \<and> f < 0x100))"
proof -
  let ?ram = "if ram > MAX_MEMORY then MAX_MEMORY else ram"
  let ?p = "p\<lparr>total_frames := ?ram div FRAME_SIZE\<rparr>"
  let ?n = "(unat bss_end + 4095) div 4096"
  have same: "test_bit ?p f = test_bit p f" for f by (simp add: test_bit_def)
  have "?n < 1048576" using assms by simp
  then obtain p1 where p1: "mark_range (of_nat (4096 * 0)) (of_nat (4096 * ?n)) ?p = Some p1"
      "total_frames p1 = total_frames ?p"
      "\<forall>f. test_bit p1 f \<longleftrightarrow> test_bit p f \<or> f < total_frames ?p \<and> unat f < ?n"
    using mark_range_pages [of 0 ?n ?p] same by auto
  let ?p2 = "mark_frame 0x000A0000 (mark_frame 0x00090000 p1)"
  obtain p2 where p2: "mark_range 0x000A0000 0x00100000 ?p2 = Some p2"
      "total_frames p2 = total_frames ?p"
      "\<forall>f. test_bit p2 f \<longleftrightarrow>
         test_bit ?p2 f \<or> f < total_frames ?p \<and> 160 \<le> unat f \<and> unat f < 256"
    using mark_range_pages [of 160 256 ?p2] p1(2) unfolding pages_of_0xA0 by auto
  have "pfa_init bss_end ram p = Some p2"
    using p1(1) p2(1) assms by (simp add: pfa_init_def Let_def align_up_page del: of_nat_mult)
  moreover have "unat (total_frames p2) = min (unat ram) 1073741824 div 4096"
    using p2(2) by (auto simp: unat_div pfa_consts word_less_nat_alt min_def)
  moreover have "test_bit p2 f \<longleftrightarrow> test_bit p f \<or> f < total_frames p2 \<and>
      (unat f < ?n \<or> f = 0x90 \<or> 0xA0 \<le> f \<and> f < 0x100)" for f
    using p1(2,3) p2(2,3) by (auto simp: test_bit_mark_frame_const word_nat)
  ultimately show ?thesis by blast
qed

text \<open>
  C26: \<open>alloc_frame\<close> returns the lowest free frame and takes exactly that frame; it
  returns the null pointer, with the state unchanged, exactly when every frame is taken.
  The address it returns is never null otherwise, because frame 0 is reserved.
\<close>

theorem alloc_frame_lowest:
  assumes "pfa_wf p"
  shows "(\<exists>f p'. alloc_frame p = (ADDR f, p') \<and> ADDR f \<noteq> 0 \<and> unat (ADDR f) = 4096 * unat f \<and>
             f < total_frames p \<and> \<not> test_bit p f \<and> (\<forall>g < f. test_bit p g) \<and>
             pfa_wf p' \<and> total_frames p' = total_frames p \<and>
             (\<forall>g. test_bit p' g \<longleftrightarrow> g = f \<or> test_bit p g))
       \<or> alloc_frame p = (0, p) \<and> (\<forall>f < total_frames p. test_bit p f)"
  using assms
proof (cases rule: alloc_frame_cases)
  case (frame f)
  with assms show ?thesis by (auto simp: unat_ADDR frames.test_mark pfa_wf_def)
qed blast

text \<open>A small machine for the witnesses: 16 frames, the first one taken.\<close>

definition small_pfa :: pfa where
  "small_pfa = \<lparr>bitmap = (\<lambda>i. if i = 0 then 1 else 0), total_frames = 16\<rparr>"

lemma small_pfa_wf: "pfa_wf small_pfa"
  by (simp add: pfa_wf_def small_pfa_def test_bit_def pfa_consts)

lemma small_pfa_simps: "\<not> test_bit small_pfa 1" "\<not> test_bit small_pfa 2" "total_frames small_pfa = 16"
  by (simp_all add: small_pfa_def test_bit_def)

theorem pfa_init_reserves_witness:
  "unat (0x00123456 :: u32) \<le> 4294959104 \<and>
   (\<exists>p'. pfa_init 0x00123456 0x02000000 small_pfa = Some p' \<and>
     unat (total_frames p') = 8192 \<and> test_bit p' 0x123 \<and> \<not> test_bit p' 0x800)"
proof -
  have h: "unat (0x00123456 :: u32) \<le> 4294959104" by simp
  from pfa_init_reserves [OF h, of "0x02000000" small_pfa] obtain p' where
    "pfa_init 0x00123456 0x02000000 small_pfa = Some p'" "unat (total_frames p') = 8192"
    "\<forall>f. test_bit p' f \<longleftrightarrow> test_bit small_pfa f \<or> f < total_frames p' \<and>
      (unat f < 292 \<or> f = 0x90 \<or> 0xA0 \<le> f \<and> f < 0x100)"
    by auto
  moreover have "\<not> test_bit small_pfa 0x800" by (simp add: small_pfa_def test_bit_def)
  ultimately show ?thesis by (simp add: word_less_nat_alt)
qed

theorem alloc_frame_lowest_witness:
  "pfa_wf small_pfa \<and> (\<exists>f p'. alloc_frame small_pfa = (ADDR f, p') \<and> ADDR f \<noteq> 0 \<and> test_bit p' f)"
  using alloc_frame_lowest [OF small_pfa_wf] small_pfa_wf small_pfa_simps by auto

definition free_run :: "pfa \<Rightarrow> u32 \<Rightarrow> u32 \<Rightarrow> bool" where
  "free_run p start count \<longleftrightarrow>
     unat start + unat count \<le> unat (total_frames p) \<and> (\<forall>k < count. \<not> test_bit p (start + k))"

lemma free_run_iff:
  assumes "total_frames p \<le> MAX_FRAMES" and "count \<le> total_frames p"
  shows "free_run p s count \<longleftrightarrow> s < total_frames p - count + 1 \<and> run_free p s count 0"
proof -
  have "unat (total_frames p - count + 1) = unat (total_frames p) - unat count + 1"
    using assms by (simp add: unat_word_ariths unat_sub word_le_nat_alt pfa_consts)
  then have "s < total_frames p - count + 1 \<longleftrightarrow> unat s + unat count \<le> unat (total_frames p)"
    using assms(2) by (auto simp: word_nat)
  then show ?thesis by (auto simp: free_run_def run_free_iff set_run_from)
qed

lemma run_scan_lowest:
  assumes "total_frames p \<le> MAX_FRAMES" and "count \<le> total_frames p"
  shows "case run_scan (Suc (unat (total_frames p - count))) p count 0 of
           None \<Rightarrow> \<forall>s. \<not> free_run p s count
         | Some s \<Rightarrow> free_run p s count \<and> (\<forall>t < s. \<not> free_run p t count)"
proof -
  have "unat (total_frames p - count) < 4294967295"
    using assms by (simp add: unat_sub word_le_nat_alt pfa_consts)
  then have "unat (0 :: u32) + Suc (unat (total_frames p - count)) < 4294967296" by simp
  moreover have "0 + of_nat (Suc (unat (total_frames p - count))) = total_frames p - count + 1"
    by (simp add: add.commute)
  ultimately have scan: "run_scan (Suc (unat (total_frames p - count))) p count 0 =
      find_from (\<lambda>s. run_free p s count 0) (total_frames p - count + 1) 0"
    by (metis run_scan_find)
  show ?thesis
  proof (cases "find_from (\<lambda>s. run_free p s count 0) (total_frames p - count + 1) 0")
    case None
    have "\<not> free_run p s count" for s
      using find_from_None [OF None, of s] by (simp only: free_run_iff [OF assms] word_zero_le) blast
    then show ?thesis unfolding scan None by simp
  next
    case (Some s)
    have "free_run p s count"
      using find_from_Some [OF Some] by (simp only: free_run_iff [OF assms] simp_thms)
    moreover have "\<not> free_run p t count" if "t < s" for t
      using find_from_Some [OF Some] that
      by (simp only: free_run_iff [OF assms] word_zero_le simp_thms)
    ultimately show ?thesis unfolding scan Some by simp
  qed
qed

lemma mem_run_from:
  assumes "unat s + unat count < 4294967296"
  shows "f \<in> set (run_from s 0 count) \<longleftrightarrow> s \<le> f \<and> unat f < unat s + unat count"
proof
  assume "f \<in> set (run_from s 0 count)"
  then obtain k where k: "f = s + k" "k < count" by (auto simp: set_run_from)
  with assms have "unat f = unat s + unat k"
    by (simp add: unat_add_noflow word_nat)
  with k show "s \<le> f \<and> unat f < unat s + unat count" by (simp add: word_nat)
next
  assume f: "s \<le> f \<and> unat f < unat s + unat count"
  then have "f - s < count" by (auto simp: word_nat unat_sub)
  moreover have "f = s + (f - s)" by simp
  ultimately show "f \<in> set (run_from s 0 count)" unfolding set_run_from by blast
qed

text \<open>
  C17: \<open>alloc_frames\<close> returns the lowest run of \<open>count\<close> consecutive free frames inside
  the machine's memory and takes exactly the frames of that run; it returns null, with the
  state unchanged, exactly when there is no such run (or the request is empty or larger than
  the memory).
\<close>

theorem alloc_frames_lowest_run:
  assumes "pfa_wf p" and "count \<noteq> 0"
  shows "(\<exists>s p'. alloc_frames count p = (ADDR s, p') \<and> ADDR s \<noteq> 0 \<and> free_run p s count \<and>
             (\<forall>t < s. \<not> free_run p t count) \<and>
             pfa_wf p' \<and> total_frames p' = total_frames p \<and>
             (\<forall>f. test_bit p' f \<longleftrightarrow> test_bit p f \<or> s \<le> f \<and> unat f < unat s + unat count))
       \<or> alloc_frames count p = (0, p) \<and> (\<forall>s. \<not> free_run p s count)"
proof (cases "count > total_frames p")
  case True
  then have "\<not> free_run p s count" for s by (simp add: free_run_def word_nat)
  with True show ?thesis by (simp add: alloc_frames_def)
next
  case False
  with assms(1) have le: "total_frames p \<le> MAX_FRAMES" "count \<le> total_frames p" and
    zero: "test_bit p 0" by (simp_all add: pfa_wf_def)
  note low = run_scan_lowest [OF le]
  show ?thesis
  proof (cases "run_scan (Suc (unat (total_frames p - count))) p count 0")
    case None
    with low False assms(2) show ?thesis by (simp add: alloc_frames_def del: run_scan.simps)
  next
    case (Some s)
    with low have s: "free_run p s count" "\<forall>t < s. \<not> free_run p t count"
      by (simp_all del: run_scan.simps)
    have "0 < count" using assms(2) by (simp add: word_neq_0_conv)
    with s(1) zero have "s \<noteq> 0" by (auto simp: free_run_def)
    from s(1) \<open>0 < count\<close> le have sum: "unat s + unat count < 4294967296" "s < MAX_FRAMES"
      by (auto simp: free_run_def word_nat pfa_consts)
    let ?p = "set_run s count 0 p"
    have bits: "test_bit ?p f \<longleftrightarrow> test_bit p f \<or> s \<le> f \<and> unat f < unat s + unat count" for f
      unfolding set_run_fold frames.test_mark_all mem_run_from [OF sum(1)] by blast
    have "pfa_wf ?p" using assms(1) by (simp add: pfa_wf_def bits) (simp add: set_run_fold)
    with Some s bits sum(2) \<open>s \<noteq> 0\<close> False assms(2) show ?thesis
      by (auto simp: alloc_frames_def set_run_fold simp del: run_scan.simps)
  qed
qed

theorem alloc_frames_lowest_run_witness:
  "pfa_wf small_pfa \<and> (3 :: u32) \<noteq> 0 \<and>
   (\<exists>s p'. alloc_frames 3 small_pfa = (ADDR s, p') \<and> ADDR s \<noteq> 0 \<and> free_run small_pfa s 3)"
proof -
  have "free_run small_pfa 2 3"
  proof -
    have "\<not> test_bit small_pfa (2 + k)" if "k < 3" for k
    proof -
      from that have "unat k < 3" by (simp add: word_less_nat_alt)
      then have "k = of_nat 0 \<or> k = of_nat 1 \<or> k = of_nat 2"
        by (auto simp: word_unat_eq_iff)
      then show ?thesis by (auto simp: small_pfa_def test_bit_def)
    qed
    then show ?thesis by (simp add: free_run_def small_pfa_simps)
  qed
  then show ?thesis
    using alloc_frames_lowest_run [OF small_pfa_wf, of 3] small_pfa_wf by auto
qed

lemma alloc_frames_result:
  assumes "pfa_wf p" and "alloc_frames count p = (a, p')" and "a \<noteq> 0"
  obtains s where "a = ADDR s" and "s < MAX_FRAMES" and "free_run p s count"
    and "p' = fold pfa_set_bit (run_from s 0 count) p"
proof -
  from assms(1) have le: "total_frames p \<le> MAX_FRAMES" by (simp add: pfa_wf_def)
  from assms(2,3) obtain s where c: "count \<noteq> 0" "count \<le> total_frames p" and
    s: "run_scan (Suc (unat (total_frames p - count))) p count 0 = Some s" and
    r: "a = ADDR s" "p' = set_run s count 0 p"
    by (auto simp: alloc_frames_def simp del: run_scan.simps split: if_splits option.splits)
  from run_scan_lowest [OF le c(2)] have f: "free_run p s count" unfolding s by simp
  have "0 < count" using c(1) by (simp add: word_neq_0_conv)
  with f le have "s < MAX_FRAMES" by (auto simp: free_run_def word_nat)
  with that r f show thesis by (simp add: set_run_fold)
qed

lemma alloc_frames_null:
  assumes "pfa_wf p" and "alloc_frames count p = (0, p')"
  shows "p' = p"
proof (cases "count = 0 \<or> count > total_frames p")
  case False
  then have c: "count \<noteq> 0" "count \<le> total_frames p" by auto
  from assms(1) have wf: "total_frames p \<le> MAX_FRAMES" "test_bit p 0" by (simp_all add: pfa_wf_def)
  show ?thesis
  proof (cases "run_scan (Suc (unat (total_frames p - count))) p count 0")
    case None
    with assms(2) show ?thesis by (simp add: alloc_frames_def del: run_scan.simps split: if_splits)
  next
    case (Some s)
    with run_scan_lowest [OF wf(1) c(2)] have f: "free_run p s count" by simp
    have "0 < count" using c(1) by (simp add: word_neq_0_conv)
    with f have "\<not> test_bit p (s + 0)" unfolding free_run_def by blast
    with wf(2) have "s \<noteq> 0" by auto
    moreover from f \<open>0 < count\<close> wf(1) have "s < MAX_FRAMES" by (auto simp: free_run_def word_nat)
    ultimately show ?thesis
      using assms(2) Some c(1) by (simp add: alloc_frames_def del: run_scan.simps split: if_splits)
  qed
qed (use assms(2) in \<open>auto simp: alloc_frames_def\<close>)

lemma card_run_from: "card (set (run_from s 0 count)) = unat count"
proof -
  have "card (set (run_from s 0 count)) = card {k. k < count}"
    unfolding set_run_from by (rule card_image) simp
  also have "\<dots> = card (unat ` {k. k < count})"
    by (rule card_image [symmetric]) (simp add: inj_on_def word_unat_eq_iff)
  also have "unat ` {k. k < count} = {..< unat count}"
  proof (intro equalityI subsetI)
    fix n assume n: "n \<in> {..< unat count}"
    then have "n < 4294967296" using unat_lt_2p32 [of count] by (simp del: unat_lt_2p32)
    with n have "unat (of_nat n :: u32) = n" "(of_nat n :: u32) < count"
      by (simp_all add: word_less_nat_alt unat_of_nat)
    then show "n \<in> unat ` {k. k < count}" by (metis (mono_tags) image_eqI mem_Collect_eq)
  qed (auto simp: word_less_nat_alt)
  finally show ?thesis by simp
qed

text \<open>
  C25: giving a run of frames back undoes its allocation: after a successful
  \<open>alloc_frames\<close>, \<open>free_frames\<close> with the returned address and the same count restores
  every bit of the bitmap, and \<open>get_free_frame_count\<close>, which counts the free frames
  one by one, is down by exactly \<open>count\<close> in between and back to its old value afterwards.
\<close>

theorem free_frames_undoes_alloc_frames:
  assumes "pfa_wf p" and "alloc_frames count p = (a, p')" and "a \<noteq> 0"
  shows "(\<forall>f. test_bit (free_frames a count p') f = test_bit p f) \<and>
    get_free_frame_count p' = get_free_frame_count p - int (unat count) \<and>
    get_free_frame_count (free_frames a count p') = get_free_frame_count p"
proof -
  obtain s where s: "a = ADDR s" "s < MAX_FRAMES" "free_run p s count"
      "p' = fold pfa_set_bit (run_from s 0 count) p"
    using alloc_frames_result [OF assms] .
  let ?R = "set (run_from s 0 count)" and ?F = "\<lambda>p. {f. f < total_frames p \<and> \<not> test_bit p f}"
  have sum: "unat s + unat count < 4294967296"
    using s(3) unat_lt_2p32 [of "total_frames p"] by (simp add: free_run_def del: unat_lt_2p32)
  have R: "f < total_frames p \<and> \<not> test_bit p f" if "f \<in> ?R" for f
    using that s(3) mem_run_from [OF sum, of f] by (auto simp: free_run_def set_run_from word_nat)
  then have "filter (\<lambda>f. f < total_frames p) (run_from s 0 count) = run_from s 0 count"
    by (simp add: filter_id_conv)
  then have free: "free_frames a count p' = fold clear_bit (run_from s 0 count) p'"
    using s by (simp add: free_frames_def clear_run_fold)
  have restored: "test_bit (free_frames a count p') f = test_bit p f" for f
    using frames.clear_mark_all [of "run_from s 0 count" p f] R by (simp add: free) (simp add: s(4))
  have "?F p = ?F p' \<union> ?R" "?F p' \<inter> ?R = {}"
    using R s(4) by (auto simp: frames.test_mark_all)
  then have "card (?F p) = card (?F p') + unat count"
    by (simp add: card_Un_disjoint card_run_from)
  moreover have "total_frames (free_frames a count p') = total_frames p"
    by (simp add: free) (simp add: s(4))
  ultimately show ?thesis
    using restored by (simp add: get_free_frame_count_def free_count_loop_card)
qed

theorem free_frames_undoes_alloc_frames_witness:
  "pfa_wf small_pfa \<and> fst (alloc_frames 1 small_pfa) = 4096 \<and>
   get_free_frame_count (free_frames 4096 1 (snd (alloc_frames 1 small_pfa)))
     = get_free_frame_count small_pfa"
proof -
  have "run_free small_pfa 1 1 0" "\<not> run_free small_pfa 0 1 0"
    using small_pfa_simps small_pfa_wf
    by (simp_all add: run_free_iff run_from_def pfa_wf_def)
  then have "run_scan (Suc (Suc 14)) small_pfa 1 0 = Some 1"
    by (simp only: run_scan.simps) simp
  moreover have "Suc (unat (total_frames small_pfa - 1)) = Suc (Suc 14)"
    by (simp add: small_pfa_simps)
  ultimately have a: "alloc_frames 1 small_pfa = (4096, set_run 1 1 0 small_pfa)"
    unfolding alloc_frames_def by (simp only:) (simp add: small_pfa_simps ADDR_def FRAME_SIZE_def)
  with free_frames_undoes_alloc_frames [OF small_pfa_wf a] small_pfa_wf show ?thesis by simp
qed

end
