(* ===== verification/Paging.thy ===== *)
theory Paging
  imports Pfa
begin

text \<open>
  Two-level paging, \<^verbatim>\<open>kernel/memory/paging.c\<close>, on physical memory and the page frame
  allocator. Page directories and page tables are arrays of 1024 words in page frames; the
  kernel reaches them through its identity mapping, so an entry is a word of the physical
  memory. The paging lock makes each operation one step. Instructions that only
  concern the TLB are recorded as events.
\<close>

section \<open>The operations\<close>

definition PAGE_PRESENT :: u32 where "PAGE_PRESENT = 1"
definition PAGE_WRITE :: u32 where "PAGE_WRITE = 2"
definition PAGE_USER :: u32 where "PAGE_USER = 4"

lemmas page_flags = PAGE_PRESENT_def PAGE_WRITE_def PAGE_USER_def

definition TLB_IPI_VECTOR :: u32 where "TLB_IPI_VECTOR = 0x50"

record vm =
  pmem :: mem
  frames :: pfa
  kernel_page_dir :: u32
  cr3 :: u32
  cr0 :: u32
  invlpgs :: "u32 list"
  apic_enabled :: bool
  ipis :: "u32 list"

definition PDE_IDX :: "u32 \<Rightarrow> u32" where "PDE_IDX virt = drop_bit 22 virt AND 0x3FF"
definition PTE_IDX :: "u32 \<Rightarrow> u32" where "PTE_IDX virt = drop_bit 12 virt AND 0x3FF"

text \<open>The C expression \<open>table[i]\<close> for a table of 32-bit entries, as a load and as a store.\<close>

definition entry :: "mem \<Rightarrow> u32 \<Rightarrow> u32 \<Rightarrow> u32" where
  "entry m table i = rd32 m (table + 4 * i)"

definition set_entry :: "u32 \<Rightarrow> u32 \<Rightarrow> u32 \<Rightarrow> mem \<Rightarrow> mem" where
  "set_entry table i v m = wr32 m (table + 4 * i) v"

text \<open>The loop \<open>for (i = 0; i < 1024; i++) table[i] = f i\<close>.\<close>

definition fill_table :: "u32 \<Rightarrow> (nat \<Rightarrow> u32) \<Rightarrow> mem \<Rightarrow> mem" where
  "fill_table table f m = fold (\<lambda>i. set_entry table (w32 i) (f i)) [0..<1024] m"

definition create_table_in_dir :: "u32 \<Rightarrow> u32 \<Rightarrow> u32 \<Rightarrow> vm \<Rightarrow> u32 \<times> vm" where
  "create_table_in_dir dir virt flags s =
     (let (table, fr) = alloc_frame (frames s); s = s\<lparr>frames := fr\<rparr>
      in if table = 0 then (0, s)
         else let m = fill_table table (\<lambda>_. 0) (pmem s);
                  m = set_entry dir (PDE_IDX virt)
                        (table OR PAGE_PRESENT OR PAGE_WRITE OR (flags AND PAGE_USER)) m
              in (table, s\<lparr>pmem := m\<rparr>))"

text \<open>
  The loop of \<open>init_paging\<close> that identity-maps the memory above 4 MB. The first component
  of its result is false when it returned early because there was no frame for a table.
\<close>

partial_function (option) identity_loop :: "u32 \<Rightarrow> u32 \<Rightarrow> vm \<Rightarrow> (bool \<times> vm) option" where
  "identity_loop virt detected_ram s =
     (if virt < detected_ram
      then let (pt, s) = create_table_in_dir (kernel_page_dir s) virt 0 s
           in if pt = 0 then Some (False, s)
              else identity_loop (virt + 0x400000) detected_ram
                     (s\<lparr>pmem := fill_table pt
                          (\<lambda>i. (virt + w32 i * FRAME_SIZE) OR PAGE_PRESENT OR PAGE_WRITE) (pmem s)\<rparr>)
      else Some (True, s))"

definition init_paging :: "u32 \<Rightarrow> vm \<Rightarrow> vm option" where
  "init_paging detected_ram s =
     (let (dir, fr) = alloc_frame (frames s); s = s\<lparr>frames := fr, kernel_page_dir := dir\<rparr>
      in if dir = 0 then Some s
         else let s = s\<lparr>pmem := fill_table dir (\<lambda>_. 0) (pmem s)\<rparr>;
                  (first_pt, fr) = alloc_frame (frames s); s = s\<lparr>frames := fr\<rparr>
              in if first_pt = 0 then Some s
                 else let m = fill_table first_pt
                                (\<lambda>i. (w32 i * FRAME_SIZE) OR PAGE_PRESENT OR PAGE_WRITE) (pmem s);
                          m = set_entry dir 0 (first_pt OR PAGE_PRESENT OR PAGE_WRITE) m
                      in case identity_loop 0x00400000 detected_ram (s\<lparr>pmem := m\<rparr>) of
                           None \<Rightarrow> None
                         | Some (False, s) \<Rightarrow> Some s
                         | Some (True, s) \<Rightarrow>
                             Some (s\<lparr>cr3 := kernel_page_dir s, cr0 := cr0 s OR 0x80000000\<rparr>))"

definition page_dir_create :: "vm \<Rightarrow> u32 \<times> vm" where
  "page_dir_create s =
     (let (dir, fr) = alloc_frame (frames s); s = s\<lparr>frames := fr\<rparr>
      in if dir = 0 then (0, s)
         else (dir, s\<lparr>pmem := fold (\<lambda>i m. set_entry dir (w32 i) (entry m (kernel_page_dir s) (w32 i)) m)
                               [0..<1024] (pmem s)\<rparr>))"

definition page_dir_switch :: "u32 \<Rightarrow> vm \<Rightarrow> vm" where
  "page_dir_switch dir s = s\<lparr>cr3 := dir\<rparr>"

definition map_page_to_dir :: "u32 \<Rightarrow> u32 \<Rightarrow> u32 \<Rightarrow> u32 \<Rightarrow> vm \<Rightarrow> int \<times> vm" where
  "map_page_to_dir dir virt phys flags s =
     (let pde_idx = PDE_IDX virt;
          (failed, s) = (if entry (pmem s) dir pde_idx AND PAGE_PRESENT = 0
                         then let (t, s) = create_table_in_dir dir virt flags s in (t = 0, s)
                         else (False, s))
      in if failed then (-1, s)
         else let table = entry (pmem s) dir pde_idx AND 0xFFFFF000;
                  pte_idx = PTE_IDX virt
              in (0, s\<lparr>pmem := set_entry table pte_idx
                   ((phys AND 0xFFFFF000) OR PAGE_PRESENT OR
                    (flags AND (PAGE_WRITE OR PAGE_USER OR PAGE_PRESENT))) (pmem s)\<rparr>))"

definition map_page :: "u32 \<Rightarrow> u32 \<Rightarrow> u32 \<Rightarrow> vm \<Rightarrow> int \<times> vm" where
  "map_page virt phys flags s =
     (let (r, s) = map_page_to_dir (kernel_page_dir s) virt phys flags s
      in (r, if r = 0 then s\<lparr>invlpgs := virt # invlpgs s\<rparr> else s))"

definition unmap_page_from_dir :: "u32 \<Rightarrow> u32 \<Rightarrow> vm \<Rightarrow> int \<times> vm" where
  "unmap_page_from_dir dir virt s =
     (let pde_idx = PDE_IDX virt
      in if entry (pmem s) dir pde_idx AND PAGE_PRESENT = 0 then (-1, s)
         else let table = entry (pmem s) dir pde_idx AND 0xFFFFF000;
                  pte_idx = PTE_IDX virt
              in if entry (pmem s) table pte_idx AND PAGE_PRESENT = 0 then (-1, s)
                 else (0, s\<lparr>pmem := set_entry table pte_idx 0 (pmem s)\<rparr>))"

text \<open>\<open>sync/tlb.c\<close>: flush the page here and interrupt the other CPUs to flush theirs.\<close>

definition tlb_shootdown :: "u32 \<Rightarrow> vm \<Rightarrow> vm" where
  "tlb_shootdown virt s =
     (let s = s\<lparr>invlpgs := virt # invlpgs s\<rparr>
      in if apic_enabled s then s\<lparr>ipis := TLB_IPI_VECTOR # ipis s\<rparr> else s)"

definition unmap_page :: "u32 \<Rightarrow> vm \<Rightarrow> int \<times> vm" where
  "unmap_page virt s =
     (let (r, s) = unmap_page_from_dir (kernel_page_dir s) virt s
      in (r, if r = 0 then tlb_shootdown virt s else s))"

text \<open>The result is what \<open>*phys_out\<close> receives, or \<open>None\<close> when the function returns -1.\<close>

definition get_page_mapping :: "u32 \<Rightarrow> vm \<Rightarrow> u32 option" where
  "get_page_mapping virt s =
     (let pde_idx = PDE_IDX virt
      in if entry (pmem s) (kernel_page_dir s) pde_idx AND PAGE_PRESENT = 0 then None
         else let table = entry (pmem s) (kernel_page_dir s) pde_idx AND 0xFFFFF000;
                  pte_idx = PTE_IDX virt
              in if entry (pmem s) table pte_idx AND PAGE_PRESENT = 0 then None
                 else Some (entry (pmem s) table pte_idx AND 0xFFFFF000))"

definition user_flag_table :: "u32 \<Rightarrow> mem \<Rightarrow> mem" where
  "user_flag_table table m =
     fold (\<lambda>j m. if entry m table (w32 j) AND PAGE_PRESENT \<noteq> 0
                 then set_entry table (w32 j) (entry m table (w32 j) OR PAGE_USER) m else m)
          [0..<1024] m"

definition page_dir_add_user_flag :: "u32 \<Rightarrow> vm \<Rightarrow> vm" where
  "page_dir_add_user_flag dir s =
     s\<lparr>pmem := fold (\<lambda>i m. if entry m dir (w32 i) AND PAGE_PRESENT = 0 then m
                           else let m = set_entry dir (w32 i) (entry m dir (w32 i) OR PAGE_USER) m;
                                    table = entry m dir (w32 i) AND 0xFFFFF000
                                in user_flag_table table m)
                   [0..<1024] (pmem s)\<rparr>"

definition paging_enable_user_access :: "vm \<Rightarrow> vm" where
  "paging_enable_user_access s = page_dir_add_user_flag (kernel_page_dir s) s"

text \<open>The totals that \<open>dump_page_info\<close> prints: present directory and table entries.\<close>

definition dump_page_info :: "vm \<Rightarrow> nat \<times> nat" where
  "dump_page_info s =
     fold (\<lambda>pde_i (total_pdes, total_ptes).
             if entry (pmem s) (kernel_page_dir s) (w32 pde_i) AND PAGE_PRESENT = 0
             then (total_pdes, total_ptes)
             else let table = entry (pmem s) (kernel_page_dir s) (w32 pde_i) AND 0xFFFFF000
                  in (total_pdes + 1,
                      fold (\<lambda>pte_i n. if entry (pmem s) table (w32 pte_i) AND PAGE_PRESENT = 0
                                      then n else n + 1) [0..<1024] total_ptes))
          [0..<1024] (0, 0)"

section \<open>Entries of tables\<close>

text \<open>The address of page frame \<open>t\<close>.\<close>

definition pg :: "nat \<Rightarrow> u32" where "pg t = w32 (4096 * t)"

lemma pg_eq_iff [simp]: "t < 1048576 \<Longrightarrow> u < 1048576 \<Longrightarrow> pg t = pg u \<longleftrightarrow> t = u"
  by (simp add: pg_def)

lemma pg_eq_0_iff [simp]: "t < 1048576 \<Longrightarrow> pg t = 0 \<longleftrightarrow> t = 0"
  by (simp add: pg_def)

lemma ADDR_pg: "ADDR f = pg (unat f)"
proof -
  have "ADDR f = w32 (unat f) * w32 4096"
    by (simp add: ADDR_def FRAME_SIZE_def w32_def)
  then show ?thesis by (simp only: pg_def w32_mult mult.commute)
qed

lemma entry_addr: "pg t + 4 * w32 i = w32 (4096 * t + 4 * i)"
proof -
  have "4 * w32 i = w32 (4 * i)" by (simp add: w32_def)
  then show ?thesis by (simp add: pg_def w32_add)
qed

lemma entry_set_entry:
  assumes "t < 1048576" and "u < 1048576" and "i < 1024" and "j < 1024"
  shows "entry (set_entry (pg t) (w32 i) v m) (pg u) (w32 j) =
    (if t = u \<and> i = j then v else entry m (pg u) (w32 j))"
proof (cases "t = u \<and> i = j")
  case False
  then have "4096 * u + 4 * j + 4 \<le> 4096 * t + 4 * i \<or> 4096 * t + 4 * i + 4 \<le> 4096 * u + 4 * j"
    using assms by (cases "t = u"; cases "t < u") auto
  with assms have "rd32 (wr32 m (w32 (4096 * t + 4 * i)) v) (w32 (4096 * u + 4 * j)) =
      rd32 m (w32 (4096 * u + 4 * j))"
    by (intro rd32_wr32_other) auto
  with False show ?thesis by (auto simp: entry_def set_entry_def entry_addr)
qed (simp add: entry_def set_entry_def)

lemma same_outside_set_entry:
  assumes "t < 1048576" and "i < 1024" and "same_outside (4096 * t) (4096 * t + 4096) m m'"
  shows "same_outside (4096 * t) (4096 * t + 4096) m (set_entry (pg t) (w32 i) v m')"
  unfolding set_entry_def entry_addr using assms by (intro same_outside_wr32) auto

lemma fill_upto:
  assumes "t < 1048576" and "n \<le> 1024"
  defines "g \<equiv> \<lambda>f m. fold (\<lambda>i. set_entry (pg t) (w32 i) (f i)) [0..<n] m"
  shows "u < 1048576 \<Longrightarrow> j < 1024 \<Longrightarrow>
      entry (g f m) (pg u) (w32 j) = (if t = u \<and> j < n then f j else entry m (pg u) (w32 j))"
    and "same_outside (4096 * t) (4096 * t + 4096) m (g f m)"
  unfolding g_def using assms(1,2)
  by (induction n) (auto simp: entry_set_entry less_Suc_eq intro!: same_outside_set_entry)

lemma entry_fill_table:
  assumes "t < 1048576" and "u < 1048576" and "j < 1024"
  shows "entry (fill_table (pg t) f m) (pg u) (w32 j) = (if t = u then f j else entry m (pg u) (w32 j))"
  unfolding fill_table_def using fill_upto(1) [of t 1024 u j f m] assms by simp

lemma same_outside_fill_table:
  "t < 1048576 \<Longrightarrow> same_outside (4096 * t) (4096 * t + 4096) m (fill_table (pg t) f m)"
  unfolding fill_table_def using fill_upto(2) [of t 1024 m f] by simp

text \<open>Indices of a virtual address.\<close>

lemma and_3FF: "unat (x AND 0x3FF) = unat x mod 1024" for x :: u32
proof -
  have "x AND 0x3FF = take_bit 10 x" by (simp add: take_bit_eq_mask mask_eq_exp_minus_1)
  then show ?thesis by (simp add: take_bit_eq_mod unat_mod)
qed

lemma PDE_IDX_w32: "PDE_IDX v = w32 (unat v div 4194304)" "unat v div 4194304 < 1024"
proof -
  have lt: "unat v div 4194304 < 1024" using unat_lt_2p32 [of v] by (simp del: unat_lt_2p32)
  then show "unat v div 4194304 < 1024" .
  show "PDE_IDX v = w32 (unat v div 4194304)"
    by (rule w32_eq_unatI) (use lt in \<open>simp add: PDE_IDX_def and_3FF drop_bit_eq_div unat_div\<close>)
qed

lemma PTE_IDX_w32: "PTE_IDX v = w32 (unat v div 4096 mod 1024)" "unat v div 4096 mod 1024 < 1024"
  by (rule w32_eq_unatI) (simp_all add: PTE_IDX_def and_3FF drop_bit_eq_div unat_div)

lemma same_page_iff:
  "a div 4096 = b div 4096 \<longleftrightarrow>
   a div 4194304 = b div 4194304 \<and> a div 4096 mod 1024 = b div 4096 mod 1024" for a b :: nat
proof -
  have *: "n div 4194304 = n div 4096 div 1024" for n :: nat by (simp add: div_mult2_eq [symmetric])
  show ?thesis unfolding * by (metis div_mult_mod_eq)
qed

section \<open>Flag words\<close>

definition present :: "u32 \<Rightarrow> bool" where "present e \<longleftrightarrow> e AND PAGE_PRESENT \<noteq> 0"

lemma present_bit: "present e \<longleftrightarrow> bit e 0"
  by (simp add: present_def PAGE_PRESENT_def and_1_bit)

lemma present_simps [simp]: "\<not> present 0" "present PAGE_PRESENT"
  "present (a OR b) \<longleftrightarrow> present a \<or> present b"
  by (auto simp: present_bit PAGE_PRESENT_def bit_or_iff)

lemma pg_mask: "t < 1048576 \<Longrightarrow> pg t AND 0xFFFFF000 = pg t"
  by (rule w32_eq_unatI [of _ "4096 * t", folded pg_def]) (simp add: unat_and_page pg_def)

lemma mask_or_flags:
  assumes "t < 1048576" and "x AND 0xFFFFF000 = 0"
  shows "(pg t OR x) AND 0xFFFFF000 = pg t"
  using assms by (simp add: bit.conj_disj_distrib2 pg_mask)

lemma flags_mask [simp]:
  "(PAGE_PRESENT OR PAGE_WRITE OR (fl AND PAGE_USER)) AND 0xFFFFF000 = 0"
  "(PAGE_PRESENT OR PAGE_WRITE) AND 0xFFFFF000 = 0"
  "(PAGE_PRESENT OR (fl AND (PAGE_WRITE OR PAGE_USER OR PAGE_PRESENT))) AND 0xFFFFF000 = 0"
  by (simp_all add: page_flags bit.conj_disj_distrib2 and.assoc)

lemma mask_mask [simp]: "(p AND 0xFFFFF000) AND 0xFFFFF000 = p AND 0xFFFFF000" for p :: u32
  by (simp add: and.assoc)

section \<open>Well-formed address spaces\<close>

definition owned :: "vm \<Rightarrow> nat \<Rightarrow> bool" where
  "owned s t \<longleftrightarrow> t < unat (total_frames (frames s)) \<and> test_bit (frames s) (w32 t)"

definition pde :: "nat \<Rightarrow> vm \<Rightarrow> nat \<Rightarrow> u32" where
  "pde d s i = entry (pmem s) (pg d) (w32 i)"

text \<open>
  The directory lies in frame \<open>d\<close>, which the allocator knows to be taken; the table of
  every present entry lies in a taken frame of its own.
\<close>

definition tables :: "nat \<Rightarrow> vm \<Rightarrow> (nat \<Rightarrow> nat) \<Rightarrow> bool" where
  "tables d s T \<longleftrightarrow>
     (\<forall>i < 1024. present (pde d s i) \<longrightarrow>
        pde d s i AND 0xFFFFF000 = pg (T i) \<and> owned s (T i) \<and> T i \<noteq> d \<and>
        (\<forall>j < 1024. present (pde d s j) \<longrightarrow> T i = T j \<longrightarrow> i = j))"

definition vm_wf :: "nat \<Rightarrow> vm \<Rightarrow> bool" where
  "vm_wf d s \<longleftrightarrow> pfa_wf (frames s) \<and> owned s d \<and> (\<exists>T. tables d s T)"

definition lookup :: "nat \<Rightarrow> vm \<Rightarrow> u32 \<Rightarrow> u32 option" where
  "lookup d s v =
     (if present (entry (pmem s) (pg d) (PDE_IDX v))
      then let e = entry (pmem s) (entry (pmem s) (pg d) (PDE_IDX v) AND 0xFFFFF000) (PTE_IDX v)
           in if present e then Some e else None
      else None)"

lemma owned_bound: "pfa_wf (frames s) \<Longrightarrow> owned s t \<Longrightarrow> t < 262144"
  by (auto simp: owned_def pfa_wf_def word_le_nat_alt pfa_consts)

lemma tablesD:
  assumes "tables d s T" and "i < 1024" and "present (pde d s i)"
  shows "pde d s i AND 0xFFFFF000 = pg (T i)" "owned s (T i)" "T i \<noteq> d"
    "\<And>j. j < 1024 \<Longrightarrow> present (pde d s j) \<Longrightarrow> T i = T j \<Longrightarrow> i = j"
  using assms by (auto simp: tables_def)

text \<open>The lookup in terms of the numbers of the directory and table entries.\<close>

lemma lookup_tables:
  assumes "tables d s T"
  defines "i \<equiv> \<lambda>v. unat v div 4194304" and "j \<equiv> \<lambda>v. unat v div 4096 mod 1024"
  shows "lookup d s v =
    (if present (pde d s (i v)) \<and> present (entry (pmem s) (pg (T (i v))) (w32 (j v)))
     then Some (entry (pmem s) (pg (T (i v))) (w32 (j v))) else None)"
  using tablesD(1) [OF assms(1), of "i v"] PDE_IDX_w32 [of v]
  by (simp add: lookup_def Let_def PTE_IDX_w32 i_def j_def pde_def)

section \<open>Writing a table entry\<close>

lemma vm_bounds:
  assumes "vm_wf d s" and "tables d s T"
  shows "d < 1048576" and "i < 1024 \<Longrightarrow> present (pde d s i) \<Longrightarrow> T i < 1048576"
  using assms owned_bound [of s] tablesD(2) [OF assms(2)] by (force simp: vm_wf_def)+

lemma write_pte:
  fixes e :: u32
  assumes wf: "vm_wf d s" and T: "tables d s T" and i: "i < 1024" "present (pde d s i)" and j: "j < 1024"
  defines "s' \<equiv> s\<lparr>pmem := set_entry (pg (T i)) (w32 j) e (pmem s)\<rparr>"
  shows "tables d s' T" and "vm_wf d s'"
    and "\<And>k. k < 1024 \<Longrightarrow> pde d s' k = pde d s k"
    and "\<And>k l. k < 1024 \<Longrightarrow> present (pde d s k) \<Longrightarrow> l < 1024 \<Longrightarrow>
      entry (pmem s') (pg (T k)) (w32 l) = (if k = i \<and> l = j then e else entry (pmem s) (pg (T k)) (w32 l))"
proof -
  note b = vm_bounds [OF wf T] and D = tablesD [OF T i]
  show pde: "pde d s' k = pde d s k" if "k < 1024" for k
    using that b i j D(3) by (simp add: pde_def s'_def entry_set_entry)
  have own: "owned s' t = owned s t" for t by (simp add: owned_def s'_def)
  show T': "tables d s' T" using T by (auto simp: tables_def pde own)
  have "frames s' = frames s" by (simp add: s'_def)
  with wf T' own show "vm_wf d s'" by (auto simp: vm_wf_def)
  show "entry (pmem s') (pg (T k)) (w32 l) = (if k = i \<and> l = j then e else entry (pmem s) (pg (T k)) (w32 l))"
    if "k < 1024" "present (pde d s k)" "l < 1024" for k l
  proof -
    have "T i = T k \<longleftrightarrow> k = i" using D(4) [OF that(1,2)] by auto
    then show ?thesis using that b(2) [OF that(1,2)] b(2) [OF i] j by (simp add: s'_def entry_set_entry)
  qed
qed

lemma lookup_write_pte:
  fixes e virt v :: u32
  assumes wf: "vm_wf d s" and T: "tables d s T" and p: "present (pde d s (unat virt div 4194304))"
  defines "s' \<equiv> s\<lparr>pmem := set_entry (pg (T (unat virt div 4194304))) (w32 (unat virt div 4096 mod 1024)) e (pmem s)\<rparr>"
  shows "lookup d s' v = (if unat v div 4096 = unat virt div 4096
    then (if present e then Some e else None) else lookup d s v)"
proof -
  let ?i = "\<lambda>v. unat v div 4194304" and ?j = "\<lambda>v. unat v div 4096 mod 1024"
  note W = write_pte [where e = e, OF wf T PDE_IDX_w32(2) p PTE_IDX_w32(2) [of virt], folded s'_def]
  have i: "?i v < 1024" "?j v < 1024" by (rule PDE_IDX_w32(2)) simp
  show ?thesis
  proof (cases "present (pde d s (?i v))")
    case True
    then show ?thesis
      unfolding lookup_tables [OF W(1)] lookup_tables [OF T] W(3) [OF i(1)] W(4) [OF i(1) True i(2)]
        same_page_iff [of "unat v" "unat virt"] by auto
  next
    case False
    then have "?i v \<noteq> ?i virt" using p by metis
    then show ?thesis
      unfolding lookup_tables [OF W(1)] lookup_tables [OF T] W(3) [OF i(1)]
        same_page_iff [of "unat v" "unat virt"] using False by simp
  qed
qed

section \<open>Adding an empty table\<close>

lemma create_table_full:
  assumes "pfa_wf (frames s)" and "\<forall>f < total_frames (frames s). test_bit (frames s) f"
  shows "create_table_in_dir dir virt flags s = (0, s)"
  using assms(1)
proof (cases rule: alloc_frame_cases)
  case (frame f)
  with assms(2) show ?thesis by blast
qed (simp add: create_table_in_dir_def)

lemma create_table_new:
  assumes wf: "vm_wf d s" and T: "tables d s T" and np: "\<not> present (pde d s (unat virt div 4194304))"
    and free: "\<not> (\<forall>f < total_frames (frames s). test_bit (frames s) f)"
  obtains t s' where "create_table_in_dir (pg d) virt flags s = (pg t, s')" and "pg t \<noteq> 0"
    and "\<not> owned s t" and "t < 1048576"
    and "tables d s' (T(unat virt div 4194304 := t))" and "vm_wf d s'"
    and "present (pde d s' (unat virt div 4194304))"
    and "\<And>v. lookup d s' v = lookup d s v"
    and "\<And>k. k < 1024 \<Longrightarrow> k \<noteq> unat virt div 4194304 \<Longrightarrow> pde d s' k = pde d s k"
    and "\<And>x. unat x div 4096 \<noteq> d \<Longrightarrow> unat x div 4096 \<noteq> t \<Longrightarrow> pmem s' x = pmem s x"
    and "kernel_page_dir s' = kernel_page_dir s"
proof -
  have pfa: "pfa_wf (frames s)" using wf by (simp add: vm_wf_def)
  from pfa free obtain f where f: "alloc_frame (frames s) = (ADDR f, pfa_set_bit f (frames s))"
      "ADDR f \<noteq> 0" "f < total_frames (frames s)" "f < MAX_FRAMES" "\<not> test_bit (frames s) f"
    by (cases rule: alloc_frame_cases) blast+
  let ?t = "unat f" and ?i = "unat virt div 4194304"
  let ?e = "pg ?t OR PAGE_PRESENT OR PAGE_WRITE OR (flags AND PAGE_USER)"
  let ?s = "s\<lparr>frames := pfa_set_bit f (frames s),
      pmem := set_entry (pg d) (w32 ?i) ?e (fill_table (pg ?t) (\<lambda>_. 0) (pmem s))\<rparr>"
  have i: "?i < 1024" by (rule PDE_IDX_w32(2))
  have t: "?t < 1048576" "\<not> owned s ?t" using f(4,5) by (simp_all add: word_less_nat_alt pfa_consts owned_def)
  note b = vm_bounds [OF wf T]
  have td: "?t \<noteq> d" using wf t(2) by (auto simp: vm_wf_def)
  have create: "create_table_in_dir (pg d) virt flags s = (pg ?t, ?s)"
    using f(1,2) by (simp add: create_table_in_dir_def PDE_IDX_w32(1) ADDR_pg)
  have pde: "pde d ?s k = (if k = ?i then ?e else pde d s k)" if "k < 1024" for k
    using that b t i td by (simp add: pde_def entry_set_entry entry_fill_table)
  have ent: "entry (pmem ?s) (pg u) (w32 j) = (if u = ?t then 0 else entry (pmem s) (pg u) (w32 j))"
    if "u < 1048576" "u \<noteq> d" "j < 1024" for u j
    using that b t i by (simp add: entry_set_entry entry_fill_table)
  have own: "owned ?s u \<longleftrightarrow> owned s u \<or> u = ?t" for u
  proof -
    have "w32 u = f \<longleftrightarrow> u = ?t" if "u < unat (total_frames (frames s))"
    proof -
      have "unat (w32 u) = u" using order_less_trans [OF that unat_lt_2p32] by simp
      then show ?thesis by (metis w32_unat)
    qed
    then show ?thesis using f(3) by (auto simp: owned_def frames.test_mark word_less_nat_alt)
  qed
  have e: "present ?e" "?e AND 0xFFFFF000 = pg ?t" using mask_or_flags [OF t(1)] by simp_all
  have T': "tables d ?s (T(?i := ?t))"
    unfolding tables_def
  proof (intro allI impI)
    fix k assume k: "k < 1024" "present (pde d ?s k)"
    have other: "T j \<noteq> ?t" if "j < 1024" "present (pde d s j)" for j
      using tablesD(2) [OF T that] t(2) by auto
    show "pde d ?s k AND 0xFFFFF000 = pg ((T(?i := ?t)) k) \<and> owned ?s ((T(?i := ?t)) k) \<and>
        (T(?i := ?t)) k \<noteq> d \<and>
        (\<forall>j < 1024. present (pde d ?s j) \<longrightarrow> (T(?i := ?t)) k = (T(?i := ?t)) j \<longrightarrow> k = j)"
    proof (cases "k = ?i")
      case True
      then show ?thesis using e td other k by (simp add: pde own) metis
    next
      case False
      then have "present (pde d s k)" using k by (simp add: pde)
      with False show ?thesis using tablesD [OF T k(1)] other k by (simp add: pde own)
    qed
  qed
  have wf': "vm_wf d ?s"
    unfolding vm_wf_def
  proof (intro conjI exI)
    show "pfa_wf (frames ?s)" using pfa by (simp add: pfa_wf_def frames.test_mark)
    show "owned ?s d" using wf by (simp add: own vm_wf_def)
  qed (rule T')
  have look: "lookup d ?s v = lookup d s v" for v
  proof -
    have k: "unat v div 4194304 < 1024" "unat v div 4096 mod 1024 < 1024" by (rule PDE_IDX_w32(2)) simp
    show ?thesis
    proof (cases "unat v div 4194304 = ?i")
      case True
      with np ent [OF t(1) td k(2)] show ?thesis
        unfolding lookup_tables [OF T'] lookup_tables [OF T] by simp
    next
      case False
      have "T (unat v div 4194304) \<noteq> ?t" if "present (pde d s (unat v div 4194304))"
        using tablesD(2) [OF T k(1) that] t(2) by auto
      with False show ?thesis
        unfolding lookup_tables [OF T'] lookup_tables [OF T]
        using k pde [OF k(1)] ent [OF b(2) [OF k(1)] tablesD(3) [OF T k(1)] k(2)] by auto
    qed
  qed
  have same: "pmem ?s x = pmem s x" if "unat x div 4096 \<noteq> d" "unat x div 4096 \<noteq> ?t" for x
  proof -
    have out: "unat x < 4096 * u \<or> 4096 * u + 4096 \<le> unat x" if "unat x div 4096 \<noteq> u" for u
      using that by (cases "unat x < 4096 * u") (auto simp: div_nat_eqI)
    have "pmem ?s x = fill_table (pg ?t) (\<lambda>_. 0) (pmem s) x"
      using same_outsideD [OF same_outside_set_entry [OF b(1) i same_outside_refl] out [OF that(1)]] by simp
    also have "\<dots> = pmem s x"
      by (rule same_outsideD [OF same_outside_fill_table [OF t(1)] out [OF that(2)]])
    finally show ?thesis .
  qed
  show thesis
    by (rule that [OF create _ t(2,1) T' wf' _ look _ same]) (use f(2) pde i e in \<open>simp_all add: ADDR_pg\<close>)
qed

section \<open>Mapping and unmapping a page\<close>

definition page_of :: "u32 \<Rightarrow> nat" where "page_of v = unat v div 4096"

definition pte_value :: "u32 \<Rightarrow> u32 \<Rightarrow> u32" where
  "pte_value phys flags = (phys AND 0xFFFFF000) OR PAGE_PRESENT OR
     (flags AND (PAGE_WRITE OR PAGE_USER OR PAGE_PRESENT))"

lemma present_pte_value [simp]: "present (pte_value phys flags)"
  by (simp add: pte_value_def)

text \<open>The frames an address space consists of: its directory and its tables.\<close>

definition table_frames :: "nat \<Rightarrow> vm \<Rightarrow> nat set" where
  "table_frames d s =
     insert d {t. t < 1048576 \<and> (\<exists>i < 1024. present (pde d s i) \<and> pde d s i AND 0xFFFFF000 = pg t)}"

lemma page_outside: "n div 4096 \<noteq> u \<Longrightarrow> n < 4096 * u \<or> 4096 * u + 4096 \<le> n" for n :: nat
  by (cases "n < 4096 * u") (auto simp: div_nat_eqI)

lemma map_present:
  assumes wf: "vm_wf d s" and T: "tables d s T" and p: "present (pde d s (unat virt div 4194304))"
  obtains s' where "map_page_to_dir (pg d) virt phys flags s = (0, s')" and "vm_wf d s'"
    and "\<And>v. lookup d s' v = (if page_of v = page_of virt then Some (pte_value phys flags) else lookup d s v)"
    and "\<And>x. page_of x \<notin> table_frames d s' \<Longrightarrow> pmem s' x = pmem s x"
    and "kernel_page_dir s' = kernel_page_dir s" and "\<And>k. k < 1024 \<Longrightarrow> pde d s' k = pde d s k"
proof -
  let ?i = "unat virt div 4194304" and ?j = "unat virt div 4096 mod 1024"
  let ?s = "s\<lparr>pmem := set_entry (pg (T ?i)) (w32 ?j) (pte_value phys flags) (pmem s)\<rparr>"
  note i = PDE_IDX_w32(2) [of virt] and j = PTE_IDX_w32(2) [of virt]
  have ent: "entry (pmem s) (pg d) (w32 ?i) AND 0xFFFFF000 = pg (T ?i)"
    "entry (pmem s) (pg d) (w32 ?i) AND PAGE_PRESENT \<noteq> 0"
    using tablesD(1) [OF T i p] p by (simp_all add: pde_def present_def)
  have m: "map_page_to_dir (pg d) virt phys flags s = (0, ?s)"
    unfolding map_page_to_dir_def Let_def PDE_IDX_w32(1) PTE_IDX_w32(1)
    using ent by (simp add: pte_value_def)
  note W = write_pte [where e = "pte_value phys flags", OF wf T i p j]
  have t: "T ?i < 1048576" by (rule vm_bounds(2) [OF wf T i p])
  have same: "pmem ?s x = pmem s x" if "page_of x \<notin> table_frames d ?s" for x
  proof -
    have "T ?i \<in> table_frames d ?s"
      using W(3) [OF i] p tablesD(1) [OF T i p] i t by (auto simp: table_frames_def)
    with that have "unat x div 4096 \<noteq> T ?i" by (auto simp: page_of_def)
    from same_outsideD [OF same_outside_set_entry [OF t j same_outside_refl] page_outside [OF this]]
    show ?thesis by simp
  qed
  show thesis
    by (rule that [OF m W(2)]) (use lookup_write_pte [OF wf T p] same W(3) in \<open>simp_all add: page_of_def\<close>)
qed

lemma map_dir_cases:
  assumes wf: "vm_wf d s"
  obtains (mapped) s' where "map_page_to_dir (pg d) virt phys flags s = (0, s')" and "vm_wf d s'"
    and "\<And>v. lookup d s' v = (if page_of v = page_of virt then Some (pte_value phys flags) else lookup d s v)"
    and "\<And>x. page_of x \<notin> table_frames d s' \<Longrightarrow> pmem s' x = pmem s x"
    and "kernel_page_dir s' = kernel_page_dir s"
  | (full) "map_page_to_dir (pg d) virt phys flags s = (-1, s)" and "lookup d s virt = None"
    and "\<forall>f < total_frames (frames s). test_bit (frames s) f"
proof -
  let ?i = "unat virt div 4194304"
  from wf obtain T where T: "tables d s T" by (auto simp: vm_wf_def)
  consider (p) "present (pde d s ?i)"
    | (f) "\<not> present (pde d s ?i)" "\<forall>f < total_frames (frames s). test_bit (frames s) f"
    | (n) "\<not> present (pde d s ?i)" "\<not> (\<forall>f < total_frames (frames s). test_bit (frames s) f)"
    by blast
  then show thesis
  proof cases
    case p
    show thesis by (rule map_present [OF wf T p], rule mapped) assumption+
  next
    case f
    have "pfa_wf (frames s)" using wf by (simp add: vm_wf_def)
    note create = create_table_full [OF this f(2)]
    have "map_page_to_dir (pg d) virt phys flags s = (-1, s)"
      using f(1) by (simp add: map_page_to_dir_def Let_def PDE_IDX_w32(1) pde_def present_def create)
    moreover have "lookup d s virt = None"
      using f(1) by (simp add: lookup_def PDE_IDX_w32(1) pde_def)
    ultimately show thesis using full f(2) by blast
  next
    case n
    obtain t s1 where
      c: "create_table_in_dir (pg d) virt flags s = (pg t, s1)" "pg t \<noteq> 0" "t < 1048576"
        "tables d s1 (T(?i := t))" "vm_wf d s1" "present (pde d s1 ?i)"
        "\<And>v. lookup d s1 v = lookup d s v" "kernel_page_dir s1 = kernel_page_dir s" and
      same: "\<And>x. unat x div 4096 \<noteq> d \<Longrightarrow> unat x div 4096 \<noteq> t \<Longrightarrow> pmem s1 x = pmem s x"
      by (rule create_table_new [OF wf T n, where flags = flags]) blast
    obtain s2 where s2: "map_page_to_dir (pg d) virt phys flags s1 = (0, s2)" "vm_wf d s2"
        "\<And>v. lookup d s2 v = (if page_of v = page_of virt then Some (pte_value phys flags) else lookup d s1 v)"
        "\<And>x. page_of x \<notin> table_frames d s2 \<Longrightarrow> pmem s2 x = pmem s1 x"
        "kernel_page_dir s2 = kernel_page_dir s1" "pde d s2 ?i = pde d s1 ?i"
      by (rule map_present [OF c(5,4,6), where phys = phys and flags = flags])
         (use PDE_IDX_w32(2) [of virt] in blast)
    have "map_page_to_dir (pg d) virt phys flags s = map_page_to_dir (pg d) virt phys flags s1"
      using n(1) c(1,2,6) by (simp add: map_page_to_dir_def Let_def PDE_IDX_w32(1) pde_def present_def)
    moreover have "pmem s2 x = pmem s x" if x: "page_of x \<notin> table_frames d s2" for x
    proof -
      have "t \<in> table_frames d s2"
        using s2(6) c(3,6) tablesD(1) [OF c(4) PDE_IDX_w32(2) c(6)] PDE_IDX_w32(2) [of virt]
        by (auto simp: table_frames_def)
      with x have "unat x div 4096 \<noteq> d" "unat x div 4096 \<noteq> t" by (auto simp: page_of_def table_frames_def)
      with same s2(4) [OF x] show ?thesis by simp
    qed
    ultimately show thesis using mapped [of s2] s2 c by simp
  qed
qed

lemma registers_irrelevant [simp]:
  "vm_wf d (s\<lparr>invlpgs := x\<rparr>) = vm_wf d s" "vm_wf d (s\<lparr>ipis := x\<rparr>) = vm_wf d s"
  "vm_wf d (s\<lparr>cr3 := c\<rparr>) = vm_wf d s" "vm_wf d (s\<lparr>cr0 := c\<rparr>) = vm_wf d s"
  "lookup d (s\<lparr>invlpgs := x\<rparr>) v = lookup d s v" "lookup d (s\<lparr>ipis := x\<rparr>) v = lookup d s v"
  "lookup d (s\<lparr>cr3 := c\<rparr>) v = lookup d s v" "lookup d (s\<lparr>cr0 := c\<rparr>) v = lookup d s v"
  by (simp_all add: vm_wf_def owned_def tables_def pde_def lookup_def)

lemma same_page_lookup: "page_of w = page_of v \<Longrightarrow> lookup d s w = lookup d s v"
proof -
  assume "page_of w = page_of v"
  then have "PDE_IDX w = PDE_IDX v" "PTE_IDX w = PTE_IDX v"
    using same_page_iff [of "unat w" "unat v"] by (simp_all add: page_of_def PDE_IDX_w32 PTE_IDX_w32)
  then show ?thesis by (simp add: lookup_def)
qed

lemma unmap_dir_None:
  "lookup d s virt = None \<Longrightarrow> unmap_page_from_dir (pg d) virt s = (-1, s)"
  by (auto simp: lookup_def unmap_page_from_dir_def Let_def present_def split: if_splits)

lemma unmap_dir_Some:
  assumes wf: "vm_wf d s" and l: "lookup d s virt \<noteq> None"
  obtains s' where "unmap_page_from_dir (pg d) virt s = (0, s')" and "vm_wf d s'"
    and "\<And>v. lookup d s' v = (if page_of v = page_of virt then None else lookup d s v)"
    and "kernel_page_dir s' = kernel_page_dir s" and "invlpgs s' = invlpgs s" and "ipis s' = ipis s"
proof -
  let ?i = "unat virt div 4194304" and ?j = "unat virt div 4096 mod 1024"
  from wf obtain T where T: "tables d s T" by (auto simp: vm_wf_def)
  from l have p: "present (pde d s ?i)" "present (entry (pmem s) (pg (T ?i)) (w32 ?j))"
    unfolding lookup_tables [OF T] by (auto split: if_splits)
  note i = PDE_IDX_w32(2) [of virt] and j = PTE_IDX_w32(2) [of virt]
  let ?s = "s\<lparr>pmem := set_entry (pg (T ?i)) (w32 ?j) 0 (pmem s)\<rparr>"
  have "unmap_page_from_dir (pg d) virt s = (0, ?s)"
    unfolding unmap_page_from_dir_def Let_def PDE_IDX_w32(1) PTE_IDX_w32(1)
    using tablesD(1) [OF T i p(1)] p by (simp add: pde_def present_def)
  then show thesis
    by (rule that) (use write_pte(2) [where e = 0, OF wf T i p(1) j]
        lookup_write_pte [where e = 0, OF wf T p(1)] in \<open>simp_all add: page_of_def\<close>)
qed

section \<open>The contract of an address space\<close>

text \<open>
  What the clients of paging rely on: a lookup sees the last mapping of its page and
  nothing else.
\<close>

locale address_space =
  fixes inv :: "'s \<Rightarrow> bool"
    and look :: "'s \<Rightarrow> u32 \<Rightarrow> u32 option"
    and map_one :: "u32 \<Rightarrow> u32 \<Rightarrow> u32 \<Rightarrow> 's \<Rightarrow> int \<times> 's"
    and unmap_one :: "u32 \<Rightarrow> 's \<Rightarrow> int \<times> 's"
  assumes map_result: "inv s \<Longrightarrow> map_one v p fl s = (r, s') \<Longrightarrow>
      inv s' \<and> (r = 0 \<and> (\<forall>w. look s' w = (if page_of w = page_of v then Some (pte_value p fl) else look s w)) \<or>
               r = -1 \<and> s' = s)"
    and unmap_result: "inv s \<Longrightarrow> unmap_one v s = (r, s') \<Longrightarrow>
      inv s' \<and> (r = 0 \<and> look s v \<noteq> None \<and>
                 (\<forall>w. look s' w = (if page_of w = page_of v then None else look s w)) \<or>
               r = -1 \<and> look s v = None \<and> s' = s)"
begin

text \<open>Mapping several pages in turn, as the program loader does.\<close>

fun map_all :: "(u32 \<times> u32 \<times> u32) list \<Rightarrow> 's \<Rightarrow> 's option" where
  "map_all [] s = Some s"
| "map_all ((v, p, fl) # ms) s =
     (let (r, s') = map_one v p fl s in if r = 0 then map_all ms s' else None)"

lemma map_all_look:
  "inv s \<Longrightarrow> map_all ms s = Some s' \<Longrightarrow>
   inv s' \<and> look s' w = fold (\<lambda>(v, p, fl) e. if page_of w = page_of v then Some (pte_value p fl) else e)
     ms (look s w)"
proof (induction ms arbitrary: s)
  case (Cons m ms)
  obtain v p fl where m: "m = (v, p, fl)" by (cases m)
  obtain r s1 where s1: "map_one v p fl s = (r, s1)" by force
  with Cons.prems m have "r = 0" "map_all ms s1 = Some s'" by (auto split: if_splits)
  moreover from map_result [OF Cons.prems(1) s1] \<open>r = 0\<close> have
    "inv s1" "look s1 w = (if page_of w = page_of v then Some (pte_value p fl) else look s w)" by auto
  ultimately show ?case
    using Cons.IH [of s1] m by simp
qed simp

lemma map_then_unmap:
  assumes "inv s" and "look s v = None" and "\<And>w. page_of w = page_of v \<Longrightarrow> look s w = look s v"
    and "map_one v p fl s = (0, s1)" and "unmap_one v s1 = (r, s2)"
  shows "r = 0 \<and> inv s2 \<and> look s2 w = look s w"
proof -
  have s1: "inv s1" "\<forall>w. look s1 w = (if page_of w = page_of v then Some (pte_value p fl) else look s w)"
    using map_result [OF assms(1,4)] by auto
  then have "look s1 v \<noteq> None" by simp
  with unmap_result [OF s1(1) assms(5)] have
    s2: "r = 0" "inv s2" "look s2 w = (if page_of w = page_of v then None else look s1 w)" by blast+
  show ?thesis
  proof (cases "page_of w = page_of v")
    case True
    with s2 assms(2) assms(3) [OF True] show ?thesis by simp
  next
    case False
    with s2 s1(2) show ?thesis by simp
  qed
qed

end

interpretation space: address_space "vm_wf d" "lookup d" "map_page_to_dir (pg d)" "unmap_page_from_dir (pg d)"
  for d :: nat
proof
  fix s s' v p fl r
  assume wf: "vm_wf d s"
  show "vm_wf d s' \<and> (r = 0 \<and> (\<forall>w. lookup d s' w =
        (if page_of w = page_of v then Some (pte_value p fl) else lookup d s w)) \<or> r = -1 \<and> s' = s)"
    if "map_page_to_dir (pg d) v p fl s = (r, s')"
    using wf by (cases rule: map_dir_cases [where virt = v and phys = p and flags = fl])
      (use that wf in auto)
  show "vm_wf d s' \<and> (r = 0 \<and> lookup d s v \<noteq> None \<and>
        (\<forall>w. lookup d s' w = (if page_of w = page_of v then None else lookup d s w)) \<or>
        r = -1 \<and> lookup d s v = None \<and> s' = s)"
    if u: "unmap_page_from_dir (pg d) v s = (r, s')"
  proof (cases "lookup d s v = None")
    case True
    with unmap_dir_None [OF True] u wf show ?thesis by simp
  next
    case False
    show ?thesis by (rule unmap_dir_Some [OF wf False]) (use u False in auto)
  qed
qed

section \<open>Building the identity mapping\<close>

lemma fill_pt:
  assumes wf: "vm_wf d s" and T: "tables d s T" and i: "i < 1024" "present (pde d s i)"
    and f: "\<And>j. j < 1024 \<Longrightarrow> present (f j)"
  defines "s' \<equiv> s\<lparr>pmem := fill_table (pg (T i)) f (pmem s)\<rparr>"
  shows "vm_wf d s'" and "\<And>k. k < 1024 \<Longrightarrow> pde d s' k = pde d s k"
    and "lookup d s' v = (if unat v div 4194304 = i then Some (f (unat v div 4096 mod 1024)) else lookup d s v)"
proof -
  note b = vm_bounds [OF wf T] and D = tablesD [OF T i]
  show pde: "pde d s' k = pde d s k" if "k < 1024" for k
    using that b i D(3) by (simp add: pde_def s'_def entry_fill_table)
  have own: "owned s' t = owned s t" for t by (simp add: owned_def s'_def)
  have T': "tables d s' T" using T by (auto simp: tables_def pde own)
  have "frames s' = frames s" by (simp add: s'_def)
  with wf T' own show "vm_wf d s'" by (auto simp: vm_wf_def)
  let ?i = "unat v div 4194304" and ?j = "unat v div 4096 mod 1024"
  have k: "?i < 1024" "?j < 1024" by (rule PDE_IDX_w32(2)) simp
  show "lookup d s' v = (if ?i = i then Some (f ?j) else lookup d s v)"
  proof (cases "present (pde d s ?i)")
    case True
    have "T i = T ?i \<longleftrightarrow> ?i = i" using D(4) [OF k(1) True] by auto
    then have "entry (pmem s') (pg (T ?i)) (w32 ?j) = (if ?i = i then f ?j else entry (pmem s) (pg (T ?i)) (w32 ?j))"
      using k b(2) [OF i] b(2) [OF k(1) True] by (simp add: s'_def entry_fill_table)
    then show ?thesis unfolding lookup_tables [OF T'] lookup_tables [OF T] pde [OF k(1)]
      using True f k by auto
  next
    case False
    then have "?i \<noteq> i" using i(2) by metis
    then show ?thesis unfolding lookup_tables [OF T'] lookup_tables [OF T] pde [OF k(1)]
      using False by simp
  qed
qed

text \<open>The identity entry of the page of \<open>v\<close>, and a directory that maps the first \<open>n\<close> times 4 MB to themselves.\<close>

definition identity_pte :: "u32 \<Rightarrow> u32" where
  "identity_pte v = (v AND 0xFFFFF000) OR PAGE_PRESENT OR PAGE_WRITE"

definition identity_upto :: "nat \<Rightarrow> nat \<Rightarrow> vm \<Rightarrow> bool" where
  "identity_upto n d s \<longleftrightarrow> vm_wf d s \<and> kernel_page_dir s = pg d \<and>
     (\<forall>v. lookup d s v = (if unat v div 4194304 < n then Some (identity_pte v) else None)) \<and>
     (\<forall>i. n \<le> i \<longrightarrow> i < 1024 \<longrightarrow> \<not> present (pde d s i))"

lemma identity_entry:
  assumes "unat v div 4194304 = n"
  shows "(w32 (4194304 * n) + w32 (unat v div 4096 mod 1024) * FRAME_SIZE) OR PAGE_PRESENT OR PAGE_WRITE
    = identity_pte v"
proof -
  have "unat v div 4096 = unat v div 4194304 * 1024 + unat v div 4096 mod 1024"
    using div_mult2_eq [of "unat v" 4096 1024] by simp
  then have "4194304 * n + unat v div 4096 mod 1024 * 4096 = unat v div 4096 * 4096"
    using assms by simp
  moreover have "w32 (4194304 * n) + w32 (unat v div 4096 mod 1024) * FRAME_SIZE
      = w32 (4194304 * n + unat v div 4096 mod 1024 * 4096)"
    by (simp add: w32_def FRAME_SIZE_def)
  moreover have "v AND 0xFFFFF000 = w32 (unat v div 4096 * 4096)"
    by (rule w32_eq_unatI) (rule unat_and_page)
  ultimately show ?thesis by (simp add: identity_pte_def)
qed

lemma identity_loop_result:
  assumes "identity_upto n d s" and "n \<le> N" and "N < 1024" and "N = max n ((unat ram + 4194303) div 4194304)"
  shows "\<exists>ok s'. identity_loop (w32 (4194304 * n)) ram s = Some (ok, s') \<and> cr0 s' = cr0 s \<and> cr3 s' = cr3 s \<and>
    kernel_page_dir s' = kernel_page_dir s \<and>
    (if ok then identity_upto N d s' else \<forall>f < total_frames (frames s'). test_bit (frames s') f)"
  using assms
proof (induction "N - n" arbitrary: n s)
  case 0
  then have "unat ram \<le> 4194304 * n" by (simp add: max_def split: if_splits)
  then have "\<not> w32 (4194304 * n) < ram" using 0 by (simp add: word_less_nat_alt)
  moreover have "N = n" using 0 by simp
  ultimately show ?case using 0 by (subst identity_loop.simps) auto
next
  case (Suc k)
  then have n: "n < N" "k = N - Suc n" "n < 1024" by simp_all
  then have "4194304 * n < unat ram" using Suc.prems(4) by (simp add: max_def split: if_splits)
  then have lt: "w32 (4194304 * n) < ram" using n by (simp add: word_less_nat_alt)
  have wf: "vm_wf d s" and dir: "kernel_page_dir s = pg d" and np: "\<not> present (pde d s n)"
    using Suc.prems(1) n by (auto simp: identity_upto_def)
  obtain T where T: "tables d s T" using wf by (auto simp: vm_wf_def)
  let ?virt = "w32 (4194304 * n)"
  have idx: "unat ?virt div 4194304 = n" using n by simp
  show ?case
  proof (cases "\<forall>f < total_frames (frames s). test_bit (frames s) f")
    case True
    have "pfa_wf (frames s)" using wf by (simp add: vm_wf_def)
    from create_table_full [OF this True] show ?thesis
      using lt True by (subst identity_loop.simps) auto
  next
    case False
    obtain t s1 where c: "create_table_in_dir (pg d) ?virt 0 s = (pg t, s1)" "pg t \<noteq> 0"
        "tables d s1 (T(n := t))" "vm_wf d s1" "present (pde d s1 n)"
        "\<And>v. lookup d s1 v = lookup d s v" "\<And>i. i < 1024 \<Longrightarrow> i \<noteq> n \<Longrightarrow> pde d s1 i = pde d s i"
        "kernel_page_dir s1 = kernel_page_dir s"
      by (rule create_table_new [OF wf T, of ?virt, unfolded idx, OF np False, where flags = 0]) blast
    have regs: "cr0 s1 = cr0 s" "cr3 s1 = cr3 s"
      using c(1) by (auto simp: create_table_in_dir_def Let_def split: prod.splits if_splits)
    let ?f = "\<lambda>i. (?virt + w32 i * FRAME_SIZE) OR PAGE_PRESENT OR PAGE_WRITE"
    let ?s2 = "s1\<lparr>pmem := fill_table (pg t) ?f (pmem s1)\<rparr>"
    have pf: "present (?f j)" for j by simp
    note F = fill_pt [where f = ?f, OF c(4,3) n(3) c(5) pf, unfolded fun_upd_same]
    have "identity_upto (Suc n) d ?s2"
      unfolding identity_upto_def
    proof (intro conjI allI impI)
      show "lookup d ?s2 v = (if unat v div 4194304 < Suc n then Some (identity_pte v) else None)" for v
        using F(3) [of v] identity_entry [of v n] c(6) [of v] Suc.prems(1)
        by (simp add: identity_upto_def less_Suc_eq)
      show "\<not> present (pde d ?s2 i)" if "Suc n \<le> i" "i < 1024" for i
        using that F(2) [of i] c(7) [of i] Suc.prems(1) by (simp add: identity_upto_def)
    qed (use F(1) c(8) dir in simp_all)
    from Suc.hyps(1) [OF n(2) this] n Suc.prems(3,4)
    obtain ok s' where "identity_loop (w32 (4194304 * Suc n)) ram ?s2 = Some (ok, s')"
        "cr0 s' = cr0 s" "cr3 s' = cr3 s" "kernel_page_dir s' = kernel_page_dir s"
        "if ok then identity_upto N d s' else \<forall>f < total_frames (frames s'). test_bit (frames s') f"
      using regs c(8) by (auto simp: max_def split: if_splits)
    moreover have "w32 (4194304 * n) + 0x400000 = w32 (4194304 * Suc n)" by (simp add: w32_def)
    ultimately show ?thesis
      using lt c(1,2) dir by (subst identity_loop.simps) (simp del: mult_Suc_right)
  qed
qed

text \<open>A directory without tables: the state before the first 4 MB are mapped.\<close>

lemma empty_dir:
  assumes "pfa_wf p" and "owned s d" and "frames s = p" and "\<And>i. i < 1024 \<Longrightarrow> pde d s i = 0"
  shows "vm_wf d s" and "tables d s T" and "lookup d s v = None"
proof -
  show T: "tables d s T" using assms(4) by (simp add: tables_def)
  show "vm_wf d s" using assms T by (auto simp: vm_wf_def)
  show "lookup d s v = None" unfolding lookup_tables [OF T] using assms(4) [OF PDE_IDX_w32(2)] by simp
qed

lemma owned_alloc:
  assumes "f < total_frames p" and "frames s = pfa_set_bit f p"
  shows "owned s (unat f)"
  using assms by (simp add: owned_def frames.test_mark word_less_nat_alt)

text \<open>
  The state when the loop starts: a directory in frame \<open>d\<close> whose only entry points to the
  table of the first 4 MB.
\<close>

lemma first_table:
  assumes "vm_wf d s" and "kernel_page_dir s = pg d" and "\<And>i. i < 1024 \<Longrightarrow> pde d s i = 0"
    and a: "alloc_frame (frames s) = (ADDR f, pfa_set_bit f (frames s))" "f < total_frames (frames s)"
      "f < MAX_FRAMES" "\<not> test_bit (frames s) f"
  defines "s' \<equiv> s\<lparr>frames := pfa_set_bit f (frames s), pmem := set_entry (pg d) 0
      (pg (unat f) OR PAGE_PRESENT OR PAGE_WRITE)
      (fill_table (pg (unat f)) (\<lambda>i. (w32 i * FRAME_SIZE) OR PAGE_PRESENT OR PAGE_WRITE) (pmem s))\<rparr>"
  shows "identity_upto 1 d s'"
proof -
  let ?t = "unat f" and ?e = "pg (unat f) OR PAGE_PRESENT OR PAGE_WRITE"
  have pfa: "pfa_wf (frames s)" and od: "owned s d" using assms(1) by (simp_all add: vm_wf_def)
  have t: "?t < 1048576" "d < 1048576" "?t \<noteq> d"
    using a(3,4) owned_bound [OF pfa od] od by (auto simp: word_less_nat_alt pfa_consts owned_def)
  have z: "(0 :: u32) = w32 0" by (simp add: w32_def)
  have pde: "pde d s' k = (if k = 0 then ?e else 0)" if "k < 1024" for k
    using that t assms(3) [OF that] unfolding s'_def pde_def z
    by (simp add: entry_set_entry entry_fill_table del: w32_0)
  have ent: "entry (pmem s') (pg ?t) (w32 j) = (w32 j * FRAME_SIZE) OR PAGE_PRESENT OR PAGE_WRITE"
    if "j < 1024" for j
    using that t unfolding s'_def z by (simp add: entry_set_entry entry_fill_table del: w32_0)
  have own: "owned s' ?t" using a(2) by (intro owned_alloc) (simp_all add: s'_def)
  have e: "present ?e" "?e AND 0xFFFFF000 = pg ?t" using mask_or_flags [OF t(1)] by simp_all
  have T: "tables d s' (\<lambda>_. ?t)" using own t(3) e by (auto simp: tables_def pde split: if_splits)
  have "owned s' d" using od by (auto simp: s'_def owned_def frames.test_mark)
  moreover have "pfa_wf (frames s')" using pfa by (simp add: s'_def pfa_wf_def frames.test_mark)
  ultimately have "vm_wf d s'" using T by (auto simp: vm_wf_def)
  moreover have "lookup d s' v = (if unat v div 4194304 < 1 then Some (identity_pte v) else None)" for v
    unfolding lookup_tables [OF T] pde [OF PDE_IDX_w32(2)] ent [OF PTE_IDX_w32(2)]
    using e(1) identity_entry [of v 0] by simp
  ultimately show ?thesis
    using pde assms(2) by (auto simp: identity_upto_def s'_def)
qed

section \<open>Copying the kernel directory\<close>

lemma copy_upto:
  assumes "t < 1048576" and "k < 1048576" and "t \<noteq> k" and "n \<le> 1024"
  defines "g \<equiv> \<lambda>m. fold (\<lambda>i m. set_entry (pg t) (w32 i) (entry m (pg k) (w32 i)) m) [0..<n] m"
  shows "u < 1048576 \<Longrightarrow> j < 1024 \<Longrightarrow>
    entry (g m) (pg u) (w32 j) = (if t = u \<and> j < n then entry m (pg k) (w32 j) else entry m (pg u) (w32 j))"
  unfolding g_def using assms(1-4) by (induction n arbitrary: u j) (auto simp: entry_set_entry less_Suc_eq)

lemma page_dir_create_new:
  assumes wf: "vm_wf k s" and kd: "kernel_page_dir s = pg k"
    and a: "alloc_frame (frames s) = (ADDR f, pfa_set_bit f (frames s))" "f < total_frames (frames s)"
      "f < MAX_FRAMES" "\<not> test_bit (frames s) f"
  defines "s' \<equiv> snd (page_dir_create s)" and "d \<equiv> unat f"
  shows "vm_wf d s'" and "vm_wf k s'" and "lookup d s' v = lookup k s v" and "lookup k s' v = lookup k s v"
    and "fst (page_dir_create s) = ADDR f \<or> ADDR f = 0"
proof -
  have pfa: "pfa_wf (frames s)" and ok: "owned s k" using wf by (simp_all add: vm_wf_def)
  obtain T where T: "tables k s T" using wf by (auto simp: vm_wf_def)
  have d: "d < 1048576" "k < 1048576" "d \<noteq> k" and nd: "\<not> owned s d"
    using a(3,4) owned_bound [OF pfa ok] ok by (auto simp: d_def word_less_nat_alt pfa_consts owned_def)
  have "f \<noteq> 0" using a(4) pfa by (auto simp: pfa_wf_def)
  then have nz: "ADDR f \<noteq> 0" using a(3) by simp
  have create: "page_dir_create s = (ADDR f, s\<lparr>frames := pfa_set_bit f (frames s),
      pmem := fold (\<lambda>i m. set_entry (pg d) (w32 i) (entry m (pg k) (w32 i)) m) [0..<1024] (pmem s)\<rparr>)"
    using a(1) nz by (simp add: page_dir_create_def kd ADDR_pg d_def)
  then show "fst (page_dir_create s) = ADDR f \<or> ADDR f = 0" by simp
  have ent: "entry (pmem s') (pg u) (w32 j) = entry (pmem s) (pg (if u = d then k else u)) (w32 j)"
    if "u < 1048576" "j < 1024" for u j
    using that copy_upto [OF d, of 1024 u j "pmem s"] by (simp add: s'_def create)
  have own: "owned s' t \<longleftrightarrow> owned s t \<or> t = d" for t
  proof -
    have "w32 t = f \<longleftrightarrow> t = d" if "t < unat (total_frames (frames s))"
      using order_less_trans [OF that unat_lt_2p32] by (metis d_def unat_w32 w32_unat)
    then show ?thesis using a(2) by (auto simp: s'_def create owned_def frames.test_mark word_less_nat_alt d_def)
  qed
  have pde: "pde d s' i = pde k s i" "pde k s' i = pde k s i" if "i < 1024" for i
    using that ent d by (simp_all add: pde_def)
  have T': "tables k s' T" using T by (auto simp: tables_def pde own)
  have Td: "tables d s' T"
    unfolding tables_def
  proof (intro allI impI)
    fix i assume i: "i < 1024" "present (pde d s' i)"
    then have p: "present (pde k s i)" by (simp add: pde)
    have "T i \<noteq> d" using tablesD(2) [OF T i(1) p] nd by auto
    then show "pde d s' i AND 0xFFFFF000 = pg (T i) \<and> owned s' (T i) \<and> T i \<noteq> d \<and>
        (\<forall>j < 1024. present (pde d s' j) \<longrightarrow> T i = T j \<longrightarrow> i = j)"
      using tablesD [OF T i(1) p] i(1) by (simp add: pde own)
  qed
  have "pfa_wf (frames s')" using pfa by (simp add: s'_def create pfa_wf_def frames.test_mark)
  with T' Td own ok show "vm_wf d s'" "vm_wf k s'" by (auto simp: vm_wf_def)
  let ?i = "unat v div 4194304" and ?j = "unat v div 4096 mod 1024"
  have i: "?i < 1024" "?j < 1024" by (rule PDE_IDX_w32(2)) simp
  have same: "entry (pmem s') (pg (T ?i)) (w32 ?j) = entry (pmem s) (pg (T ?i)) (w32 ?j)"
    if "present (pde k s ?i)"
    using ent [OF vm_bounds(2) [OF wf T i(1) that] i(2)] tablesD(2) [OF T i(1) that] nd by auto
  show "lookup d s' v = lookup k s v" "lookup k s' v = lookup k s v"
    unfolding lookup_tables [OF T] lookup_tables [OF T'] lookup_tables [OF Td] pde [OF i(1)]
    using same by auto
qed

text \<open>A machine with 16 frames, frame 0 reserved and an empty directory in frame 1.\<close>

definition sample_vm :: vm where
  "sample_vm = \<lparr>pmem = \<lambda>_. 0, frames = pfa_set_bit 1 small_pfa, kernel_page_dir = pg 1, cr3 = 0, cr0 = 0,
     invlpgs = [], apic_enabled = True, ipis = []\<rparr>"

lemma sample_vm_wf: "vm_wf 1 sample_vm" and sample_vm_empty: "lookup 1 sample_vm v = None"
proof -
  have p: "pfa_wf (pfa_set_bit 1 small_pfa)"
    using small_pfa_wf by (simp add: pfa_wf_def frames.test_mark)
  have o: "owned sample_vm 1"
    by (simp add: owned_def sample_vm_def frames.test_mark small_pfa_simps w32_def)
  have z: "pde 1 sample_vm i = 0" for i
    by (simp add: pde_def entry_def sample_vm_def rd32_def de32_def)
  have f: "frames sample_vm = pfa_set_bit 1 small_pfa" by (simp add: sample_vm_def)
  show "vm_wf 1 sample_vm" "lookup 1 sample_vm v = None"
    using empty_dir(1,3) [OF p o f z] by blast+
qed

lemma sample_vm_free: "\<not> (\<forall>f < total_frames (frames sample_vm). test_bit (frames sample_vm) f)"
  using small_pfa_simps by (auto simp: sample_vm_def frames.test_mark intro!: exI [of _ 2])

section \<open>Properties\<close>

text \<open>
  C36: mapping a page is what a lookup then sees, and nothing else changes. On a
  well-formed address space \<open>map_page_to_dir\<close> either maps the page, leaves the lookup of
  every other page as it was, keeps the address space well-formed (each table in a frame
  of its own that the allocator knows to be taken) and writes only to the directory and its
  tables; or it fails, exactly because a table is missing and no frame is free, and changes
  nothing.
\<close>

theorem map_page_effect:
  assumes "vm_wf d s"
  shows "\<exists>r s'. map_page_to_dir (pg d) virt phys flags s = (r, s') \<and>
    (r = 0 \<and> vm_wf d s' \<and>
       (\<forall>v. lookup d s' v = (if page_of v = page_of virt then Some (pte_value phys flags) else lookup d s v)) \<and>
       (\<forall>x. page_of x \<notin> table_frames d s' \<longrightarrow> pmem s' x = pmem s x) \<or>
     r = -1 \<and> s' = s \<and> lookup d s virt = None \<and> (\<forall>f < total_frames (frames s). test_bit (frames s) f))"
  using assms by (cases rule: map_dir_cases [where virt = virt and phys = phys and flags = flags]) auto

theorem map_page_effect_witness:
  "vm_wf 1 sample_vm \<and>
   (\<exists>s'. map_page_to_dir (pg 1) 0x400000 0x5000 3 sample_vm = (0, s') \<and>
      lookup 1 s' 0x400123 = Some 0x5003 \<and> lookup 1 s' 0x401000 = None)"
proof -
  have "page_of 0x400123 = page_of 0x400000" "page_of 0x401000 \<noteq> page_of 0x400000" "pte_value 0x5000 3 = 0x5003"
    by (simp_all add: page_of_def pte_value_def page_flags)
  with map_page_effect [OF sample_vm_wf, of "0x400000" "0x5000" 3] sample_vm_wf sample_vm_empty sample_vm_free
  show ?thesis by auto
qed

text \<open>
  C16: unmapping undoes mapping. If a page is not mapped, then mapping it and
  unmapping it again succeeds and every lookup is as before; and unmapping a page that is
  not mapped fails and changes nothing. \<open>unmap_page\<close> on the kernel directory invalidates the
  page on this CPU and, once the APIC is in use, sends the flush interrupt to the others.
\<close>

theorem unmap_undoes_map:
  assumes "vm_wf d s" and "lookup d s virt = None" and "kernel_page_dir s = pg d"
  shows "unmap_page virt s = (-1, s) \<and>
    (\<forall>s1. map_page virt phys flags s = (0, s1) \<longrightarrow>
      (\<exists>s2. unmap_page virt s1 = (0, s2) \<and> vm_wf d s2 \<and> (\<forall>v. lookup d s2 v = lookup d s v) \<and>
        invlpgs s2 = virt # invlpgs s1 \<and>
        (apic_enabled s2 \<longrightarrow> ipis s2 = TLB_IPI_VECTOR # ipis s1)))"
proof (intro conjI allI impI)
  show "unmap_page virt s = (-1, s)"
    using unmap_dir_None [OF assms(2)] assms(3) by (simp add: unmap_page_def)
  fix s1 assume "map_page virt phys flags s = (0, s1)"
  then obtain s0 where s0: "map_page_to_dir (pg d) virt phys flags s = (0, s0)" and
    s1: "s1 = s0\<lparr>invlpgs := virt # invlpgs s0\<rparr>"
    by (auto simp: map_page_def assms(3) split: prod.splits if_splits)
  have k: "kernel_page_dir s0 = pg d"
    using assms(1) by (cases rule: map_dir_cases [where virt = virt and phys = phys and flags = flags])
      (use s0 assms(3) in auto)
  note m = space.map_result [OF assms(1) s0]
  have s1': "vm_wf d s1" "lookup d s1 v = lookup d s0 v" "kernel_page_dir s1 = pg d" for v
    using k m by (simp_all add: s1)
  then have "lookup d s1 virt \<noteq> None" using m by auto
  then obtain s2 where s2: "unmap_page_from_dir (pg d) virt s1 = (0, s2)" "vm_wf d s2"
      "\<And>v. lookup d s2 v = (if page_of v = page_of virt then None else lookup d s1 v)"
      "invlpgs s2 = invlpgs s1" "ipis s2 = ipis s1"
    by (rule unmap_dir_Some [OF s1'(1)]) blast
  have "lookup d s2 v = lookup d s v" for v
    using s2(3) [of v] s1'(2) [of v] m same_page_lookup [of v virt d s] assms(2) by auto
  then show "\<exists>s2. unmap_page virt s1 = (0, s2) \<and> vm_wf d s2 \<and> (\<forall>v. lookup d s2 v = lookup d s v) \<and>
      invlpgs s2 = virt # invlpgs s1 \<and> (apic_enabled s2 \<longrightarrow> ipis s2 = TLB_IPI_VECTOR # ipis s1)"
    using s2 s1'(3)
    by (auto simp: unmap_page_def tlb_shootdown_def Let_def)
qed

theorem unmap_undoes_map_witness:
  "vm_wf 1 sample_vm \<and> lookup 1 sample_vm 0x400000 = None \<and> kernel_page_dir sample_vm = pg 1 \<and>
   (\<exists>s1 s2. map_page 0x400000 0x5000 3 sample_vm = (0, s1) \<and> unmap_page 0x400000 s1 = (0, s2) \<and>
      lookup 1 s2 0x400000 = None)"
proof -
  have k: "kernel_page_dir sample_vm = pg 1" by (simp add: sample_vm_def)
  obtain s1 where "map_page 0x400000 0x5000 3 sample_vm = (0, s1)"
    using sample_vm_wf
    by (cases rule: map_dir_cases [where virt = "0x400000" and phys = "0x5000" and flags = 3])
       (use sample_vm_free in \<open>auto simp: map_page_def k\<close>)
  with unmap_undoes_map [OF sample_vm_wf sample_vm_empty k, of "0x400000" "0x5000" 3]
    sample_vm_wf sample_vm_empty k show ?thesis by auto
qed

text \<open>
  C15: \<open>init_paging\<close> always returns for up to 4092 MB of memory, and unless it runs out of
  frames it turns paging on with a well-formed directory that maps the detected memory,
  rounded up to 4 MB, and at least the first 4 MB, onto itself, present and writable, and
  maps nothing else. If it runs out of frames, paging stays off.
\<close>

theorem init_paging_identity:
  assumes "pfa_wf (frames s)" and "unat ram \<le> 4290772992"
  shows "\<exists>s'. init_paging ram s = Some s' \<and>
    ((\<forall>f < total_frames (frames s'). test_bit (frames s') f) \<and> cr0 s' = cr0 s \<and> cr3 s' = cr3 s \<or>
     (\<exists>d. cr3 s' = pg d \<and> kernel_page_dir s' = pg d \<and> cr0 s' = cr0 s OR 0x80000000 \<and> vm_wf d s' \<and>
       (\<forall>v. lookup d s' v =
          (if unat v div 4194304 < max 1 ((unat ram + 4194303) div 4194304)
           then Some (identity_pte v) else None))))"
  using assms(1)
proof (cases rule: alloc_frame_cases)
  case full
  then show ?thesis by (simp add: init_paging_def)
next
  case (frame f)
  let ?d = "unat f" and ?N = "max 1 ((unat ram + 4194303) div 4194304)"
  let ?s1 = "s\<lparr>frames := pfa_set_bit f (frames s), kernel_page_dir := pg ?d,
      pmem := fill_table (pg ?d) (\<lambda>_. 0) (pmem s)\<rparr>"
  have d: "?d < 1048576" using frame(4) by (simp add: word_less_nat_alt pfa_consts)
  have pfa: "pfa_wf (frames ?s1)" using assms(1) by (simp add: pfa_wf_def frames.test_mark)
  have zero: "pde ?d ?s1 i = 0" if "i < 1024" for i using that d by (simp add: pde_def entry_fill_table)
  have own: "owned ?s1 ?d" by (rule owned_alloc [OF frame(3)]) simp
  have wf: "vm_wf ?d ?s1" by (rule empty_dir(1) [OF pfa own refl zero])
  have N: "?N < 1024" using assms(2) by (simp add: max_def div_less_iff_less_mult)
  from pfa show ?thesis
  proof (cases rule: alloc_frame_cases)
    case full
    with frame(1,2) show ?thesis by (simp add: init_paging_def ADDR_pg)
  next
    case (frame g)
    let ?s2 = "?s1\<lparr>frames := pfa_set_bit g (frames ?s1),
        pmem := set_entry (pg ?d) 0 (pg (unat g) OR PAGE_PRESENT OR PAGE_WRITE)
          (fill_table (pg (unat g)) (\<lambda>i. (w32 i * FRAME_SIZE) OR PAGE_PRESENT OR PAGE_WRITE) (pmem ?s1))\<rparr>"
    have id1: "identity_upto 1 ?d ?s2" by (rule first_table [OF wf _ zero frame(1,3,4,5)]) simp
    have "(1 :: nat) \<le> ?N" "?N = max 1 ((unat ram + 4194303) div 4194304)" by simp_all
    from identity_loop_result [OF id1 this(1) N this(2)] obtain ok s' where
      loop: "identity_loop (w32 4194304) ram ?s2 = Some (ok, s')" and
      s': "cr0 s' = cr0 s" "cr3 s' = cr3 s" "kernel_page_dir s' = pg ?d"
        "if ok then identity_upto ?N ?d s' else \<forall>f < total_frames (frames s'). test_bit (frames s') f"
      by auto
    have four: "(0x00400000 :: u32) = w32 4194304" by (simp add: w32_def)
    have "init_paging ram s = Some (if ok then s'\<lparr>cr3 := kernel_page_dir s', cr0 := cr0 s' OR 0x80000000\<rparr> else s')"
      unfolding init_paging_def four
      using \<open>alloc_frame (frames s) = _\<close> \<open>ADDR f \<noteq> 0\<close> frame(1,2) loop
      by (simp add: ADDR_pg split: bool.splits)
    with s' show ?thesis by (auto simp: identity_upto_def)
  qed
qed

theorem init_paging_identity_witness:
  "pfa_wf (frames sample_vm) \<and> unat (0x800000 :: u32) \<le> 4290772992 \<and> (\<exists>s'. init_paging 0x800000 sample_vm = Some s')"
proof -
  have p: "pfa_wf (frames sample_vm)" using sample_vm_wf by (simp add: vm_wf_def)
  have r: "unat (0x800000 :: u32) \<le> 4290772992" by simp
  from init_paging_identity [OF p r] p r show ?thesis by blast
qed

text \<open>
  C14: \<open>page_dir_create\<close> gives a new address space with the kernel's mappings: unless no
  frame is free (then it returns null and changes nothing), the new directory is
  well-formed, lies in a frame that was free, maps every address as the kernel directory
  does, and leaves the kernel's own mappings as they were.
\<close>

theorem page_dir_create_clones:
  assumes "vm_wf k s" and "kernel_page_dir s = pg k"
  shows "page_dir_create s = (0, s) \<and> (\<forall>f < total_frames (frames s). test_bit (frames s) f) \<or>
    (\<exists>d s'. page_dir_create s = (pg d, s') \<and> pg d \<noteq> 0 \<and> \<not> test_bit (frames s) (w32 d) \<and>
       vm_wf d s' \<and> vm_wf k s' \<and>
       (\<forall>v. lookup d s' v = lookup k s v \<and> lookup k s' v = lookup k s v))"
proof -
  have "pfa_wf (frames s)" using assms(1) by (simp add: vm_wf_def)
  then show ?thesis
  proof (cases rule: alloc_frame_cases)
    case full
    then show ?thesis by (simp add: page_dir_create_def)
  next
    case (frame f)
    note new = page_dir_create_new [OF assms frame(1,3,4,5)]
    have "page_dir_create s = (pg (unat f), snd (page_dir_create s))"
      using new(5) frame(2) by (simp add: ADDR_pg prod_eq_iff)
    moreover have "\<not> test_bit (frames s) (w32 (unat f))" using frame(5) by simp
    ultimately show ?thesis using new(1-4) frame(2) unfolding ADDR_pg by blast
  qed
qed

theorem page_dir_create_clones_witness:
  "vm_wf 1 sample_vm \<and> kernel_page_dir sample_vm = pg 1 \<and>
   (\<exists>d s'. page_dir_create sample_vm = (pg d, s') \<and> vm_wf d s' \<and> lookup d s' 0x400000 = None)"
proof -
  have k: "kernel_page_dir sample_vm = pg 1" by (simp add: sample_vm_def)
  from page_dir_create_clones [OF sample_vm_wf k] k sample_vm_wf sample_vm_free sample_vm_empty
  show ?thesis by auto
qed

end
