(* ===== verification/Task.thy ===== *)
theory Task
  imports Paging
begin

text \<open>
  Tasks and context switches, \<^verbatim>\<open>kernel/task.c\<close>, with the timer interrupt of
  \<^verbatim>\<open>kernel/cpu/timer.c\<close> that wakes sleeping tasks. A task structure occupies a page frame of
  its own, so the structures are a store indexed by address, apart from the byte memory
  that holds the stacks. The ready tasks form a circular list through the field \<open>next\<close>, here \<open>link\<close>; the loops
  that follow it are partial functions, and that they end is part of what is shown.
  Each section under \<open>sched_lock\<close> is one step.
\<close>

section \<open>The operations\<close>

definition TASK_FREE :: int where "TASK_FREE = 0"
definition TASK_READY :: int where "TASK_READY = 1"
definition TASK_RUNNING :: int where "TASK_RUNNING = 2"
definition TASK_BLOCKED :: int where "TASK_BLOCKED = 3"
definition TASK_STACK_SIZE :: u32 where "TASK_STACK_SIZE = 0x4000"

lemmas task_states = TASK_FREE_def TASK_READY_def TASK_RUNNING_def TASK_BLOCKED_def

record task =
  pid :: u32
  tstate :: int
  cpu_assigned :: int
  page_dir :: u32
  kernel_esp :: u32
  kernel_stack_base :: u32
  wakeup_tick :: u32
  link :: u32

definition zero_task :: task where
  "zero_task = \<lparr>pid = 0, tstate = 0, cpu_assigned = 0, page_dir = 0, kernel_esp = 0,
     kernel_stack_base = 0, wakeup_tick = 0, link = 0\<rparr>"

record tsys =
  store :: "u32 \<Rightarrow> task"
  ready_head :: u32
  next_pid :: u32
  current_task :: "nat \<Rightarrow> u32"
  resched_pending :: "nat \<Rightarrow> bool"
  tss_esp0 :: "nat \<Rightarrow> u32"
  cpu_cr3 :: "nat \<Rightarrow> u32"
  tick_count :: u32
  cpu_count :: nat
  vm :: vm

text \<open>Changing fields of the structure at address \<open>t\<close>.\<close>

definition upd :: "u32 \<Rightarrow> (task \<Rightarrow> task) \<Rightarrow> tsys \<Rightarrow> tsys" where
  "upd t f s = s\<lparr>store := (store s)(t := f (store s t))\<rparr>"

definition alloc_task :: "tsys \<Rightarrow> u32 \<times> tsys" where
  "alloc_task s =
     (let (t, fr) = alloc_frame (frames (vm s)); s = s\<lparr>vm := (vm s)\<lparr>frames := fr\<rparr>\<rparr>
      in if t = 0 then (0, s)
         else (t, upd t (\<lambda>_. zero_task\<lparr>pid := next_pid s, cpu_assigned := -1\<rparr>)
                      (s\<lparr>next_pid := next_pid s + 1\<rparr>)))"

text \<open>\<open>*--sp = v\<close>\<close>

definition push :: "u32 \<Rightarrow> u32 \<times> mem \<Rightarrow> u32 \<times> mem" where
  "push v = (\<lambda>(sp, m). (sp - 4, wr32 m (sp - 4) v))"

text \<open>EFLAGS, CS, EIP; error code and interrupt number; eight registers; DS, ES, FS, GS.\<close>

definition initial_frame :: "u32 \<Rightarrow> u32 list" where
  "initial_frame eip = [0x202, 0x08, eip] @ [0, 0] @ replicate 8 0 @ [0x10, 0x10, 0x10, 0x30]"

definition insert_ready :: "u32 \<Rightarrow> tsys \<Rightarrow> tsys" where
  "insert_ready t s =
     (if ready_head s = 0 then upd t (\<lambda>x. x\<lparr>link := t\<rparr>) (s\<lparr>ready_head := t\<rparr>)
      else let s = upd t (\<lambda>x. x\<lparr>link := link (store s (ready_head s))\<rparr>) s
           in upd (ready_head s) (\<lambda>x. x\<lparr>link := t\<rparr>) s)"

definition task_create :: "u32 \<Rightarrow> tsys \<Rightarrow> u32 \<times> tsys" where
  "task_create eip s =
     (let (t, s) = alloc_task s
      in if t = 0 then (0, s)
         else let (stack, fr) = alloc_frames (drop_bit 12 TASK_STACK_SIZE) (frames (vm s));
                  s = s\<lparr>vm := (vm s)\<lparr>frames := fr\<rparr>\<rparr>
              in if stack = 0
                 then (0, s\<lparr>vm := (vm s)\<lparr>frames := free_frame t (frames (vm s))\<rparr>\<rparr>)
                 else let (sp, m) = fold push (initial_frame eip) (stack + TASK_STACK_SIZE, pmem (vm s));
                          s = s\<lparr>vm := (vm s)\<lparr>pmem := m\<rparr>\<rparr>;
                          s = upd t (\<lambda>x. x\<lparr>kernel_stack_base := stack, kernel_esp := sp,
                                page_dir := kernel_page_dir (vm s), tstate := TASK_READY\<rparr>) s
                      in (t, insert_ready t s))"

text \<open>The test both halves of \<open>pick_next_locked\<close> make.\<close>

definition runnable :: "nat \<Rightarrow> (u32 \<Rightarrow> task) \<Rightarrow> u32 \<Rightarrow> bool" where
  "runnable cpu st t \<longleftrightarrow> tstate (st t) = TASK_READY \<and>
     (cpu_assigned (st t) < 0 \<or> cpu_assigned (st t) = int cpu) \<and> kernel_esp (st t) \<noteq> 0"

partial_function (option) pick_loop :: "nat \<Rightarrow> (u32 \<Rightarrow> task) \<Rightarrow> u32 \<Rightarrow> u32 \<Rightarrow> u32 option" where
  "pick_loop cpu st start t =
     (if t \<noteq> start then (if runnable cpu st t then Some t else pick_loop cpu st start (link (st t)))
      else Some (if runnable cpu st start then start else 0))"

definition pick_next_locked :: "nat \<Rightarrow> tsys \<Rightarrow> u32 option" where
  "pick_next_locked cpu s =
     (let curr = current_task s cpu
      in if curr = 0 \<or> ready_head s = 0 then Some 0
         else pick_loop cpu (store s) curr (link (store s curr)))"

definition MAX_CPU :: nat where "MAX_CPU = 8"

definition gdt_set_kernel_stack :: "nat \<Rightarrow> u32 \<Rightarrow> tsys \<Rightarrow> tsys" where
  "gdt_set_kernel_stack cpu esp0 s =
     (if cpu < MAX_CPU then s\<lparr>tss_esp0 := (tss_esp0 s)(cpu := esp0)\<rparr> else s)"

definition task_switch_from :: "nat \<Rightarrow> u32 \<Rightarrow> int \<Rightarrow> u32 \<Rightarrow> tsys \<Rightarrow> (u32 \<times> tsys) option" where
  "task_switch_from cpu current_esp new_state wakeup s =
     (let curr = current_task s cpu
      in if curr = 0 then Some (0, s)
         else let s = upd curr (\<lambda>x. x\<lparr>kernel_esp := current_esp, wakeup_tick := wakeup\<rparr>) s;
                  s = upd curr (\<lambda>x. x\<lparr>tstate := new_state, cpu_assigned := int cpu\<rparr>) s
              in case pick_next_locked cpu s of
                   None \<Rightarrow> None
                 | Some nxt \<Rightarrow>
                     if nxt = 0 \<or> nxt = curr
                     then Some (0, upd curr (\<lambda>x. x\<lparr>tstate := TASK_RUNNING, cpu_assigned := int cpu\<rparr>) s)
                     else let s = upd nxt (\<lambda>x. x\<lparr>tstate := TASK_RUNNING, cpu_assigned := int cpu\<rparr>) s;
                              s = s\<lparr>current_task := (current_task s)(cpu := nxt)\<rparr>;
                              s = gdt_set_kernel_stack cpu (kernel_stack_base (store s nxt) + TASK_STACK_SIZE) s;
                              s = s\<lparr>cpu_cr3 := (cpu_cr3 s)(cpu := page_dir (store s nxt))\<rparr>
                          in Some (kernel_esp (store s nxt), s))"

definition task_block_and_switch :: "nat \<Rightarrow> u32 \<Rightarrow> u32 \<Rightarrow> tsys \<Rightarrow> (u32 \<times> tsys) option" where
  "task_block_and_switch cpu current_esp wakeup s = task_switch_from cpu current_esp TASK_BLOCKED wakeup s"

definition task_yield :: "nat \<Rightarrow> u32 \<Rightarrow> tsys \<Rightarrow> (u32 \<times> tsys) option" where
  "task_yield cpu current_esp s = task_switch_from cpu current_esp TASK_READY 0 s"

definition task_switch_tick :: "nat \<Rightarrow> u32 \<Rightarrow> tsys \<Rightarrow> (u32 \<times> tsys) option" where
  "task_switch_tick cpu current_esp s =
     (if current_task s cpu = 0 then Some (0, s)
      else if \<not> resched_pending s cpu then Some (0, s)
      else task_switch_from cpu current_esp TASK_READY 0
             (s\<lparr>resched_pending := (resched_pending s)(cpu := False)\<rparr>))"

text \<open>
  The \<open>do ... while (t != start)\<close> walk of \<open>task_foreach\<close>, which reads the link before it calls
  the callback; the timer interrupt walks the list in the same way.
\<close>

partial_function (option) foreach_loop ::
    "(u32 \<Rightarrow> tsys \<Rightarrow> tsys) \<Rightarrow> u32 \<Rightarrow> u32 \<Rightarrow> tsys \<Rightarrow> tsys option" where
  "foreach_loop cb start t s =
     (let nxt = link (store s t); s = cb t s
      in if nxt \<noteq> start then foreach_loop cb start nxt s else Some s)"

definition task_foreach :: "(u32 \<Rightarrow> tsys \<Rightarrow> tsys) \<Rightarrow> tsys \<Rightarrow> tsys option" where
  "task_foreach cb s = (if ready_head s = 0 then Some s else foreach_loop cb (ready_head s) (ready_head s) s)"

definition wake :: "u32 \<Rightarrow> tsys \<Rightarrow> tsys" where
  "wake t s =
     (if tstate (store s t) = TASK_BLOCKED \<and> wakeup_tick (store s t) \<noteq> 0 \<and>
         tick_count s \<ge> wakeup_tick (store s t)
      then upd t (\<lambda>x. x\<lparr>tstate := TASK_READY, wakeup_tick := 0\<rparr>) s else s)"

text \<open>
  The timer interrupt on \<open>cpu\<close>; \<open>lock_free\<close> is the outcome of \<open>spinlock_try_lock\<close>. The
  boot processor sends the reschedule interrupt 0x51 to the others.
\<close>

definition timer_handler :: "nat \<Rightarrow> bool \<Rightarrow> tsys \<Rightarrow> tsys option" where
  "timer_handler cpu lock_free s =
     (let s = (if cpu = 0 then s\<lparr>tick_count := tick_count s + 1\<rparr> else s)
      in case (if cpu = 0 \<and> lock_free then task_foreach wake s else Some s) of
           None \<Rightarrow> None
         | Some s \<Rightarrow>
             let s = s\<lparr>resched_pending := (resched_pending s)(cpu := True)\<rparr>
             in Some (if cpu = 0 \<and> cpu_count s > 1 then s\<lparr>vm := (vm s)\<lparr>ipis := 0x51 # ipis (vm s)\<rparr>\<rparr> else s))"

definition resched_ipi_handler :: "nat \<Rightarrow> tsys \<Rightarrow> tsys" where
  "resched_ipi_handler cpu s = s\<lparr>resched_pending := (resched_pending s)(cpu := True)\<rparr>"

text \<open>The loops of \<open>task_kill\<close>: the task with the given pid, and the predecessor of a task.\<close>

partial_function (option) kill_find :: "(u32 \<Rightarrow> task) \<Rightarrow> u32 \<Rightarrow> u32 \<Rightarrow> u32 \<Rightarrow> u32 option option" where
  "kill_find st head p t =
     (if pid (st t) = p then Some (Some t)
      else if link (st t) \<noteq> head then kill_find st head p (link (st t)) else Some None)"

partial_function (option) find_prev :: "(u32 \<Rightarrow> task) \<Rightarrow> u32 \<Rightarrow> u32 \<Rightarrow> u32 option" where
  "find_prev st t p = (if link (st p) \<noteq> t then find_prev st t (link (st p)) else Some p)"

text \<open>Removing a task from the ring; \<open>ready_head\<close> moves on when it was the head.\<close>

definition unlink :: "u32 \<Rightarrow> tsys \<Rightarrow> tsys option" where
  "unlink t s =
     (if link (store s t) = t then Some (s\<lparr>ready_head := 0\<rparr>)
      else case find_prev (store s) t t of
             None \<Rightarrow> None
           | Some q \<Rightarrow>
               let s = upd q (\<lambda>x. x\<lparr>link := link (store s t)\<rparr>) s
               in Some (if ready_head s = t then s\<lparr>ready_head := link (store s t)\<rparr> else s))"

definition free_page :: "u32 \<Rightarrow> vm \<Rightarrow> vm" where
  "free_page a v = v\<lparr>frames := free_frame a (frames v)\<rparr>"

definition free_table :: "u32 \<Rightarrow> vm \<Rightarrow> vm" where
  "free_table pt v =
     free_page pt (fold (\<lambda>j v. if entry (pmem v) pt (w32 j) AND PAGE_PRESENT \<noteq> 0
                                then free_page (entry (pmem v) pt (w32 j) AND 0xFFFFF000) v else v)
                        [0..<1024] v)"

definition free_user_dir :: "u32 \<Rightarrow> vm \<Rightarrow> vm" where
  "free_user_dir dir v =
     free_page dir (fold (\<lambda>i v. if entry (pmem v) dir (w32 i) = entry (pmem v) (kernel_page_dir v) (w32 i) then v
                                 else if entry (pmem v) dir (w32 i) AND PAGE_PRESENT \<noteq> 0
                                      then free_table (entry (pmem v) dir (w32 i) AND 0xFFFFF000) v else v)
                         [0..<1024] v)"

definition release_task :: "u32 \<Rightarrow> tsys \<Rightarrow> tsys" where
  "release_task t s =
     (let s = upd t (\<lambda>x. x\<lparr>tstate := TASK_FREE, cpu_assigned := -1\<rparr>) s;
          dir = page_dir (store s t);
          s = (if dir \<noteq> 0 \<and> dir \<noteq> kernel_page_dir (vm s)
               then upd t (\<lambda>x. x\<lparr>page_dir := 0\<rparr>) (s\<lparr>vm := free_user_dir dir (vm s)\<rparr>) else s);
          stack = kernel_stack_base (store s t)
      in if stack \<noteq> 0
         then upd t (\<lambda>x. x\<lparr>kernel_stack_base := 0\<rparr>)
                (s\<lparr>vm := (vm s)\<lparr>frames := free_frames stack (drop_bit 12 TASK_STACK_SIZE) (frames (vm s))\<rparr>\<rparr>)
         else s)"

definition task_kill :: "u32 \<Rightarrow> tsys \<Rightarrow> (int \<times> tsys) option" where
  "task_kill p s =
     (if ready_head s = 0 then Some (-1, s)
      else case kill_find (store s) (ready_head s) p (ready_head s) of
             None \<Rightarrow> None
           | Some None \<Rightarrow> Some (-1, s)
           | Some (Some t) \<Rightarrow>
               if tstate (store s t) = TASK_RUNNING then Some (-2, s)
               else case unlink t s of None \<Rightarrow> None | Some s \<Rightarrow> Some (0, release_task t s))"

definition task_init :: "nat \<Rightarrow> tsys \<Rightarrow> tsys" where
  "task_init cpu s = s\<lparr>next_pid := 1, current_task := (current_task s)(cpu := 0),
     resched_pending := (resched_pending s)(cpu := False)\<rparr>"

text \<open>
  The start of the idle task of a CPU, the same lines in \<open>kernel_main\<close> for the boot
  processor and in \<open>ap_main\<close> for the others, taken as one step although the code holds no
  lock between creating the task and marking it running. The code does not test the result
  of \<open>task_create\<close>; \<open>None\<close> stands for the write through a null pointer.
\<close>

definition start_idle :: "nat \<Rightarrow> u32 \<Rightarrow> tsys \<Rightarrow> tsys option" where
  "start_idle cpu task_idle_loop s =
     (let (idle, s) = task_create task_idle_loop s
      in if idle = 0 then None
         else let s = upd idle (\<lambda>x. x\<lparr>tstate := TASK_RUNNING, cpu_assigned := int cpu\<rparr>) s
              in Some (s\<lparr>current_task := (current_task s)(cpu := idle)\<rparr>))"

declare pick_loop.simps [code] foreach_loop.simps [code] kill_find.simps [code] find_prev.simps [code]

section \<open>The ready list as a ring\<close>

lemma store_upd [simp]: "store (upd t f s) = (store s)(t := f (store s t))"
  and upd_other [simp]: "ready_head (upd t f s) = ready_head s" "next_pid (upd t f s) = next_pid s"
    "current_task (upd t f s) = current_task s" "resched_pending (upd t f s) = resched_pending s"
    "tss_esp0 (upd t f s) = tss_esp0 s" "cpu_cr3 (upd t f s) = cpu_cr3 s"
    "tick_count (upd t f s) = tick_count s" "cpu_count (upd t f s) = cpu_count s" "vm (upd t f s) = vm s"
  by (simp_all add: upd_def)

lemma gdt_set_kernel_stack_other [simp]:
  "store (gdt_set_kernel_stack c e s) = store s" "ready_head (gdt_set_kernel_stack c e s) = ready_head s"
  "current_task (gdt_set_kernel_stack c e s) = current_task s" "vm (gdt_set_kernel_stack c e s) = vm s"
  "resched_pending (gdt_set_kernel_stack c e s) = resched_pending s"
  by (simp_all add: gdt_set_kernel_stack_def)

text \<open>\<open>path st x ts y\<close>: following the links from \<open>x\<close> visits \<open>ts\<close> and then arrives at \<open>y\<close>.\<close>

primrec path :: "(u32 \<Rightarrow> task) \<Rightarrow> u32 \<Rightarrow> u32 list \<Rightarrow> u32 \<Rightarrow> bool" where
  "path st x [] y \<longleftrightarrow> x = y"
| "path st x (t # ts) y \<longleftrightarrow> x = t \<and> path st (link (st t)) ts y"

definition ring :: "(u32 \<Rightarrow> task) \<Rightarrow> u32 \<Rightarrow> u32 list \<Rightarrow> bool" where
  "ring st h ts \<longleftrightarrow> path st h ts h \<and> distinct ts \<and> 0 \<notin> set ts \<and> (ts = [] \<longrightarrow> h = 0)"

lemma path_append: "path st x (ts @ us) y \<longleftrightarrow> (\<exists>z. path st x ts z \<and> path st z us y)"
  by (induction ts arbitrary: x) auto

lemma path_cong: "\<forall>t \<in> set ts. link (st' t) = link (st t) \<Longrightarrow> path st' x ts y = path st x ts y"
  by (induction ts arbitrary: x) auto

lemma ring_cong: "\<forall>t \<in> set ts. link (st' t) = link (st t) \<Longrightarrow> ring st' h ts = ring st h ts"
  by (auto simp: ring_def path_cong [of ts st' st])

lemma path_redirect:
  "path st x ts y \<Longrightarrow> ts \<noteq> [] \<Longrightarrow> distinct ts \<Longrightarrow>
   path (st(last ts := (st (last ts))\<lparr>link := z\<rparr>)) x ts z"
proof (induction ts arbitrary: x)
  case (Cons t ts)
  show ?case
  proof (cases "ts = []")
    case False
    with Cons.prems have "t \<noteq> last ts" by auto
    with False Cons show ?thesis by simp
  qed (use Cons.prems in simp)
qed simp

lemma ring_head: "ring st h ts \<Longrightarrow> ts \<noteq> [] \<Longrightarrow> hd ts = h"
  by (cases ts) (auto simp: ring_def)

lemma ring_empty_iff: "ring st h ts \<Longrightarrow> h = 0 \<longleftrightarrow> ts = []"
  by (cases ts) (auto simp: ring_def)

text \<open>The other tasks of the ring, in the order in which the links reach them from \<open>t\<close>.\<close>

definition others :: "u32 \<Rightarrow> u32 list \<Rightarrow> u32 list" where
  "others t ts = tl (dropWhile (\<lambda>u. u \<noteq> t) ts) @ takeWhile (\<lambda>u. u \<noteq> t) ts"

lemma others_split: "t \<notin> set us \<Longrightarrow> others t (us @ t # vs) = vs @ us"
proof -
  assume "t \<notin> set us"
  then have "dropWhile (\<lambda>u. u \<noteq> t) (us @ t # vs) = t # vs" "takeWhile (\<lambda>u. u \<noteq> t) (us @ t # vs) = us"
    by (induction us) auto
  then show ?thesis by (simp add: others_def)
qed

lemma ring_split:
  assumes "ring st h ts" and "t \<in> set ts"
  obtains us vs where "ts = us @ t # vs" and "t \<notin> set us" and "t \<notin> set vs" and "others t ts = vs @ us"
    and "path st h us t" and "path st (link (st t)) vs h" and "distinct (us @ vs)"
proof -
  from assms(2) obtain us vs where ts: "ts = us @ t # vs" and us: "t \<notin> set us"
    by (metis split_list_first)
  with assms(1) have "t \<notin> set vs" "path st h us t" "path st (link (st t)) vs h" "distinct (us @ vs)"
    by (auto simp: ring_def path_append)
  with ts us that show thesis by (metis others_split)
qed

lemma path_others:
  assumes "ring st h ts" and "t \<in> set ts"
  shows "path st (link (st t)) (others t ts) t" and "set (others t ts) = set ts - {t}"
    and "distinct (others t ts)"
proof -
  from ring_split [OF assms] obtain us vs where "ts = us @ t # vs" "t \<notin> set us" "t \<notin> set vs"
    "others t ts = vs @ us" "path st h us t" "path st (link (st t)) vs h" "distinct (us @ vs)" by metis
  then show "path st (link (st t)) (others t ts) t" "set (others t ts) = set ts - {t}" "distinct (others t ts)"
    by (auto simp: path_append)
qed

section \<open>The loops\<close>

lemma pick_loop_find:
  "path st t ts st0 \<Longrightarrow> st0 \<notin> set ts \<Longrightarrow>
   pick_loop cpu st st0 t =
     Some (case find (runnable cpu st) ts of Some u \<Rightarrow> u | None \<Rightarrow> if runnable cpu st st0 then st0 else 0)"
  by (induction ts arbitrary: t) (subst pick_loop.simps, auto)+

lemma kill_find_find:
  "path st t (t # ts) h \<Longrightarrow> h \<notin> set ts \<Longrightarrow> kill_find st h p t = Some (find (\<lambda>t. pid (st t) = p) (t # ts))"
proof (induction ts arbitrary: t)
  case Nil
  then show ?case by (subst kill_find.simps) simp
next
  case (Cons u ts)
  then have "kill_find st h p u = Some (find (\<lambda>t. pid (st t) = p) (u # ts))" by simp
  with Cons.prems show ?case by (subst kill_find.simps) auto
qed

lemma find_prev_last:
  "path st q (q # qs) t \<Longrightarrow> t \<notin> set qs \<Longrightarrow> find_prev st t q = Some (last (q # qs))"
proof (induction qs arbitrary: q)
  case Nil
  then show ?case by (subst find_prev.simps) simp
next
  case (Cons u us)
  then have "find_prev st t u = Some (last (u # us))" by simp
  with Cons.prems show ?case by (subst find_prev.simps) auto
qed

lemma foreach_loop_fold:
  assumes keeps: "\<And>t s u. link (store (cb t s) u) = link (store s u)"
  shows "path (store s) t (t # ts) h \<Longrightarrow> h \<notin> set ts \<Longrightarrow> foreach_loop cb h t s = Some (fold cb (t # ts) s)"
proof (induction ts arbitrary: t s)
  case Nil
  then show ?case by (subst foreach_loop.simps) simp
next
  case (Cons u ts)
  have "path (store (cb t s)) x xs y = path (store s) x xs y" for x xs y
    by (rule path_cong) (simp add: keeps)
  with Cons.prems have "path (store (cb t s)) u (u # ts) h" by (simp add: keeps)
  with Cons have "foreach_loop cb h u (cb t s) = Some (fold cb (u # ts) (cb t s))" by simp
  with Cons.prems show ?case by (subst foreach_loop.simps) (auto simp: Let_def)
qed

lemma task_foreach_fold:
  assumes "\<And>t s u. link (store (cb t s) u) = link (store s u)" and r: "ring (store s) (ready_head s) ts"
  shows "task_foreach cb s = Some (fold cb ts s)"
proof (cases ts)
  case Nil
  with r show ?thesis by (simp add: task_foreach_def ring_def)
next
  case (Cons t us)
  with r have "ready_head s = t" "t \<noteq> 0" "path (store s) t (t # us) t" "t \<notin> set us"
    by (auto simp: ring_def)
  with foreach_loop_fold [OF assms(1)] Cons show ?thesis by (simp add: task_foreach_def)
qed

section \<open>Context switches\<close>

text \<open>What a switch stores in the task it leaves, and how it enters the task it picked.\<close>

definition park :: "nat \<Rightarrow> u32 \<Rightarrow> int \<Rightarrow> u32 \<Rightarrow> task \<Rightarrow> task" where
  "park cpu esp new_state wakeup x =
     x\<lparr>kernel_esp := esp, wakeup_tick := wakeup, tstate := new_state, cpu_assigned := int cpu\<rparr>"

definition dispatch :: "nat \<Rightarrow> u32 \<Rightarrow> tsys \<Rightarrow> tsys" where
  "dispatch cpu n s =
     (let s = upd n (\<lambda>x. x\<lparr>tstate := TASK_RUNNING, cpu_assigned := int cpu\<rparr>) s;
          s = s\<lparr>current_task := (current_task s)(cpu := n)\<rparr>;
          s = gdt_set_kernel_stack cpu (kernel_stack_base (store s n) + TASK_STACK_SIZE) s
      in s\<lparr>cpu_cr3 := (cpu_cr3 s)(cpu := page_dir (store s n))\<rparr>)"

lemma dispatch_simps [simp]:
  "store (dispatch cpu n s) = (store s)(n := (store s n)\<lparr>tstate := TASK_RUNNING, cpu_assigned := int cpu\<rparr>)"
  "current_task (dispatch cpu n s) = (current_task s)(cpu := n)"
  "ready_head (dispatch cpu n s) = ready_head s" "vm (dispatch cpu n s) = vm s"
  "cpu_cr3 (dispatch cpu n s) cpu = page_dir (store s n)"
  by (simp_all add: dispatch_def Let_def)

lemma park_simps [simp]:
  "tstate (park cpu esp ns w x) = ns" "cpu_assigned (park cpu esp ns w x) = int cpu"
  "kernel_esp (park cpu esp ns w x) = esp" "link (park cpu esp ns w x) = link x"
  "wakeup_tick (park cpu esp ns w x) = w" "pid (park cpu esp ns w x) = pid x"
  "page_dir (park cpu esp ns w x) = page_dir x" "kernel_stack_base (park cpu esp ns w x) = kernel_stack_base x"
  by (simp_all add: park_def)

lemma upd_upd: "upd t f (upd t g s) = upd t (\<lambda>x. f (g x)) s"
  by (simp add: upd_def)

lemma upd_store: "(upd t f s)\<lparr>store := x\<rparr> = s\<lparr>store := x\<rparr>"
  by (simp add: upd_def)

lemma find_cong: "\<forall>x \<in> set xs. P x = Q x \<Longrightarrow> find P xs = find Q xs"
  by (induction xs) auto

lemma find_Some_mem: "find P xs = Some x \<Longrightarrow> x \<in> set xs \<and> P x"
  by (auto simp: find_Some_iff)

lemma task_switch_from_ring:
  assumes r: "ring (store s) (ready_head s) ts" and c: "current_task s cpu = c" "c \<in> set ts"
  shows "task_switch_from cpu esp ns w s =
    Some (case find (runnable cpu (store s)) (others c ts) of
            None \<Rightarrow> (0, upd c (park cpu esp TASK_RUNNING w) s)
          | Some n \<Rightarrow> (kernel_esp (store s n), dispatch cpu n (upd c (park cpu esp ns w) s)))"
proof -
  let ?s = "upd c (park cpu esp ns w) s"
  note o = path_others [OF r c(2)]
  from r c have c0: "c \<noteq> 0" "ready_head s \<noteq> 0" using ring_empty_iff [OF r] by (auto simp: ring_def)
  have eq: "upd c (\<lambda>x. x\<lparr>tstate := ns, cpu_assigned := int cpu\<rparr>)
      (upd c (\<lambda>x. x\<lparr>kernel_esp := esp, wakeup_tick := w\<rparr>) s) = ?s"
    by (simp add: upd_upd park_def [abs_def])
  have eq': "upd c (\<lambda>x. x\<lparr>tstate := TASK_RUNNING, cpu_assigned := int cpu\<rparr>) ?s =
      upd c (park cpu esp TASK_RUNNING w) s"
    by (simp add: upd_upd park_def [abs_def])
  have "path (store ?s) x xs y = path (store s) x xs y" for x xs y
    by (rule path_cong) simp
  then have "pick_loop cpu (store ?s) c (link (store ?s c)) =
      Some (case find (runnable cpu (store ?s)) (others c ts) of Some u \<Rightarrow> u
            | None \<Rightarrow> if runnable cpu (store ?s) c then c else 0)"
    using o by (intro pick_loop_find) auto
  moreover have "find (runnable cpu (store ?s)) (others c ts) = find (runnable cpu (store s)) (others c ts)"
    using o(2) by (intro find_cong) (auto simp: runnable_def)
  ultimately have "pick_next_locked cpu ?s =
      Some (case find (runnable cpu (store s)) (others c ts) of Some u \<Rightarrow> u
            | None \<Rightarrow> if runnable cpu (store ?s) c then c else 0)"
    using c c0 by (simp add: pick_next_locked_def Let_def)
  moreover have "n \<noteq> 0 \<and> n \<noteq> c" if "find (runnable cpu (store s)) (others c ts) = Some n" for n
    using find_Some_mem [OF that] o(2) r by (auto simp: ring_def)
  ultimately show ?thesis
    using c c0(1) eq eq' by (auto simp: task_switch_from_def Let_def dispatch_def split: option.split)
qed

section \<open>The timer\<close>

definition woken :: "u32 \<Rightarrow> task \<Rightarrow> task" where
  "woken now x = (if tstate x = TASK_BLOCKED \<and> wakeup_tick x \<noteq> 0 \<and> now \<ge> wakeup_tick x
                  then x\<lparr>tstate := TASK_READY, wakeup_tick := 0\<rparr> else x)"

lemma wake_woken: "wake t s = upd t (woken (tick_count s)) s"
  by (simp add: wake_def woken_def upd_def)

lemma woken_simps [simp]:
  "link (woken n x) = link x" "woken n (woken n x) = woken n x" "kernel_stack_base (woken n x) = kernel_stack_base x"
  "page_dir (woken n x) = page_dir x" "cpu_assigned (woken n x) = cpu_assigned x"
  "tstate (woken n x) = TASK_RUNNING \<longleftrightarrow> tstate x = TASK_RUNNING"
  by (auto simp: woken_def task_states)

definition wake_all :: "u32 list \<Rightarrow> u32 \<Rightarrow> (u32 \<Rightarrow> task) \<Rightarrow> u32 \<Rightarrow> task" where
  "wake_all ts now st t = (if t \<in> set ts then woken now (st t) else st t)"

lemma fold_wake: "fold wake ts s = s\<lparr>store := wake_all ts (tick_count s) (store s)\<rparr>"
proof (induction ts arbitrary: s)
  case Nil
  have "wake_all [] (tick_count s) (store s) = store s" by (auto simp: wake_all_def)
  then show ?case by simp
next
  case (Cons t ts)
  have "wake_all ts n (st(t := woken n (st t))) = wake_all (t # ts) n st" for n st
    by (auto simp: wake_all_def)
  moreover have "fold wake (t # ts) s = fold wake ts (upd t (woken (tick_count s)) s)" by (simp add: wake_woken)
  ultimately show ?case by (simp add: Cons upd_store fun_upd_def)
qed

lemma wake_all_simps [simp]:
  "link (wake_all ts n st t) = link (st t)" "kernel_stack_base (wake_all ts n st t) = kernel_stack_base (st t)"
  "page_dir (wake_all ts n st t) = page_dir (st t)" "cpu_assigned (wake_all ts n st t) = cpu_assigned (st t)"
  "tstate (wake_all ts n st t) = TASK_RUNNING \<longleftrightarrow> tstate (st t) = TASK_RUNNING"
  by (auto simp: wake_all_def)

lemma timer_handler_ring:
  assumes "ring (store s) (ready_head s) ts"
  shows "timer_handler cpu lock_free s =
    (let now = (if cpu = 0 then tick_count s + 1 else tick_count s)
     in Some (s\<lparr>tick_count := now, resched_pending := (resched_pending s)(cpu := True),
           store := (if cpu = 0 \<and> lock_free then wake_all ts now (store s) else store s),
           vm := (if cpu = 0 \<and> cpu_count s > 1 then (vm s)\<lparr>ipis := 0x51 # ipis (vm s)\<rparr> else vm s)\<rparr>))"
proof -
  have "task_foreach wake (s\<lparr>tick_count := x\<rparr>) = Some (fold wake ts (s\<lparr>tick_count := x\<rparr>))" for x
    using assms by (intro task_foreach_fold) (simp_all add: wake_woken)
  then show ?thesis by (simp add: timer_handler_def Let_def fold_wake)
qed

section \<open>Changing the ring\<close>

text \<open>Stores that differ in the links at most.\<close>

definition relinked :: "(u32 \<Rightarrow> task) \<Rightarrow> (u32 \<Rightarrow> task) \<Rightarrow> bool" where
  "relinked st st' \<longleftrightarrow> (\<forall>u. (st' u)\<lparr>link := 0\<rparr> = (st u)\<lparr>link := 0\<rparr>)"

lemma relinkedD:
  assumes "relinked st st'"
  shows "pid (st' u) = pid (st u)" "tstate (st' u) = tstate (st u)" "cpu_assigned (st' u) = cpu_assigned (st u)"
    "page_dir (st' u) = page_dir (st u)" "kernel_esp (st' u) = kernel_esp (st u)"
    "kernel_stack_base (st' u) = kernel_stack_base (st u)" "wakeup_tick (st' u) = wakeup_tick (st u)"
proof -
  from assms have eq: "(st' u)\<lparr>link := 0\<rparr> = (st u)\<lparr>link := 0\<rparr>" by (simp add: relinked_def)
  show "pid (st' u) = pid (st u)" "tstate (st' u) = tstate (st u)" "cpu_assigned (st' u) = cpu_assigned (st u)"
    "page_dir (st' u) = page_dir (st u)" "kernel_esp (st' u) = kernel_esp (st u)"
    "kernel_stack_base (st' u) = kernel_stack_base (st u)" "wakeup_tick (st' u) = wakeup_tick (st u)"
    using arg_cong [OF eq, of pid] arg_cong [OF eq, of tstate] arg_cong [OF eq, of cpu_assigned]
      arg_cong [OF eq, of page_dir] arg_cong [OF eq, of kernel_esp] arg_cong [OF eq, of kernel_stack_base]
      arg_cong [OF eq, of wakeup_tick] by simp_all
qed

lemma relinked_refl [simp]: "relinked st st"
  by (simp add: relinked_def)

lemma relinked_upd: "relinked st st' \<Longrightarrow> relinked st (st'(t := (st' t)\<lparr>link := l\<rparr>))"
  by (simp add: relinked_def)

fun insert_after :: "u32 \<Rightarrow> u32 list \<Rightarrow> u32 list" where
  "insert_after t [] = [t]"
| "insert_after t (h # ts) = h # t # ts"

lemma set_insert_after [simp]: "set (insert_after t ts) = insert t (set ts)"
  by (cases ts) auto

lemma insert_ready_other [simp]:
  "vm (insert_ready t s) = vm s" "current_task (insert_ready t s) = current_task s"
  "next_pid (insert_ready t s) = next_pid s"
  by (simp_all add: insert_ready_def Let_def)

lemma insert_ready_ring:
  assumes "ring (store s) (ready_head s) ts" and "t \<notin> set ts" and "t \<noteq> 0"
  shows "ring (store (insert_ready t s)) (ready_head (insert_ready t s)) (insert_after t ts)"
    and "relinked (store s) (store (insert_ready t s))"
proof -
  show "relinked (store s) (store (insert_ready t s))"
    by (simp add: insert_ready_def Let_def relinked_upd del: fun_upd_apply)
  show "ring (store (insert_ready t s)) (ready_head (insert_ready t s)) (insert_after t ts)"
  proof (cases ts)
    case Nil
    with assms show ?thesis by (simp add: ring_def insert_ready_def)
  next
    case (Cons h us)
    with assms have h: "ready_head s = h" "h \<noteq> 0" "h \<noteq> t" "t \<notin> set us" "h \<notin> set us" "distinct us" "0 \<notin> set us"
      "path (store s) (link (store s h)) us h" by (auto simp: ring_def)
    then have "path (store (insert_ready t s)) x us y = path (store s) x us y" for x y
      by (intro path_cong) (auto simp: insert_ready_def Let_def)
    with h assms(3) Cons show ?thesis by (auto simp: ring_def insert_ready_def Let_def)
  qed
qed

lemma unlink_ring:
  assumes r: "ring (store s) (ready_head s) ts" and t: "t \<in> set ts"
  obtains s' where "unlink t s = Some s'" and "ring (store s') (ready_head s') (remove1 t ts)"
    and "relinked (store s) (store s')" and "s' = s\<lparr>store := store s', ready_head := ready_head s'\<rparr>"
proof -
  from ring_split [OF r t] obtain us vs where d: "ts = us @ t # vs" "t \<notin> set us" "t \<notin> set vs"
    "others t ts = vs @ us" "path (store s) (ready_head s) us t" "path (store s) (link (store s t)) vs (ready_head s)"
    "distinct (us @ vs)" by metis
  have rm: "remove1 t ts = us @ vs" using d by (simp add: remove1_append)
  note o = path_others [OF r t]
  have prev: "find_prev (store s) t t = Some (last (t # others t ts))"
    using o d by (intro find_prev_last) auto
  show thesis
  proof (cases "us @ vs = []")
    case True
    with d r have "link (store s t) = t" by (auto simp: ring_def)
    with True rm that [of "s\<lparr>ready_head := 0\<rparr>"] show thesis by (auto simp: unlink_def ring_def)
  next
    case False
    from r t have t0: "t \<noteq> 0" "0 \<notin> set (us @ vs)" using d by (auto simp: ring_def)
    let ?q = "last (vs @ us)" and ?l = "link (store s t)"
    let ?st = "(store s)(?q := (store s ?q)\<lparr>link := ?l\<rparr>)"
    have q: "?q \<in> set (vs @ us)" "last (t # others t ts) = ?q" "?q \<noteq> t"
      using False d last_in_set [of "vs @ us"] by auto
    have "?l \<in> set (vs @ us)"
      using d False by (cases vs; cases us) auto
    then have l: "?l \<noteq> t" using d by auto
    have p: "path ?st ?l (vs @ us) ?l"
      using o False d by (intro path_redirect) auto
    let ?h = "if ready_head s = t then ?l else ready_head s"
    have "ring ?st ?h (us @ vs)"
    proof (cases us)
      case Nil
      with p d False t0 show ?thesis by (auto simp: ring_def)
    next
      case (Cons a as)
      with d have h: "ready_head s = a" "a \<noteq> t" by auto
      from p obtain z where z: "path ?st ?l vs z" "path ?st z us ?l" by (auto simp: path_append)
      with Cons h have "z = ready_head s" by simp
      with z have "path ?st (ready_head s) (us @ vs) (ready_head s)" by (auto simp: path_append)
      with d t0 h Cons show ?thesis by (auto simp: ring_def)
    qed
    moreover have "unlink t s = Some (s\<lparr>store := ?st, ready_head := ?h\<rparr>)"
      using prev q l by (auto simp: unlink_def Let_def upd_def)
    moreover have "relinked (store s) ?st" by (rule relinked_upd) simp
    ultimately show thesis using rm by (intro that) auto
  qed
qed

end
