(* ===== verification/TaskSched.thy ===== *)
theory TaskSched
  imports Task
begin

text \<open>
  Safety and fairness of the scheduler of \<^verbatim>\<open>kernel/task.c\<close>. The first part shows that kernel
  threads own the frames of their structures and stacks; the second closes the operations
  under an invariant, by rule induction over the steps of all CPUs; the last holds the
  properties.
\<close>

section \<open>The frames of the tasks\<close>

lemma stack_pages [simp]: "drop_bit 12 TASK_STACK_SIZE = 4"
  by (simp add: TASK_STACK_SIZE_def drop_bit_eq_div)

definition stack_frames :: "u32 \<Rightarrow> u32 set" where
  "stack_frames a = set (run_from (FRAME a) 0 4)"

definition task_frames :: "(u32 \<Rightarrow> task) \<Rightarrow> u32 \<Rightarrow> u32 set" where
  "task_frames st t = insert (FRAME t) (stack_frames (kernel_stack_base (st t)))"

text \<open>
  Each task of the ring runs on the kernel's address space, its structure and its stack are
  whole frames that are taken in the frame allocator, and no two tasks share a frame.
\<close>

definition owns_frames :: "tsys \<Rightarrow> u32 \<Rightarrow> bool" where
  "owns_frames s t \<longleftrightarrow> t = ADDR (FRAME t) \<and>
     (let b = kernel_stack_base (store s t)
      in b \<noteq> 0 \<and> b = ADDR (FRAME b) \<and> FRAME b < MAX_FRAMES) \<and>
     page_dir (store s t) = kernel_page_dir (vm s) \<and>
     (\<forall>f \<in> task_frames (store s) t. test_bit (frames (vm s)) f)"

definition tasks_mem :: "tsys \<Rightarrow> u32 list \<Rightarrow> bool" where
  "tasks_mem s ts \<longleftrightarrow> pfa_wf (frames (vm s)) \<and> (\<forall>t \<in> set ts. owns_frames s t) \<and>
     (\<forall>t \<in> set ts. \<forall>u \<in> set ts. t \<noteq> u \<longrightarrow> task_frames (store s) t \<inter> task_frames (store s) u = {})"

lemma tasks_mem_cong:
  assumes "tasks_mem s ts" and "frames (vm s') = frames (vm s)" and "kernel_page_dir (vm s') = kernel_page_dir (vm s)"
    and "\<And>t. t \<in> set ts \<Longrightarrow> page_dir (store s' t) = page_dir (store s t) \<and>
           kernel_stack_base (store s' t) = kernel_stack_base (store s t)"
  shows "tasks_mem s' ts"
proof -
  have eq: "task_frames (store s') t = task_frames (store s) t" if "t \<in> set ts" for t
    using assms(4) [OF that] by (simp add: task_frames_def)
  have o: "owns_frames s' t = owns_frames s t" if "t \<in> set ts" for t
    using assms(2-4) that eq by (simp add: owns_frames_def)
  from assms(1,2) show ?thesis by (simp add: tasks_mem_def eq o)
qed

text \<open>Frames can be taken, and frames of no task released.\<close>

lemma tasks_mem_frames:
  assumes "tasks_mem s ts" and "pfa_wf fr"
    and "\<And>t f. t \<in> set ts \<Longrightarrow> f \<in> task_frames (store s) t \<Longrightarrow> test_bit (frames (vm s)) f \<Longrightarrow> test_bit fr f"
  shows "tasks_mem (s\<lparr>vm := (vm s)\<lparr>frames := fr\<rparr>\<rparr>) ts"
  using assms unfolding tasks_mem_def owns_frames_def by auto

lemma alloc_task_cases:
  assumes "pfa_wf (frames (vm s))"
  obtains (full) "alloc_task s = (0, s)"
  | (frame) f where "ADDR f \<noteq> 0" and "f < MAX_FRAMES" and "\<not> test_bit (frames (vm s)) f"
      and "alloc_task s = (ADDR f, upd (ADDR f) (\<lambda>_. zero_task\<lparr>pid := next_pid s, cpu_assigned := -1\<rparr>)
             (s\<lparr>vm := (vm s)\<lparr>frames := pfa_set_bit f (frames (vm s))\<rparr>, next_pid := next_pid s + 1\<rparr>))"
  using assms
proof (cases rule: alloc_frame_cases)
  case full
  then show thesis by (intro that(1)) (simp add: alloc_task_def)
next
  case (frame f)
  then show thesis by (intro that(2) [of f]) (simp_all add: alloc_task_def Let_def)
qed

lemma stack_frames_ADDR:
  assumes "b < MAX_FRAMES" and "b \<noteq> 0"
  shows "stack_frames (ADDR b) = set (run_from b 0 4)" and "0 \<notin> stack_frames (ADDR b)"
proof -
  show eq: "stack_frames (ADDR b) = set (run_from b 0 4)" using assms by (simp add: stack_frames_def)
  have "unat b + unat (4 :: u32) < 4294967296" "b \<le> 0 \<longrightarrow> b = 0"
    using assms(1) by (auto simp: word_less_nat_alt pfa_consts)
  from mem_run_from [OF this(1), of 0] this(2) assms(2) show "0 \<notin> stack_frames (ADDR b)" by (auto simp: eq)
qed

lemma pfa_wf_mark: "pfa_wf p \<Longrightarrow> pfa_wf (fold pfa_set_bit fs p)"
  by (simp add: pfa_wf_def frames.test_mark_all)

lemma pfa_wf_free_frame: "pfa_wf p \<Longrightarrow> FRAME a \<noteq> 0 \<Longrightarrow> pfa_wf (free_frame a p)"
  by (simp add: pfa_wf_def free_frame_def Let_def frames.test_clear)

lemma free_stack_bits:
  "test_bit (free_frames b 4 p) f \<longleftrightarrow> test_bit p f \<and> (f \<in> stack_frames b \<longrightarrow> \<not> f < total_frames p)"
  "total_frames (free_frames b 4 p) = total_frames p"
  by (auto simp: free_frames_def clear_run_fold frames.test_clear_all stack_frames_def)

lemma tasks_mem_add:
  assumes m: "tasks_mem s ts" and wf: "pfa_wf fr"
    and bits: "\<And>f. test_bit fr f \<longleftrightarrow> test_bit (frames (vm s)) f \<or> f \<in> task_frames st t"
    and fresh: "\<And>f. f \<in> task_frames st t \<Longrightarrow> \<not> test_bit (frames (vm s)) f"
    and old: "\<And>u. u \<in> set ts \<Longrightarrow> st u = store s u"
    and s': "store s' = st" "frames (vm s') = fr" "kernel_page_dir (vm s') = kernel_page_dir (vm s)"
    and new: "t = ADDR (FRAME t)" "kernel_stack_base (st t) = ADDR b" "b \<noteq> 0" "b < MAX_FRAMES"
      "page_dir (st t) = kernel_page_dir (vm s)"
  shows "tasks_mem s' (t # ts)"
proof -
  have eq: "task_frames st u = task_frames (store s) u" if "u \<in> set ts" for u
    using old [OF that] by (simp add: task_frames_def)
  have "owns_frames s' u" if "u \<in> set ts" for u
    using m that eq [OF that] old [OF that] bits s' by (auto simp: tasks_mem_def owns_frames_def)
  moreover have "owns_frames s' t"
    using new s' bits by (auto simp: owns_frames_def)
  moreover have "task_frames st t \<inter> task_frames st u = {}" if "u \<in> set ts" for u
    using m that fresh by (auto simp: tasks_mem_def owns_frames_def eq)
  ultimately show ?thesis using m wf s' by (auto simp: tasks_mem_def eq)
qed

lemma tasks_mem_set: "set us = set ts \<Longrightarrow> tasks_mem s us = tasks_mem s ts"
  by (simp add: tasks_mem_def)

lemma task_create_cases:
  assumes r: "ring (store s) (ready_head s) ts" and m: "tasks_mem s ts"
  obtains (fail) s' where "task_create eip s = (0, s')" and "ring (store s') (ready_head s') ts"
      and "tasks_mem s' ts" and "current_task s' = current_task s" and "\<forall>u \<in> set ts. store s' u = store s u"
  | (created) t s' where "task_create eip s = (t, s')" and "t \<noteq> 0" and "t \<notin> set ts"
      and "ring (store s') (ready_head s') (insert_after t ts)" and "tasks_mem s' (insert_after t ts)"
      and "current_task s' = current_task s"
      and "tstate (store s' t) = TASK_READY" and "cpu_assigned (store s' t) = -1" and "pid (store s' t) = next_pid s"
      and "\<forall>u \<in> set ts. (store s' u)\<lparr>link := 0\<rparr> = (store s u)\<lparr>link := 0\<rparr>"
      and "fold push (initial_frame eip) (kernel_stack_base (store s' t) + TASK_STACK_SIZE, pmem (vm s)) =
             (kernel_esp (store s' t), pmem (vm s'))"
proof -
  let ?p = "frames (vm s)"
  from m have wf: "pfa_wf ?p" by (simp add: tasks_mem_def)
  from wf show thesis
  proof (cases rule: alloc_task_cases)
    case full
    with r m show thesis by (intro fail [of s]) (simp_all add: task_create_def)
  next
    case (frame f)
    let ?t = "ADDR f" and ?p1 = "pfa_set_bit f ?p"
    have t: "?t \<notin> set ts"
      using m frame by (auto simp: tasks_mem_def owns_frames_def task_frames_def)
    obtain stack p2 where a: "alloc_frames 4 ?p1 = (stack, p2)" by fastforce
    let ?s1 = "upd ?t (\<lambda>_. zero_task\<lparr>pid := next_pid s, cpu_assigned := -1\<rparr>)
        (s\<lparr>vm := (vm s)\<lparr>frames := ?p1\<rparr>, next_pid := next_pid s + 1\<rparr>)"
    have wf1: "pfa_wf ?p1" using pfa_wf_mark [OF wf, of "[f]"] by simp
    show thesis
    proof (cases "stack = 0")
      case True
      let ?s' = "?s1\<lparr>vm := (vm ?s1)\<lparr>frames := free_frame ?t p2\<rparr>\<rparr>"
      have p2: "p2 = ?p1" using alloc_frames_null [OF wf1] a True by simp
      have c: "task_create eip s = (0, ?s')"
        using frame a True by (simp add: task_create_def Let_def)
      have "ring (store ?s') (ready_head ?s') ts" using r t by (subst ring_cong [of ts _ "store s"]) auto
      moreover have "tasks_mem ?s' ts"
      proof (rule tasks_mem_cong)
        show "tasks_mem (s\<lparr>vm := (vm s)\<lparr>frames := free_frame ?t p2\<rparr>\<rparr>) ts"
          using frame pfa_wf_free_frame [OF wf1, of ?t] m
          by (intro tasks_mem_frames)
             (auto simp: p2 free_frame_def Let_def frames.test_clear frames.test_mark)
      qed (use t in auto)
      ultimately show thesis using c t by (intro fail [of ?s']) auto
    next
      case False
      from alloc_frames_result [OF wf1 a False] obtain b where
        b: "stack = ADDR b" "b < MAX_FRAMES" "free_run ?p1 b 4" "p2 = fold pfa_set_bit (run_from b 0 4) ?p1" by blast
      have b0: "b \<noteq> 0" using False b by (auto simp: ADDR_def)
      obtain sp mm where pu: "fold push (initial_frame eip) (stack + TASK_STACK_SIZE, pmem (vm s)) = (sp, mm)"
        by fastforce
      let ?s2 = "upd ?t (\<lambda>x. x\<lparr>kernel_stack_base := stack, kernel_esp := sp, page_dir := kernel_page_dir (vm s),
          tstate := TASK_READY\<rparr>) (?s1\<lparr>vm := (vm ?s1)\<lparr>frames := p2, pmem := mm\<rparr>\<rparr>)"
      have c: "task_create eip s = (?t, insert_ready ?t ?s2)"
        using frame a False pu by (simp add: task_create_def Let_def)
      have r2: "ring (store ?s2) (ready_head ?s2) ts" using r t by (subst ring_cong [of ts _ "store s"]) auto
      note i = insert_ready_ring [OF r2 t frame(1)]
      have base: "kernel_stack_base (store ?s2 ?t) = ADDR b" using b by simp
      have tf: "task_frames (store ?s2) ?t = insert f (set (run_from b 0 4))"
        by (simp only: base task_frames_def stack_frames_ADDR(1) [OF b(2) b0] FRAME_ADDR [OF frame(2)])
      have fr: "\<not> test_bit ?p g" if "g \<in> set (run_from b 0 4)" for g
        using b(3) that by (auto simp: free_run_def set_run_from frames.test_mark)
      have p2: "test_bit p2 g \<longleftrightarrow> test_bit ?p g \<or> g \<in> insert f (set (run_from b 0 4))" for g
        by (auto simp: b(4) frames.test_mark frames.test_mark_all)
      have "tasks_mem ?s2 (?t # ts)"
      proof (rule tasks_mem_add [where fr = p2, OF m _ _ _ _ refl _ _ _ base b0 b(2)])
        show "pfa_wf p2" using pfa_wf_mark [OF wf1] by (simp add: b(4))
        show "test_bit p2 g \<longleftrightarrow> test_bit ?p g \<or> g \<in> task_frames (store ?s2) ?t" for g unfolding tf by (rule p2)
        show "\<not> test_bit ?p g" if "g \<in> task_frames (store ?s2) ?t" for g
          using that fr frame(3) unfolding tf by blast
        show "store ?s2 u = store s u" if "u \<in> set ts" for u using that t by auto
        show "?t = ADDR (FRAME ?t)" using frame(2) by simp
      qed simp_all
      note mem2 = this
      have iv: "vm (insert_ready ?t ?s2) = vm ?s2" "current_task (insert_ready ?t ?s2) = current_task s"
        by simp_all
      have "tasks_mem (insert_ready ?t ?s2) (?t # ts)"
        by (rule tasks_mem_cong [OF mem2]) (simp_all only: iv relinkedD(4,6) [OF i(2)])
      then have "tasks_mem (insert_ready ?t ?s2) (insert_after ?t ts)"
        by (subst tasks_mem_set [of _ "?t # ts"]) simp_all
      moreover have "\<forall>u \<in> set ts. (store (insert_ready ?t ?s2) u)\<lparr>link := 0\<rparr> = (store s u)\<lparr>link := 0\<rparr>"
        using i(2) t unfolding relinked_def by auto
      moreover have "tstate (store (insert_ready ?t ?s2) ?t) = TASK_READY"
        "cpu_assigned (store (insert_ready ?t ?s2) ?t) = -1" "pid (store (insert_ready ?t ?s2) ?t) = next_pid s"
        unfolding relinkedD(1-3) [OF i(2)] by simp_all
      moreover have "fold push (initial_frame eip)
          (kernel_stack_base (store (insert_ready ?t ?s2) ?t) + TASK_STACK_SIZE, pmem (vm s)) =
          (kernel_esp (store (insert_ready ?t ?s2) ?t), pmem (vm (insert_ready ?t ?s2)))"
        unfolding relinkedD(5,6) [OF i(2)] using pu by simp
      ultimately show thesis using created [OF c frame(1) t i(1)] iv(2) by blast
    qed
  qed
qed

section \<open>Ending a task\<close>

lemma task_kill_ring:
  assumes r: "ring (store s) (ready_head s) ts"
  shows "task_kill p s =
    (case find (\<lambda>t. pid (store s t) = p) ts of
       None \<Rightarrow> Some (-1, s)
     | Some t \<Rightarrow> if tstate (store s t) = TASK_RUNNING then Some (-2, s)
                 else case unlink t s of None \<Rightarrow> None | Some s \<Rightarrow> Some (0, release_task t s))"
proof (cases ts)
  case Nil
  with r show ?thesis by (simp add: task_kill_def ring_def)
next
  case (Cons t us)
  with r have h: "ready_head s = t" "t \<noteq> 0" and "path (store s) t (t # us) t" "t \<notin> set us"
    by (auto simp: ring_def)
  from kill_find_find [OF this(3,4)] h Cons show ?thesis by (simp add: task_kill_def split: option.split)
qed

lemma release_task_kernel:
  assumes "page_dir (store s t) = kernel_page_dir (vm s)" and "kernel_stack_base (store s t) \<noteq> 0"
  shows "release_task t s =
    upd t (\<lambda>x. x\<lparr>tstate := TASK_FREE, cpu_assigned := -1, kernel_stack_base := 0\<rparr>)
      (s\<lparr>vm := (vm s)\<lparr>frames := free_frames (kernel_stack_base (store s t)) 4 (frames (vm s))\<rparr>\<rparr>)"
  using assms by (simp add: release_task_def Let_def upd_def)

text \<open>Killing a task that is not running takes it out of the ring and frees its stack.\<close>

lemma task_kill_removes:
  assumes r: "ring (store s) (ready_head s) ts" and m: "tasks_mem s ts"
    and f: "find (\<lambda>t. pid (store s t) = p) ts = Some t" and st: "tstate (store s t) \<noteq> TASK_RUNNING"
  obtains s' where "task_kill p s = Some (0, s')" and "ring (store s') (ready_head s') (remove1 t ts)"
    and "tasks_mem s' (remove1 t ts)" and "current_task s' = current_task s"
    and "\<And>u. u \<noteq> t \<Longrightarrow> (store s' u)\<lparr>link := 0\<rparr> = (store s u)\<lparr>link := 0\<rparr>"
    and "tstate (store s' t) = TASK_FREE" and "kernel_stack_base (store s' t) = 0"
    and "\<And>g. test_bit (frames (vm s')) g \<longleftrightarrow> test_bit (frames (vm s)) g \<and>
           (g \<in> stack_frames (kernel_stack_base (store s t)) \<longrightarrow> \<not> g < total_frames (frames (vm s)))"
proof -
  from find_Some_mem [OF f] have t: "t \<in> set ts" by simp
  from unlink_ring [OF r t] obtain s1 where u: "unlink t s = Some s1"
    "ring (store s1) (ready_head s1) (remove1 t ts)" "relinked (store s) (store s1)"
    "s1 = s\<lparr>store := store s1, ready_head := ready_head s1\<rparr>" by metis
  have s1: "vm s1 = vm s" "current_task s1 = current_task s" by (subst u(4), simp)+
  let ?b = "kernel_stack_base (store s t)"
  from m t have o: "?b \<noteq> 0" "?b = ADDR (FRAME ?b)" "FRAME ?b < MAX_FRAMES"
    "page_dir (store s t) = kernel_page_dir (vm s)" by (auto simp: tasks_mem_def owns_frames_def Let_def)
  note rl = relinkedD [OF u(3)]
  define s2 where "s2 = upd t (\<lambda>x. x\<lparr>tstate := TASK_FREE, cpu_assigned := -1, kernel_stack_base := 0\<rparr>)
      (s1\<lparr>vm := (vm s)\<lparr>frames := free_frames ?b 4 (frames (vm s))\<rparr>\<rparr>)"
  have k: "task_kill p s = Some (0, s2)"
    using f st u(1) release_task_kernel [of s1 t] o(1,4) rl(4,6) s1(1)
    by (simp add: task_kill_ring [OF r] s2_def)
  from r have d: "t \<notin> set (remove1 t ts)" "set (remove1 t ts) = set ts - {t}" by (auto simp: ring_def)
  have "ring (store s2) (ready_head s2) (remove1 t ts)"
    using u(2) d(1) by (subst ring_cong [of _ _ "store s1"]) (auto simp: s2_def)
  moreover have "FRAME ?b \<noteq> 0" using o(1,2) by (metis ADDR_eq_0 o(3))
  from stack_frames_ADDR(2) [OF o(3) this] have b0: "0 \<notin> stack_frames ?b" using o(2) by simp
  have m1: "tasks_mem s (remove1 t ts)" using m d(2) by (auto simp: tasks_mem_def)
  have bits: "test_bit (frames (vm s2)) g \<longleftrightarrow> test_bit (frames (vm s)) g \<and>
      (g \<in> stack_frames ?b \<longrightarrow> \<not> g < total_frames (frames (vm s)))" for g
    by (simp add: s2_def free_stack_bits)
  have "tasks_mem s2 (remove1 t ts)"
  proof (rule tasks_mem_cong)
    show "tasks_mem (s\<lparr>vm := (vm s)\<lparr>frames := frames (vm s2)\<rparr>\<rparr>) (remove1 t ts)"
    proof (rule tasks_mem_frames [OF m1])
      show "pfa_wf (frames (vm s2))"
        using m b0 bits by (auto simp: tasks_mem_def pfa_wf_def s2_def free_stack_bits)
      show "test_bit (frames (vm s2)) g" if "v \<in> set (remove1 t ts)" "g \<in> task_frames (store s) v"
        "test_bit (frames (vm s)) g" for v g
      proof -
        have "task_frames (store s) v \<inter> task_frames (store s) t = {}"
          using m t that(1) d(2) unfolding tasks_mem_def by auto
        with that(2,3) show ?thesis unfolding bits task_frames_def [of _ t] by auto
      qed
    qed
  qed (use d(1) rl s1 in \<open>auto simp: s2_def\<close>)
  moreover have "(store s2 v)\<lparr>link := 0\<rparr> = (store s v)\<lparr>link := 0\<rparr>" if "v \<noteq> t" for v
    using u(3) that by (simp add: s2_def relinked_def)
  ultimately show thesis using k bits s1 by (intro that [of s2]) (simp_all add: s2_def)
qed

section \<open>The scheduler as a step relation\<close>

text \<open>
  Every CPU's current task is a running task of the ring that is assigned to that CPU, and
  every running task is the current task of some CPU.
\<close>

definition tasks_cpu :: "tsys \<Rightarrow> u32 list \<Rightarrow> bool" where
  "tasks_cpu s ts \<longleftrightarrow>
     (\<forall>cpu. current_task s cpu \<noteq> 0 \<longrightarrow> current_task s cpu \<in> set ts \<and>
        tstate (store s (current_task s cpu)) = TASK_RUNNING \<and>
        cpu_assigned (store s (current_task s cpu)) = int cpu) \<and>
     (\<forall>t \<in> set ts. tstate (store s t) = TASK_RUNNING \<longrightarrow> (\<exists>cpu. current_task s cpu = t))"

definition sched_ok :: "tsys \<Rightarrow> u32 list \<Rightarrow> bool" where
  "sched_ok s ts \<longleftrightarrow> ring (store s) (ready_head s) ts \<and> tasks_mem s ts \<and> tasks_cpu s ts"

text \<open>The steps of kernel threads; an idle task is started once on each CPU.\<close>

inductive task_step :: "tsys \<Rightarrow> tsys \<Rightarrow> bool" where
  create: "task_create eip s = (t, s') \<Longrightarrow> task_step s s'"
| idle: "current_task s cpu = 0 \<Longrightarrow> start_idle cpu eip s = Some s' \<Longrightarrow> task_step s s'"
| yield: "task_yield cpu esp s = Some (r, s') \<Longrightarrow> task_step s s'"
| block: "task_block_and_switch cpu esp w s = Some (r, s') \<Longrightarrow> task_step s s'"
| tick: "task_switch_tick cpu esp s = Some (r, s') \<Longrightarrow> task_step s s'"
| timer: "timer_handler cpu lock_free s = Some s' \<Longrightarrow> task_step s s'"
| ipi: "task_step s (resched_ipi_handler cpu s)"
| kill: "task_kill p s = Some (r, s') \<Longrightarrow> task_step s s'"

definition task_start :: "tsys \<Rightarrow> bool" where
  "task_start s \<longleftrightarrow> ready_head s = 0 \<and> (\<forall>cpu. current_task s cpu = 0) \<and> pfa_wf (frames (vm s))"

lemma tasks_cpuD:
  assumes "tasks_cpu s ts" and "current_task s cpu \<noteq> 0"
  shows "current_task s cpu \<in> set ts" and "tstate (store s (current_task s cpu)) = TASK_RUNNING"
    and "cpu_assigned (store s (current_task s cpu)) = int cpu"
  using assms by (simp_all add: tasks_cpu_def)

lemma tasks_cpu_keep:
  assumes "tasks_cpu s ts" and "current_task s' = current_task s"
    and "\<And>t. t \<in> set ts \<Longrightarrow> tstate (store s' t) = TASK_RUNNING \<longleftrightarrow> tstate (store s t) = TASK_RUNNING"
    and "\<And>t. t \<in> set ts \<Longrightarrow> cpu_assigned (store s' t) = cpu_assigned (store s t)"
    and "set ts' \<subseteq> set ts" and "\<And>t. t \<in> set ts - set ts' \<Longrightarrow> tstate (store s t) \<noteq> TASK_RUNNING"
  shows "tasks_cpu s' ts'"
  unfolding tasks_cpu_def
proof (intro conjI allI ballI impI)
  fix cpu assume "current_task s' cpu \<noteq> 0"
  then have "current_task s cpu \<noteq> 0" using assms(2) by simp
  from tasks_cpuD [OF assms(1) this] show
    "current_task s' cpu \<in> set ts'" "tstate (store s' (current_task s' cpu)) = TASK_RUNNING"
    "cpu_assigned (store s' (current_task s' cpu)) = int cpu"
    using assms(2-6) by auto
next
  fix t assume "t \<in> set ts'" "tstate (store s' t) = TASK_RUNNING"
  then show "\<exists>cpu. current_task s' cpu = t" using assms unfolding tasks_cpu_def by auto
qed

lemma link0_fields:
  assumes "x\<lparr>link := 0\<rparr> = y\<lparr>link := 0\<rparr>"
  shows "tstate x = tstate y" and "cpu_assigned x = cpu_assigned y"
  using arg_cong [OF assms, of tstate] arg_cong [OF assms, of cpu_assigned] by simp_all

lemma sched_ok_create:
  assumes ok: "sched_ok s ts" and c: "task_create eip s = (t, s')"
  shows "\<exists>ts'. sched_ok s' ts' \<and> current_task s' = current_task s \<and>
    (t \<noteq> 0 \<longrightarrow> t \<in> set ts' \<and> (\<forall>cpu. current_task s' cpu \<noteq> t) \<and> tstate (store s' t) = TASK_READY)"
proof -
  from ok have r: "ring (store s) (ready_head s) ts" and m: "tasks_mem s ts" and q: "tasks_cpu s ts"
    by (auto simp: sched_ok_def)
  from r m show ?thesis
  proof (cases rule: task_create_cases [of s ts eip])
    case (fail s'')
    with c have "tasks_cpu s' ts" by (intro tasks_cpu_keep [OF q]) auto
    with fail c show ?thesis by (auto simp: sched_ok_def)
  next
    case (created t' s'')
    with c have [simp]: "t' = t" "s'' = s'" by auto
    from created(10) have old: "tstate (store s' u) = tstate (store s u)"
      "cpu_assigned (store s' u) = cpu_assigned (store s u)" if "u \<in> set ts" for u
      using link0_fields [of "store s' u" "store s u"] that by simp_all
    from q have "tasks_cpu s' ts" by (rule tasks_cpu_keep) (use created old in auto)
    then have "tasks_cpu s' (insert_after t ts)"
      using created(7) unfolding tasks_cpu_def by (auto simp: task_states)
    moreover have "current_task s' cpu \<noteq> t" for cpu
      using tasks_cpuD(1) [OF q, of cpu] created by auto
    ultimately show ?thesis using created by (intro exI [of _ "insert_after t ts"]) (auto simp: sched_ok_def)
  qed
qed

lemma sched_ok_idle:
  assumes ok: "sched_ok s ts" and c: "current_task s cpu = 0" "start_idle cpu eip s = Some s'"
  shows "\<exists>ts'. sched_ok s' ts'"
proof -
  obtain t s1 where s1: "task_create eip s = (t, s1)" by fastforce
  with c have t0: "t \<noteq> 0" and s': "s' = (upd t (\<lambda>x. x\<lparr>tstate := TASK_RUNNING, cpu_assigned := int cpu\<rparr>) s1)
      \<lparr>current_task := (current_task s1)(cpu := t)\<rparr>"
    by (auto simp: start_idle_def Let_def split: if_splits)
  from sched_ok_create [OF ok s1] t0 obtain ts' where o: "sched_ok s1 ts'" "current_task s1 = current_task s"
    "t \<in> set ts'" "\<forall>cpu. current_task s1 cpu \<noteq> t" by auto
  from o(1) have q: "ring (store s1) (ready_head s1) ts'" "tasks_mem s1 ts'" "tasks_cpu s1 ts'"
    by (auto simp: sched_ok_def)
  have "ring (store s') (ready_head s') ts'" using q(1) by (subst ring_cong [of _ _ "store s1"]) (auto simp: s')
  moreover have "tasks_mem s' ts'" by (rule tasks_mem_cong [OF q(2)]) (auto simp: s')
  moreover have "tasks_cpu s' ts'"
    unfolding tasks_cpu_def
  proof (intro conjI allI ballI impI)
    fix d assume "current_task s' d \<noteq> 0"
    then show "current_task s' d \<in> set ts'" "tstate (store s' (current_task s' d)) = TASK_RUNNING"
      "cpu_assigned (store s' (current_task s' d)) = int d"
      using tasks_cpuD [OF q(3), of d] o by (auto simp: s')
  next
    fix u assume "u \<in> set ts'" "tstate (store s' u) = TASK_RUNNING"
    then show "\<exists>d. current_task s' d = u"
      using q(3) c(1) o(2,4) unfolding tasks_cpu_def s'
      by (cases "u = t") (auto, metis fun_upd_other ring_def q(1))
  qed
  ultimately show ?thesis by (auto simp: sched_ok_def)
qed

lemma sched_ok_switch:
  assumes ok: "sched_ok s ts" and ns: "ns \<noteq> TASK_RUNNING" and s': "task_switch_from cpu esp ns w s = Some (r, s')"
  shows "sched_ok s' ts"
proof (cases "current_task s cpu = 0")
  case True
  with ok s' show ?thesis by (simp add: task_switch_from_def)
next
  case False
  let ?c = "current_task s cpu"
  from ok have q: "ring (store s) (ready_head s) ts" "tasks_mem s ts" "tasks_cpu s ts"
    by (auto simp: sched_ok_def)
  note c = tasks_cpuD [OF q(3) False]
  have other: "current_task s d \<noteq> ?c" if "d \<noteq> cpu" "current_task s d \<noteq> 0" for d
    using tasks_cpuD(3) [OF q(3) that(2)] c(3) that(1) by auto
  note o = path_others [OF q(1) c(1)]
  show ?thesis
  proof (cases "find (runnable cpu (store s)) (others ?c ts)")
    case None
    with s' task_switch_from_ring [OF q(1) refl c(1)]
    have [simp]: "s' = upd ?c (park cpu esp TASK_RUNNING w) s" by simp
    have "ring (store s') (ready_head s') ts" using q(1) by (subst ring_cong [of _ _ "store s"]) auto
    moreover have "tasks_mem s' ts" by (rule tasks_mem_cong [OF q(2)]) auto
    moreover have "tasks_cpu s' ts" by (rule tasks_cpu_keep [OF q(3)]) (use c in auto)
    ultimately show ?thesis by (simp add: sched_ok_def)
  next
    case (Some n)
    with s' task_switch_from_ring [OF q(1) refl c(1)]
    have [simp]: "s' = dispatch cpu n (upd ?c (park cpu esp ns w) s)" by simp
    from find_Some_mem [OF Some] o(2) have n: "n \<in> set ts" "n \<noteq> ?c" "tstate (store s n) = TASK_READY"
      by (auto simp: runnable_def)
    have cur: "current_task s d \<noteq> n" for d
      using tasks_cpuD(2) [OF q(3), of d] n q(1) by (cases "current_task s d = 0") (auto simp: ring_def task_states)
    have "ring (store s') (ready_head s') ts" using q(1) by (subst ring_cong [of _ _ "store s"]) auto
    moreover have "tasks_mem s' ts" by (rule tasks_mem_cong [OF q(2)]) auto
    moreover have "tasks_cpu s' ts"
      unfolding tasks_cpu_def
    proof (intro conjI allI ballI impI)
      fix d assume "current_task s' d \<noteq> 0"
      then show "current_task s' d \<in> set ts" "tstate (store s' (current_task s' d)) = TASK_RUNNING"
        "cpu_assigned (store s' (current_task s' d)) = int d"
        using tasks_cpuD [OF q(3), of d] other [of d] cur [of d] n False by (cases "d = cpu"; auto)+
    next
      fix u assume u: "u \<in> set ts" "tstate (store s' u) = TASK_RUNNING"
      show "\<exists>d. current_task s' d = u"
      proof (cases "u = n")
        case True
        then have "current_task s' cpu = u" by simp
        then show ?thesis ..
      next
        case False
        with u ns have "u \<noteq> ?c" "tstate (store s u) = TASK_RUNNING" by (auto split: if_splits)
        with u q(3) obtain d where "current_task s d = u" unfolding tasks_cpu_def by blast
        with \<open>u \<noteq> ?c\<close> have "current_task s' d = u" by auto
        then show ?thesis ..
      qed
    qed
    ultimately show ?thesis by (simp add: sched_ok_def)
  qed
qed

lemma sched_ok_timer:
  assumes ok: "sched_ok s ts" and s': "timer_handler cpu lock_free s = Some s'"
  shows "sched_ok s' ts"
proof -
  from ok have q: "ring (store s) (ready_head s) ts" "tasks_mem s ts" "tasks_cpu s ts"
    by (auto simp: sched_ok_def)
  from s' have e: "ready_head s' = ready_head s" "current_task s' = current_task s"
    "frames (vm s') = frames (vm s)" "kernel_page_dir (vm s') = kernel_page_dir (vm s)"
    and f: "link (store s' t) = link (store s t)" "page_dir (store s' t) = page_dir (store s t)"
      "kernel_stack_base (store s' t) = kernel_stack_base (store s t)" "cpu_assigned (store s' t) = cpu_assigned (store s t)"
      "tstate (store s' t) = TASK_RUNNING \<longleftrightarrow> tstate (store s t) = TASK_RUNNING" for t
    by (auto simp: timer_handler_ring [OF q(1)] Let_def split: if_splits)
  have "ring (store s') (ready_head s') ts" using q(1) f(1) e(1) by (subst ring_cong [of _ _ "store s"]) auto
  moreover have "tasks_mem s' ts" by (rule tasks_mem_cong [OF q(2)]) (simp_all add: e f)
  moreover have "tasks_cpu s' ts" by (rule tasks_cpu_keep [OF q(3)]) (simp_all add: e f)
  ultimately show ?thesis by (simp add: sched_ok_def)
qed

lemma sched_ok_kill:
  assumes ok: "sched_ok s ts" and s': "task_kill p s = Some (r, s')"
  shows "\<exists>ts'. sched_ok s' ts'"
proof -
  from ok have q: "ring (store s) (ready_head s) ts" "tasks_mem s ts" "tasks_cpu s ts"
    by (auto simp: sched_ok_def)
  show ?thesis
  proof (cases "find (\<lambda>t. pid (store s t) = p) ts")
    case None
    with s' ok show ?thesis by (auto simp: task_kill_ring [OF q(1)])
  next
    case (Some t)
    show ?thesis
    proof (cases "tstate (store s t) = TASK_RUNNING")
      case True
      with s' ok Some show ?thesis by (auto simp: task_kill_ring [OF q(1)])
    next
      case False
      obtain s1 where "task_kill p s = Some (0, s1)" and k: "ring (store s1) (ready_head s1) (remove1 t ts)"
        "tasks_mem s1 (remove1 t ts)" "current_task s1 = current_task s"
        and l: "\<And>u. u \<noteq> t \<Longrightarrow> (store s1 u)\<lparr>link := 0\<rparr> = (store s u)\<lparr>link := 0\<rparr>"
        by (rule task_kill_removes [OF q(1,2) Some False]) blast
      with s' have [simp]: "s1 = s'" by simp
      have f: "tstate (store s' u) = tstate (store s u)" "cpu_assigned (store s' u) = cpu_assigned (store s u)"
        if "u \<noteq> t" for u using link0_fields [OF l [OF that]] by simp_all
      from q(1) have "set (remove1 t ts) = set ts - {t}" by (auto simp: ring_def)
      then have "tasks_cpu s (remove1 t ts)"
        using False by (intro tasks_cpu_keep [OF q(3)]) auto
      then have "tasks_cpu s' (remove1 t ts)"
        by (rule tasks_cpu_keep) (use k(3) f \<open>set (remove1 t ts) = set ts - {t}\<close> in auto)
      with k show ?thesis by (auto simp: sched_ok_def)
    qed
  qed
qed

lemma sched_ok_step: "task_step s s' \<Longrightarrow> sched_ok s ts \<Longrightarrow> \<exists>ts'. sched_ok s' ts'"
proof (induction rule: task_step.induct)
  case (create eip s t s')
  then show ?case using sched_ok_create by blast
next
  case (idle s cpu eip s')
  then show ?case using sched_ok_idle by blast
next
  case (yield cpu esp s r s')
  then show ?case using sched_ok_switch [of s ts TASK_READY cpu esp 0 r s'] by (auto simp: task_yield_def task_states)
next
  case (block cpu esp w s r s')
  then show ?case using sched_ok_switch [of s ts TASK_BLOCKED cpu esp w r s'] by (auto simp: task_block_and_switch_def task_states)
next
  case (tick cpu esp s r s')
  let ?s = "s\<lparr>resched_pending := (resched_pending s)(cpu := False)\<rparr>"
  have "sched_ok ?s ts"
    using tick.prems tasks_mem_cong [of s ts ?s] by (simp add: sched_ok_def tasks_cpu_def)
  with tick sched_ok_switch [of ?s ts TASK_READY cpu esp 0 r s'] show ?case
    by (auto simp: task_switch_tick_def task_states split: if_splits)
next
  case (timer cpu lock_free s s')
  then show ?case using sched_ok_timer by blast
next
  case (ipi s cpu)
  then have "sched_ok (resched_ipi_handler cpu s) ts"
    using tasks_mem_cong [of s ts "resched_ipi_handler cpu s"]
    by (simp add: sched_ok_def tasks_cpu_def resched_ipi_handler_def)
  then show ?case ..
next
  case (kill p s r s')
  then show ?case using sched_ok_kill by blast
qed

lemma sched_ok_reachable: "task_step\<^sup>*\<^sup>* s0 s \<Longrightarrow> task_start s0 \<Longrightarrow> \<exists>ts. sched_ok s ts"
proof (induction rule: rtranclp_induct)
  case base
  then have "sched_ok s0 []" by (simp add: sched_ok_def task_start_def ring_def tasks_mem_def tasks_cpu_def)
  then show ?case ..
qed (use sched_ok_step in blast)

section \<open>Taking turns\<close>

text \<open>A sequence of \<open>task_yield\<close> calls on one CPU, with the stack pointers they are called with.\<close>

primrec yields :: "nat \<Rightarrow> u32 list \<Rightarrow> tsys \<Rightarrow> tsys option" where
  "yields cpu [] s = Some s"
| "yields cpu (e # es) s = (case task_yield cpu e s of None \<Rightarrow> None | Some (r, s') \<Rightarrow> yields cpu es s')"

lemma find_first:
  assumes "find P xs = Some n"
  obtains as bs where "xs = as @ n # bs" and "\<forall>a \<in> set as. \<not> P a" and "P n"
  using assms that by (induction xs arbitrary: thesis) (auto split: if_splits, metis append_Nil empty_iff list.set(1), metis append_Cons set_ConsD)

lemma others_rotate:
  assumes "distinct ts" and "c \<in> set ts" and "others c ts = as @ n # bs"
  shows "others n ts = bs @ c # as"
proof -
  from assms(2) obtain us vs where ts: "ts = us @ c # vs" "c \<notin> set us" by (metis split_list_first)
  with assms have o: "vs @ us = as @ n # bs" by (simp add: others_split)
  then consider (right) vs' where "vs = as @ n # vs'" "bs = vs' @ us" | (left) us' where "as = vs @ us'" "us = us' @ n # bs"
    by (auto simp: append_eq_append_conv2 Cons_eq_append_conv append_eq_Cons_conv)
  then show ?thesis
  proof cases
    case right
    with ts assms(1) have "ts = (us @ c # as) @ n # vs'" "n \<notin> set (us @ c # as)" by auto
    then show ?thesis using right others_split [of n "us @ c # as" vs'] by simp
  next
    case left
    with ts assms(1) have "ts = us' @ n # (bs @ c # vs)" "n \<notin> set us'" by auto
    then show ?thesis using left others_split [of n us' "bs @ c # vs"] by simp
  qed
qed

lemma split_after:
  "pre @ t # post = as @ n # bs \<Longrightarrow> t \<notin> set as \<Longrightarrow> t \<noteq> n \<Longrightarrow> \<exists>pre'. pre = as @ n # pre' \<and> bs = pre' @ t # post"
  by (auto simp: append_eq_append_conv2 Cons_eq_append_conv append_eq_Cons_conv)

lemma yield_turn:
  assumes ok: "sched_ok s ts" and c: "current_task s cpu = c" "c \<noteq> 0" and t: "runnable cpu (store s) t"
    and o: "others c ts = pre @ t # post"
  obtains r s' where "task_yield cpu e s = Some (r, s')" and "sched_ok s' ts" and "current_task s' cpu = t"
  | r s' n pre' post' where "task_yield cpu e s = Some (r, s')" and "sched_ok s' ts" and "current_task s' cpu = n"
      and "n \<noteq> 0" and "runnable cpu (store s') t" and "others n ts = pre' @ t # post'" and "length pre' < length pre"
proof -
  from ok have q: "ring (store s) (ready_head s) ts" "tasks_cpu s ts" by (auto simp: sched_ok_def)
  have cin: "c \<in> set ts" using tasks_cpuD(1) [OF q(2)] c by auto
  note po = path_others [OF q(1) cin]
  obtain n where f: "find (runnable cpu (store s)) (others c ts) = Some n"
    using t o by (cases "find (runnable cpu (store s)) (others c ts)") (auto simp: find_None_iff)
  then obtain as bs where n: "others c ts = as @ n # bs" "\<forall>a \<in> set as. \<not> runnable cpu (store s) a"
    "runnable cpu (store s) n" by (rule find_first)
  from f task_switch_from_ring [OF q(1) c(1) cin] have y: "task_yield cpu e s =
      Some (kernel_esp (store s n), dispatch cpu n (upd c (park cpu e TASK_READY 0) s))" (is "_ = Some (_, ?s)")
    by (simp add: task_yield_def)
  from y have ok': "sched_ok ?s ts"
    using sched_ok_switch [OF ok, of TASK_READY] by (auto simp: task_yield_def task_states)
  show thesis
  proof (cases "n = t")
    case True
    with y ok' that(1) show thesis by simp
  next
    case False
    have "t \<notin> set as" using t n(2) by blast
    with False split_after [of pre t post as n bs] o n(1) obtain pre' where
      p: "pre = as @ n # pre'" "bs = pre' @ t # post" by metis
    have "n \<in> set (others c ts)" "t \<in> set (others c ts)" by (simp add: n(1), simp add: o)
    with po(2) q(1) have "n \<noteq> 0" "t \<noteq> c" by (auto simp: ring_def)
    moreover have "others n ts = pre' @ t # (post @ c # as)"
      using others_rotate [OF _ cin n(1)] q(1) p by (simp add: ring_def)
    moreover have "runnable cpu (store ?s) t" using t False \<open>t \<noteq> c\<close> by (simp add: runnable_def)
    ultimately show thesis using that(2) [OF y ok'] p by simp
  qed
qed

lemma yields_reach:
  assumes "sched_ok s ts" and "current_task s cpu = c" and "c \<noteq> 0" and "runnable cpu (store s) t"
    and "others c ts = pre @ t # post" and "length pre < length es"
  shows "\<exists>k \<le> Suc (length pre). \<exists>s'. yields cpu (take k es) s = Some s' \<and> sched_ok s' ts \<and> current_task s' cpu = t"
  using assms
proof (induction "length pre" arbitrary: s c pre post es rule: less_induct)
  case less
  obtain e es' where es: "es = e # es'" using less.prems(6) by (cases es) auto
  from less.prems(1-5) show ?case
  proof (cases rule: yield_turn [where e = e])
    case (1 r s')
    with es have "yields cpu (take 1 es) s = Some s'" by simp
    with 1 show ?thesis by (intro exI [of _ 1]) auto
  next
    case (2 r s' n pre' post')
    from less.hyps [OF 2(7,2,3,4,5,6), of es'] less.prems(6) es 2(7) obtain k s'' where
      k: "k \<le> Suc (length pre')" "yields cpu (take k es') s' = Some s''" "sched_ok s'' ts" "current_task s'' cpu = t" by auto
    with 2 es show ?thesis by (intro exI [of _ "Suc k"]) auto
  qed
qed

section \<open>The first switch to a task\<close>

lemma fold_push:
  assumes "4 * length vs \<le> a" and "a \<le> 4294967296"
  shows "\<exists>m'. fold push vs (w32 a, m) = (w32 (a - 4 * length vs), m') \<and>
    (\<forall>i < length vs. rd32 m' (w32 (a - 4 * length vs + 4 * i)) = rev vs ! i) \<and>
    same_outside (a - 4 * length vs) a m m'"
  using assms(1)
proof (induction vs rule: rev_induct)
  case (snoc v vs)
  define c where "c = a - 4 * length (vs @ [v])"
  have b: "a - 4 * length vs = c + 4" "4 * length vs \<le> a" "c + 4 \<le> a" using snoc.prems by (auto simp: c_def)
  from snoc.IH [OF b(2)] obtain m1 where m1: "fold push vs (w32 a, m) = (w32 (c + 4), m1)" "same_outside (c + 4) a m m1"
    and rd: "\<And>i. i < length vs \<Longrightarrow> rd32 m1 (w32 (c + 4 + 4 * i)) = rev vs ! i" unfolding b(1) by blast
  let ?m = "wr32 m1 (w32 c) v"
  have "w32 (c + 4) - 4 = w32 c" by (simp add: w32_def)
  with m1(1) have "fold push (vs @ [v]) (w32 a, m) = (w32 c, ?m)" by (simp add: push_def)
  moreover have "rd32 ?m (w32 (c + 4 * i)) = rev (vs @ [v]) ! i" if i: "i < length (vs @ [v])" for i
  proof (cases i)
    case (Suc j)
    with i have "c + 4 * i + 4 \<le> a" using snoc.prems by (simp add: c_def)
    then have "rd32 ?m (w32 (c + 4 * i)) = rd32 m1 (w32 (c + 4 * i))"
      using b(3) assms(2) Suc by (intro rd32_wr32_other) auto
    moreover have "c + 4 * i = c + 4 + 4 * j" using Suc by simp
    ultimately show ?thesis using rd [of j] Suc i by (simp add: add.assoc)
  qed simp
  moreover have "same_outside c a m ?m"
    using same_outside_mono [OF m1(2)] b(3) assms(2) by (intro same_outside_wr32) auto
  ultimately show ?case unfolding c_def by blast
qed (simp add: w32_def)

text \<open>
  What the processor holds after the assembly that enters a task: \<open>popl\<close> of the segments,
  \<open>popa\<close>, dropping interrupt number and error code, and \<open>iret\<close>.
\<close>

record cpu_regs =
  r_gs :: u32
  r_fs :: u32
  r_es :: u32
  r_ds :: u32
  r_popa :: "u32 list"
  r_eip :: u32
  r_cs :: u32
  r_eflags :: u32
  r_esp :: u32

definition enter_task :: "mem \<Rightarrow> u32 \<Rightarrow> cpu_regs" where
  "enter_task m sp =
     (let pop = (\<lambda>i. rd32 m (sp + 4 * i))
      in \<lparr>r_gs = pop 0, r_fs = pop 1, r_es = pop 2, r_ds = pop 3, r_popa = map pop [4, 5, 6, 7, 8, 9, 10, 11],
          r_eip = pop 14, r_cs = pop 15, r_eflags = pop 16, r_esp = sp + 4 * 17\<rparr>)"

lemma enter_initial_frame:
  assumes "68 \<le> a" and "a \<le> 4294967296" and f: "fold push (initial_frame e) (w32 a, m) = (sp, m')"
  shows "enter_task m' sp = \<lparr>r_gs = 0x30, r_fs = 0x10, r_es = 0x10, r_ds = 0x10, r_popa = replicate 8 0,
           r_eip = e, r_cs = 0x08, r_eflags = 0x202, r_esp = w32 a\<rparr>"
    and "sp = w32 (a - 68)" and "same_outside (a - 68) a m m'"
proof -
  have len: "length (initial_frame e) = 17" by (simp add: initial_frame_def)
  from fold_push [of "initial_frame e" a m] assms len
  have sp: "sp = w32 (a - 68)" "same_outside (a - 68) a m m'"
    and rd: "\<And>i. i < 17 \<Longrightarrow> rd32 m' (w32 (a - 68 + 4 * i)) = rev (initial_frame e) ! i" by auto
  then show "sp = w32 (a - 68)" "same_outside (a - 68) a m m'" by blast+
  have pop: "rd32 m' (w32 (a - 68) + 4 * of_nat i) = rev (initial_frame e) ! i" if "i < 17" for i
    using rd [OF that] by (simp add: w32_def)
  have "w32 (a - 68) + 68 = w32 a" using assms(1) by (simp add: w32_def)
  then show "enter_task m' sp = \<lparr>r_gs = 0x30, r_fs = 0x10, r_es = 0x10, r_ds = 0x10, r_popa = replicate 8 0,
           r_eip = e, r_cs = 0x08, r_eflags = 0x202, r_esp = w32 a\<rparr>"
    using pop [of 0] pop [of 1] pop [of 2] pop [of 3] pop [of 4] pop [of 5] pop [of 6] pop [of 7] pop [of 8]
      pop [of 9] pop [of 10] pop [of 11] pop [of 14] pop [of 15] pop [of 16]
    by (simp add: enter_task_def Let_def sp(1) initial_frame_def numeral_eq_Suc)
qed

section \<open>Properties\<close>

text \<open>
  A machine with 16 frames before any task runs, and one with two tasks, of which the first
  runs on CPU 0.
\<close>

definition boot_tsys :: tsys where
  "boot_tsys = \<lparr>store = \<lambda>_. zero_task, ready_head = 0, next_pid = 1, current_task = \<lambda>_. 0,
     resched_pending = \<lambda>_. False, tss_esp0 = \<lambda>_. 0, cpu_cr3 = \<lambda>_. 0, tick_count = 0, cpu_count = 1,
     vm = sample_vm\<rparr>"

definition two_tasks :: tsys where
  "two_tasks = boot_tsys\<lparr>store := (\<lambda>_. zero_task)
      (0x2000 := \<lparr>pid = 1, tstate = TASK_RUNNING, cpu_assigned = 0, page_dir = pg 1, kernel_esp = 0x6FBC,
         kernel_stack_base = 0x3000, wakeup_tick = 0, link = 0x7000\<rparr>,
       0x7000 := \<lparr>pid = 2, tstate = TASK_READY, cpu_assigned = -1, page_dir = pg 1, kernel_esp = 0xBFBC,
         kernel_stack_base = 0x8000, wakeup_tick = 0, link = 0x2000\<rparr>),
     ready_head := 0x2000, next_pid := 3, current_task := (\<lambda>_. 0)(0 := 0x2000),
     vm := sample_vm\<lparr>frames := \<lparr>bitmap = \<lambda>_. -1, total_frames = 16\<rparr>\<rparr>\<rparr>"

lemma boot_tsys_start: "task_start boot_tsys"
  using sample_vm_wf by (simp add: task_start_def boot_tsys_def vm_wf_def)

lemma two_tasks_ring: "ring (store two_tasks) (ready_head two_tasks) [0x2000, 0x7000]"
  by (simp add: ring_def two_tasks_def)

lemma two_tasks_current: "current_task two_tasks 0 = 0x2000" "runnable 0 (store two_tasks) 0x7000"
  by (simp_all add: two_tasks_def runnable_def)

lemma two_tasks_ok: "sched_ok two_tasks [0x2000, 0x7000]"
proof -
  have "pfa_wf (frames (vm two_tasks))" by (simp add: two_tasks_def) code_simp
  moreover have "stack_frames 0x3000 = {3, 4, 5, 6}" "stack_frames 0x8000 = {8, 9, 10, 11}"
    "FRAME 0x2000 = 2" "FRAME 0x7000 = 7" by (simp_all add: stack_frames_def) code_simp+
  moreover have "test_bit \<lparr>bitmap = \<lambda>_. -1, total_frames = 16\<rparr> f" for f
    by (simp add: test_bit_iff)
  ultimately have "tasks_mem two_tasks [0x2000, 0x7000]"
    by (simp add: tasks_mem_def owns_frames_def task_frames_def two_tasks_def sample_vm_def ADDR_def
          FRAME_def pfa_consts)
  then show ?thesis using two_tasks_ring by (simp add: sched_ok_def tasks_cpu_def two_tasks_def task_states)
qed



text \<open>
  C21: a context switch is round robin. Whatever state the task leaves in, the task that runs
  next is the first one after it in the order of the ready list that is ready, has a stack
  and is free or bound to this CPU; it becomes running on this CPU with its own page directory,
  and its saved stack pointer is returned. Only when there is no such task does the switch
  return 0, and then the task goes on running.
\<close>

theorem task_switch_round_robin:
  assumes "ring (store s) (ready_head s) ts" and "current_task s cpu \<in> set ts"
  shows "\<exists>r s'. task_switch_from cpu esp ns w s = Some (r, s') \<and> ring (store s') (ready_head s') ts \<and>
    (case find (runnable cpu (store s)) (others (current_task s cpu) ts) of
       None \<Rightarrow> r = 0 \<and> current_task s' = current_task s \<and>
         store s' = (store s)(current_task s cpu := park cpu esp TASK_RUNNING w (store s (current_task s cpu)))
     | Some n \<Rightarrow> r = kernel_esp (store s n) \<and> r \<noteq> 0 \<and> current_task s' = (current_task s)(cpu := n) \<and>
         cpu_cr3 s' cpu = page_dir (store s n) \<and>
         store s' = (store s)(current_task s cpu := park cpu esp ns w (store s (current_task s cpu)),
                              n := (store s n)\<lparr>tstate := TASK_RUNNING, cpu_assigned := int cpu\<rparr>))"
proof -
  note o = path_others(2) [OF assms]
  from task_switch_from_ring [OF assms(1) refl assms(2)] obtain res where "task_switch_from cpu esp ns w s = Some res"
    by blast
  then obtain r s' where s': "task_switch_from cpu esp ns w s = Some (r, s')" by (cases res) simp
  have "ring (store s') (ready_head s') ts"
    using assms(1) s' by (subst ring_cong [of _ _ "store s"])
      (auto simp: task_switch_from_ring [OF assms(1) refl assms(2)] split: option.splits)
  moreover have "kernel_esp (store s n) \<noteq> 0 \<and> n \<noteq> current_task s cpu"
    if "find (runnable cpu (store s)) (others (current_task s cpu) ts) = Some n" for n
    using find_Some_mem [OF that] o by (auto simp: runnable_def)
  ultimately show ?thesis
    using s' by (cases "find (runnable cpu (store s)) (others (current_task s cpu) ts)")
      (auto simp: task_switch_from_ring [OF assms(1) refl assms(2)])
qed

theorem task_switch_round_robin_witness:
  "ring (store two_tasks) (ready_head two_tasks) [0x2000, 0x7000] \<and> current_task two_tasks 0 \<in> set [0x2000, 0x7000] \<and>
   find (runnable 0 (store two_tasks)) (others (current_task two_tasks 0) [0x2000, 0x7000]) = Some 0x7000 \<and>
   (\<exists>r s'. task_switch_from 0 0x6F00 TASK_BLOCKED 5 two_tasks = Some (r, s') \<and> current_task s' 0 = 0x7000)"
proof -
  note c = two_tasks_current
  then have "find (runnable 0 (store two_tasks)) (others (current_task two_tasks 0) [0x2000, 0x7000]) = Some 0x7000"
    by (simp add: others_def)
  with c two_tasks_ring task_switch_round_robin [of two_tasks "[0x2000, 0x7000]" 0 "0x6F00" TASK_BLOCKED 5]
  show ?thesis by auto
qed

text \<open>
  C18: no runnable task waits for ever. As long as one CPU's tasks yield, a task of the ready
  list that could run there is that CPU's current task after at most as many yields as there
  are other tasks in the list.
\<close>

theorem yields_are_fair:
  assumes "sched_ok s ts" and "current_task s cpu \<noteq> 0" and "t \<in> set ts" and "runnable cpu (store s) t"
    and "length ts \<le> Suc (length es)"
  shows "\<exists>k < length ts. \<exists>s'. yields cpu (take k es) s = Some s' \<and> sched_ok s' ts \<and> current_task s' cpu = t"
proof -
  let ?c = "current_task s cpu"
  from assms(1) have q: "ring (store s) (ready_head s) ts" "tasks_cpu s ts" by (auto simp: sched_ok_def)
  note c = tasks_cpuD(1,2) [OF q(2) assms(2)]
  have "t \<noteq> ?c" using c(2) assms(4) by (auto simp: runnable_def task_states)
  with assms(3) path_others(2) [OF q(1) c(1)] obtain pre post where o: "others ?c ts = pre @ t # post"
    by (metis DiffI singletonD split_list)
  moreover have "length (others ?c ts) = length ts - 1"
    using path_others [OF q(1) c(1)] c(1) q(1) by (metis card_Diff_singleton distinct_card ring_def)
  ultimately have "Suc (length pre) < length ts" "length pre < length es" using assms(5) by auto
  with yields_reach [OF assms(1) refl assms(2,4) o, of es] show ?thesis by (meson le_less_trans)
qed

theorem yields_are_fair_witness:
  "sched_ok two_tasks [0x2000, 0x7000] \<and> runnable 0 (store two_tasks) 0x7000 \<and>
   (\<exists>k < length [0x2000, 0x7000 :: u32]. \<exists>s'. yields 0 (take k [0x6F00]) two_tasks = Some s' \<and> current_task s' 0 = 0x7000)"
  using yields_are_fair [OF two_tasks_ok, of 0 "0x7000" "[0x6F00]"] two_tasks_ok two_tasks_current by auto



text \<open>
  C39: the timer interrupt of the boot processor. It returns, counts one tick, and, when it
  gets the scheduler lock, makes exactly those tasks of the ready list ready that are blocked
  with a wake-up time that has come; it changes no other task and no order, and asks for a
  reschedule here and, by interrupt 0x51, on the other CPUs.
\<close>

theorem timer_wakes_sleepers:
  assumes "ring (store s) (ready_head s) ts"
  shows "\<exists>s'. timer_handler 0 lock_free s = Some s' \<and> ring (store s') (ready_head s') ts \<and>
    tick_count s' = tick_count s + 1 \<and> resched_pending s' 0 \<and> current_task s' = current_task s \<and>
    ipis (vm s') = (if cpu_count s > 1 then 0x51 # ipis (vm s) else ipis (vm s)) \<and>
    (\<forall>t. store s' t =
       (if lock_free \<and> t \<in> set ts \<and> tstate (store s t) = TASK_BLOCKED \<and> wakeup_tick (store s t) \<noteq> 0 \<and>
           wakeup_tick (store s t) \<le> tick_count s + 1
        then (store s t)\<lparr>tstate := TASK_READY, wakeup_tick := 0\<rparr> else store s t))"
proof -
  obtain s' where s': "timer_handler 0 lock_free s = Some s'"
    using timer_handler_ring [OF assms, of 0 lock_free] by (auto simp: Let_def)
  have "ring (store s') (ready_head s') ts"
    using assms s' by (subst ring_cong [of _ _ "store s"]) (auto simp: timer_handler_ring [OF assms] Let_def)
  with s' show ?thesis
    by (auto simp: timer_handler_ring [OF assms] Let_def wake_all_def woken_def)
qed

theorem timer_wakes_sleepers_witness:
  "let s = two_tasks\<lparr>store := (store two_tasks)(0x7000 := (store two_tasks 0x7000)\<lparr>tstate := TASK_BLOCKED, wakeup_tick := 1\<rparr>)\<rparr>
   in ring (store s) (ready_head s) [0x2000, 0x7000] \<and>
      (\<exists>s'. timer_handler 0 True s = Some s' \<and> tstate (store s' 0x7000) = TASK_READY)"
proof -
  let ?s = "two_tasks\<lparr>store := (store two_tasks)(0x7000 := (store two_tasks 0x7000)\<lparr>tstate := TASK_BLOCKED, wakeup_tick := 1\<rparr>)\<rparr>"
  have r: "ring (store ?s) (ready_head ?s) [0x2000, 0x7000]" by (simp add: ring_def two_tasks_def)
  have "tick_count ?s = 0" by (simp add: two_tasks_def boot_tsys_def)
  with timer_wakes_sleepers [OF r, of True] show ?thesis using r by (auto simp: Let_def)
qed



end
