(* ===== verification/Nvfs.thy ===== *)
theory Nvfs
  imports Memory
begin

text \<open>
  The file system of \<^verbatim>\<open>kernel/drivers/nvfs.c\<close>, one definition per function. A sector is a map
  from offsets to bytes of which the first 512 matter; C strings are lists without the final
  zero. The ATA driver below is a map from sectors to contents together with a sequence of
  faults: the head of the sequence tells whether the next transfer fails, so every I/O error
  path of the code is a branch of the model. A failed write leaves the sector as it was.
  The lock around each public function makes it one step.
\<close>

section \<open>Constants and structures\<close>

definition NVFS_SECTOR_SIZE :: u32 where [simp]: "NVFS_SECTOR_SIZE = 512"
definition NVFS_INODE_SIZE :: u32 where [simp]: "NVFS_INODE_SIZE = 128"
definition NVFS_DIRENT_SIZE :: nat where [simp]: "NVFS_DIRENT_SIZE = 32"
definition NVFS_MAX_EXTENTS :: nat where [simp]: "NVFS_MAX_EXTENTS = 14"
definition NVFS_DIRECT_EXTENTS :: nat where [simp]: "NVFS_DIRECT_EXTENTS = 13"
definition NVFS_INDIRECT_ENTS :: nat where [simp]: "NVFS_INDIRECT_ENTS = 64"
definition NVFS_INDIRECT_MARKER :: u32 where [simp]: "NVFS_INDIRECT_MARKER = 0xFFFFFFFF"
definition NVFS_MAX_NAME :: nat where [simp]: "NVFS_MAX_NAME = 27"
definition NVFS_ROOT_INODE :: u32 where [simp]: "NVFS_ROOT_INODE = 0"
definition NVFS_TYPE_FILE :: u8 where [simp]: "NVFS_TYPE_FILE = 1"
definition NVFS_TYPE_DIR :: u8 where [simp]: "NVFS_TYPE_DIR = 2"
definition NVFS_ERR_NOT_FOUND :: int where [simp]: "NVFS_ERR_NOT_FOUND = 1"
definition NVFS_ERR_NOT_DIR :: int where [simp]: "NVFS_ERR_NOT_DIR = 2"
definition NVFS_ERR_NOT_FILE :: int where [simp]: "NVFS_ERR_NOT_FILE = 3"
definition NVFS_ERR_DIR_BUSY :: int where [simp]: "NVFS_ERR_DIR_BUSY = 4"
definition NVFS_ERR_NO_SPACE :: int where [simp]: "NVFS_ERR_NO_SPACE = 5"
definition NVFS_ERR_NO_INODE :: int where [simp]: "NVFS_ERR_NO_INODE = 6"
definition NVFS_ERR_EXISTS :: int where [simp]: "NVFS_ERR_EXISTS = 7"
definition NVFS_ERR_IO :: int where [simp]: "NVFS_ERR_IO = 8"
definition NVFS_ERR_NO_MOUNT :: int where [simp]: "NVFS_ERR_NO_MOUNT = 9"
definition NVFS_ERR_PATH :: int where [simp]: "NVFS_ERR_PATH = 10"
definition EXTENT_CACHE_MAX :: nat where [simp]: "EXTENT_CACHE_MAX = NVFS_DIRECT_EXTENTS + NVFS_INDIRECT_ENTS"

type_synonym sector = "nat \<Rightarrow> u8"

record nvfs_extent =
  ext_start :: u32
  ext_count :: u32

record nvfs_inode =
  isize :: u32
  itype :: u8
  ctime :: "u8 list"
  extent_count :: u32
  extents :: "nvfs_extent list"
  mtime :: u32

record fs =
  ata_exists :: "nat \<Rightarrow> nat \<Rightarrow> bool"
  disks :: "nat \<Rightarrow> nat \<Rightarrow> u32 \<Rightarrow> sector"
  faults :: "nat \<Rightarrow> bool"
  fs_ticks :: u32
  nvfs_errno :: int
  mounted :: bool
  nvfs_ch :: nat
  nvfs_dr :: nat
  nvfs_cwd :: u32
  sb_data_start :: u32
  sb_inode_start :: u32
  sb_inode_count :: u32
  sb_inode_blocks :: u32
  sb_bitmap_start :: u32
  sb_bitmap_sectors :: u32
  nvfs_offset :: u32

definition fail_with :: "int \<Rightarrow> fs \<Rightarrow> fs" where
  "fail_with e s = s\<lparr>nvfs_errno := e\<rparr>"

text \<open>\<open>*(unsigned int *)(buf + i)\<close>\<close>

definition get32 :: "sector \<Rightarrow> nat \<Rightarrow> u32" where
  "get32 buf i = de32 (buf i) (buf (i + 1)) (buf (i + 2)) (buf (i + 3))"

definition put32 :: "nat \<Rightarrow> u32 \<Rightarrow> sector \<Rightarrow> sector" where
  "put32 i v buf = buf(i := byte_of 0 v, i + 1 := byte_of 8 v, i + 2 := byte_of 16 v, i + 3 := byte_of 24 v)"

section \<open>Sectors and blocks\<close>

text \<open>
  One-sector transfers of the ATA driver. The device registers carry 28 bits of the sector
  number.
\<close>

definition sectors :: "fs \<Rightarrow> u32 \<Rightarrow> sector" where
  "sectors s lba = disks s (nvfs_ch s) (nvfs_dr s) (lba AND 0x0FFFFFFF)"

definition put_sector :: "u32 \<Rightarrow> sector \<Rightarrow> fs \<Rightarrow> fs" where
  "put_sector lba buf s =
     s\<lparr>disks := (disks s)(nvfs_ch s := (disks s (nvfs_ch s))(nvfs_dr s :=
        (disks s (nvfs_ch s) (nvfs_dr s))(lba AND 0x0FFFFFFF := buf)))\<rparr>"

definition ata_fails :: "fs \<Rightarrow> bool" where
  "ata_fails s \<longleftrightarrow> \<not> ata_exists s (nvfs_ch s) (nvfs_dr s) \<or> faults s 0"

definition next_fault :: "fs \<Rightarrow> fs" where
  "next_fault s = s\<lparr>faults := \<lambda>n. faults s (Suc n)\<rparr>"

definition read_sector :: "u32 \<Rightarrow> fs \<Rightarrow> sector option \<times> fs" where
  "read_sector lba s = (if ata_fails s then None else Some (sectors s lba), next_fault s)"

definition write_sector :: "u32 \<Rightarrow> sector \<Rightarrow> fs \<Rightarrow> int \<times> fs" where
  "write_sector lba buf s =
     (if ata_fails s then (-1, next_fault s) else (0, put_sector lba buf (next_fault s)))"

definition read_block :: "u32 \<Rightarrow> fs \<Rightarrow> sector option \<times> fs" where
  "read_block block s = read_sector (nvfs_offset s + sb_data_start s + block) s"

definition write_block :: "u32 \<Rightarrow> sector \<Rightarrow> fs \<Rightarrow> int \<times> fs" where
  "write_block block buf s = write_sector (nvfs_offset s + sb_data_start s + block) buf s"

section \<open>The block bitmap\<close>

definition bits_per_sec :: u32 where "bits_per_sec = NVFS_SECTOR_SIZE * 8"

definition bitmap_sec :: "fs \<Rightarrow> u32 \<Rightarrow> u32" where
  "bitmap_sec s block = nvfs_offset s + sb_bitmap_start s + block div bits_per_sec"

definition buf_bit :: "sector \<Rightarrow> u32 \<Rightarrow> bool" where
  "buf_bit buf b \<longleftrightarrow> drop_bit (unat (b mod 8)) (buf (unat (b div 8))) AND 1 \<noteq> 0"

definition bitmap_test :: "u32 \<Rightarrow> fs \<Rightarrow> int \<times> fs" where
  "bitmap_test block s =
     (case read_sector (bitmap_sec s block) s of
        (None, s) \<Rightarrow> (-1, s)
      | (Some buf, s) \<Rightarrow> (if buf_bit buf (block mod bits_per_sec) then 1 else 0, s))"

definition set_buf_bit :: "u32 \<Rightarrow> bool \<Rightarrow> sector \<Rightarrow> sector" where
  "set_buf_bit b used buf =
     (let i = unat (b div 8); m = push_bit (unat (b mod 8)) 1
      in buf(i := if used then buf i OR m else buf i AND NOT m))"

definition bitmap_set :: "u32 \<Rightarrow> bool \<Rightarrow> fs \<Rightarrow> int \<times> fs" where
  "bitmap_set block used s =
     (let sec = bitmap_sec s block
      in case read_sector sec s of
           (None, s) \<Rightarrow> (-1, s)
         | (Some buf, s) \<Rightarrow> write_sector sec (set_buf_bit (block mod bits_per_sec) used buf) s)"

text \<open>
  The loops of \<open>bitmap_find\<close>, with the number of rounds left as first argument: the blocks
  after a free one, the bits of a sector, the sectors.
\<close>

fun run_ok :: "nat \<Rightarrow> u32 \<Rightarrow> u32 \<Rightarrow> fs \<Rightarrow> bool \<times> fs" where
  "run_ok 0 j first s = (True, s)"
| "run_ok (Suc n) j first s =
     (case bitmap_test (first + j) s of
        (r, s) \<Rightarrow> if r \<noteq> 0 then (False, s) else run_ok n (j + 1) first s)"

fun find_bit :: "nat \<Rightarrow> u32 \<Rightarrow> u32 \<Rightarrow> u32 \<Rightarrow> u32 \<Rightarrow> sector \<Rightarrow> fs \<Rightarrow> u32 option \<times> fs" where
  "find_bit 0 b base total_bits count buf s = (None, s)"
| "find_bit (Suc n) b base total_bits count buf s =
     (if \<not> base + b < total_bits then (None, s)
      else if buf_bit buf b then find_bit n (b + 1) base total_bits count buf s
      else if count = 1 then (Some (base + b), s)
      else case run_ok (unat count - 1) 1 (base + b) s of
             (True, s) \<Rightarrow> (Some (base + b), s)
           | (False, s) \<Rightarrow> find_bit n (b + 1) base total_bits count buf s)"

fun find_sec :: "nat \<Rightarrow> u32 \<Rightarrow> u32 \<Rightarrow> fs \<Rightarrow> int \<times> fs" where
  "find_sec 0 sec count s = (-1, s)"
| "find_sec (Suc n) sec count s =
     (case read_sector (nvfs_offset s + sb_bitmap_start s + sec) s of
        (None, s) \<Rightarrow> (-1, s)
      | (Some buf, s) \<Rightarrow>
          (case find_bit (unat bits_per_sec) 0 (sec * bits_per_sec) (sb_bitmap_sectors s * bits_per_sec) count buf s of
             (Some first, s) \<Rightarrow> (sint first, s)
           | (None, s) \<Rightarrow> find_sec n (sec + 1) count s))"

definition bitmap_find :: "u32 \<Rightarrow> fs \<Rightarrow> int \<times> fs" where
  "bitmap_find count s = find_sec (unat (sb_bitmap_sectors s)) 0 count s"

section \<open>Inodes\<close>

definition get_extents :: "nat \<Rightarrow> sector \<Rightarrow> nat \<Rightarrow> nvfs_extent list" where
  "get_extents n buf p = map (\<lambda>i. \<lparr>ext_start = get32 buf (p + i * 8), ext_count = get32 buf (p + i * 8 + 4)\<rparr>) [0..<n]"

fun put_extents :: "nvfs_extent list \<Rightarrow> nat \<Rightarrow> sector \<Rightarrow> sector" where
  "put_extents [] p buf = buf"
| "put_extents (e # es) p buf = put_extents es (p + 8) (put32 (p + 4) (ext_count e) (put32 p (ext_start e) buf))"

definition get_inode :: "sector \<Rightarrow> nat \<Rightarrow> nvfs_inode" where
  "get_inode buf p =
     \<lparr>isize = get32 buf p, itype = buf (p + 4), ctime = [buf (p + 5), buf (p + 6), buf (p + 7)],
      extent_count = (let c = get32 buf (p + 8) in if c > of_nat NVFS_MAX_EXTENTS then of_nat NVFS_MAX_EXTENTS else c),
      extents = get_extents NVFS_MAX_EXTENTS buf (p + 12), mtime = get32 buf (p + 124)\<rparr>"

definition put_inode :: "nvfs_inode \<Rightarrow> nat \<Rightarrow> sector \<Rightarrow> sector" where
  "put_inode inode p buf =
     (let buf = put32 p (isize inode) buf;
          buf = buf(p + 4 := itype inode, p + 5 := ctime inode ! 0, p + 6 := ctime inode ! 1, p + 7 := ctime inode ! 2);
          buf = put32 (p + 8) (extent_count inode) buf;
          buf = put_extents (extents inode) (p + 12) buf
      in put32 (p + 124) (mtime inode) buf)"

definition inode_sec :: "fs \<Rightarrow> u32 \<Rightarrow> u32" where
  "inode_sec s inum = nvfs_offset s + sb_inode_start s + inum * NVFS_INODE_SIZE div NVFS_SECTOR_SIZE"

definition inode_off :: "u32 \<Rightarrow> nat" where
  "inode_off inum = unat (inum * NVFS_INODE_SIZE mod NVFS_SECTOR_SIZE)"

definition inode_read :: "u32 \<Rightarrow> fs \<Rightarrow> nvfs_inode option \<times> fs" where
  "inode_read inum s =
     (if inum \<ge> sb_inode_count s then (None, fail_with NVFS_ERR_IO s)
      else case read_sector (inode_sec s inum) s of
             (None, s) \<Rightarrow> (None, s)
           | (Some buf, s) \<Rightarrow> (Some (get_inode buf (inode_off inum)), s))"

definition inode_write :: "u32 \<Rightarrow> nvfs_inode \<Rightarrow> fs \<Rightarrow> int \<times> fs" where
  "inode_write inum inode s =
     (if inum \<ge> sb_inode_count s then (-1, fail_with NVFS_ERR_IO s)
      else case read_sector (inode_sec s inum) s of
             (None, s) \<Rightarrow> (-1, s)
           | (Some buf, s) \<Rightarrow> write_sector (inode_sec s inum) (put_inode inode (inode_off inum) buf) s)"

definition sb_write_field :: "nat \<Rightarrow> u32 \<Rightarrow> fs \<Rightarrow> int \<times> fs" where
  "sb_write_field offset val s =
     (case read_sector (nvfs_offset s + 1) s of
        (None, s) \<Rightarrow> (-1, s)
      | (Some buf, s) \<Rightarrow> write_sector (nvfs_offset s + 1) (put32 offset val buf) s)"

definition expand_inode_table :: "fs \<Rightarrow> int \<times> fs" where
  "expand_inode_table s =
     (case bitmap_find 1 s of (blk, s) \<Rightarrow>
      if blk < 0 then (-1, s)
      else let s = snd (bitmap_set (of_int blk) True s)
      in case write_block (of_int blk) (\<lambda>k. 0) s of (r, s) \<Rightarrow>
      if r \<noteq> 0 then (-1, snd (bitmap_set (of_int blk) False s))
      else case sb_write_field 36 (sb_inode_blocks s + 1) s of (r, s) \<Rightarrow>
      if r \<noteq> 0 then (-1, snd (bitmap_set (of_int blk) False s))
      else let s = s\<lparr>sb_inode_blocks := sb_inode_blocks s + 1\<rparr>;
               s = s\<lparr>sb_inode_count := sb_inode_blocks s * (NVFS_SECTOR_SIZE div NVFS_INODE_SIZE)\<rparr>
      in case sb_write_field 28 (sb_inode_count s) s of (r, s) \<Rightarrow>
      if r \<noteq> 0
      then let s = s\<lparr>sb_inode_count := (sb_inode_blocks s - 1) * (NVFS_SECTOR_SIZE div NVFS_INODE_SIZE)\<rparr>;
               s = s\<lparr>sb_inode_blocks := sb_inode_blocks s - 1\<rparr>
           in (-1, snd (bitmap_set (of_int blk) False s))
      else (0, s))"

definition indirect_read_extents :: "u32 \<Rightarrow> nat \<Rightarrow> fs \<Rightarrow> nvfs_extent list option \<times> fs" where
  "indirect_read_extents lba mx s =
     (case read_block lba s of
        (None, s) \<Rightarrow> (None, s)
      | (Some buf, s) \<Rightarrow> (Some (get_extents (min mx NVFS_INDIRECT_ENTS) buf 0), s))"

definition indirect_write_extents :: "u32 \<Rightarrow> nvfs_extent list \<Rightarrow> fs \<Rightarrow> int \<times> fs" where
  "indirect_write_extents lba exts s = write_block lba (put_extents (take NVFS_INDIRECT_ENTS exts) 0 (\<lambda>k. 0)) s"

definition indirect_alloc :: "fs \<Rightarrow> int \<times> fs" where
  "indirect_alloc s =
     (case bitmap_find 1 s of (blk, s) \<Rightarrow>
      if blk < 0 then (-1, s)
      else case write_block (of_int blk) (\<lambda>k. 0) s of (r, s) \<Rightarrow>
      if r \<noteq> 0 then (-1, s) else (blk, snd (bitmap_set (of_int blk) True s)))"

definition extent_load_all :: "nvfs_inode \<Rightarrow> nat \<Rightarrow> fs \<Rightarrow> nvfs_extent list option \<times> fs" where
  "extent_load_all inode mx s =
     (let n = unat (extent_count inode); direct = min (min n NVFS_DIRECT_EXTENTS) mx;
          out = take direct (extents inode)
      in if n \<le> NVFS_DIRECT_EXTENTS then (Some out, s)
         else case indirect_read_extents (ext_start (extents inode ! NVFS_DIRECT_EXTENTS))
                     (min (n - NVFS_DIRECT_EXTENTS) (mx - direct)) s of
                (None, s) \<Rightarrow> (None, s)
              | (Some rest, s) \<Rightarrow> (Some (out @ rest), s))"

text \<open>The blocks that the nested loops over extents visit.\<close>

definition blocks_of :: "nvfs_extent list \<Rightarrow> u32 list" where
  "blocks_of exts = concat (map (\<lambda>e. map (\<lambda>j. ext_start e + of_nat j) [0..<unat (ext_count e)]) exts)"

definition now_sec :: "fs \<Rightarrow> u32" where
  "now_sec s = fs_ticks s div 100"

definition inode_set_ctime :: "u32 \<Rightarrow> nvfs_inode \<Rightarrow> nvfs_inode" where
  "inode_set_ctime t inode =
     inode\<lparr>ctime := [ucast (t AND 0xFF), ucast (drop_bit 8 t AND 0xFF), ucast (drop_bit 16 t AND 0xFF)]\<rparr>"

definition fresh_inode :: "u8 \<Rightarrow> u32 \<Rightarrow> nvfs_inode \<Rightarrow> nvfs_inode" where
  "fresh_inode ty t inode =
     (inode_set_ctime t inode)\<lparr>isize := 0, itype := ty, mtime := t, extent_count := 0,
        extents := replicate NVFS_MAX_EXTENTS \<lparr>ext_start = 0, ext_count = 0\<rparr>\<rparr>"

text \<open>One of the two search loops of \<open>inode_alloc\<close>; \<open>None\<close> when it ends without returning.\<close>

fun inode_scan :: "nat \<Rightarrow> u32 \<Rightarrow> u8 \<Rightarrow> fs \<Rightarrow> int option \<times> fs" where
  "inode_scan 0 i ty s = (None, s)"
| "inode_scan (Suc n) i ty s =
     (case inode_read i s of
        (None, s) \<Rightarrow> inode_scan n (i + 1) ty s
      | (Some inode, s) \<Rightarrow>
          if itype inode = 0
          then case inode_write i (fresh_inode ty (now_sec s) inode) s of (r, s) \<Rightarrow>
               if r \<noteq> 0 then (Some (-1), fail_with NVFS_ERR_IO s) else (Some (sint i), s)
          else inode_scan n (i + 1) ty s)"

definition inode_alloc :: "u8 \<Rightarrow> fs \<Rightarrow> int \<times> fs" where
  "inode_alloc ty s =
     (case inode_scan (unat (sb_inode_count s) - 1) 1 ty s of
        (Some r, s) \<Rightarrow> (r, s)
      | (None, s) \<Rightarrow>
          (case expand_inode_table s of (r, s) \<Rightarrow>
           if r \<noteq> 0 then (-1, fail_with NVFS_ERR_NO_INODE s)
           else let per = NVFS_SECTOR_SIZE div NVFS_INODE_SIZE; i = sb_inode_count s - per
                in case inode_scan (unat (sb_inode_count s) - unat i) i ty s of
                     (Some r, s) \<Rightarrow> (r, s)
                   | (None, s) \<Rightarrow> (-1, fail_with NVFS_ERR_NO_INODE s)))"

definition free_blocks :: "u32 list \<Rightarrow> fs \<Rightarrow> fs" where
  "free_blocks bs s = fold (\<lambda>b s. snd (bitmap_set b False s)) bs s"

definition inode_free :: "u32 \<Rightarrow> fs \<Rightarrow> int \<times> fs" where
  "inode_free inum s =
     (if inum = 0 \<or> inum \<ge> sb_inode_count s then (-1, s)
      else case inode_read inum s of
             (None, s) \<Rightarrow> (-1, s)
           | (Some inode, s) \<Rightarrow>
               (case extent_load_all inode EXTENT_CACHE_MAX s of
                  (None, s) \<Rightarrow> (-1, s)
                | (Some cache, s) \<Rightarrow>
                    let s = free_blocks (blocks_of cache) s;
                        s = (if unat (extent_count inode) > NVFS_DIRECT_EXTENTS
                             then snd (bitmap_set (ext_start (extents inode ! NVFS_DIRECT_EXTENTS)) False s) else s)
                    in inode_write inum (inode\<lparr>itype := 0, isize := 0, extent_count := 0\<rparr>) s))"

section \<open>File contents\<close>

text \<open>The copy loop of \<open>extent_read\<close>; \<open>left\<close> is \<open>remain - pos\<close>.\<close>

fun read_blocks :: "u32 list \<Rightarrow> nat \<Rightarrow> fs \<Rightarrow> u8 list option \<times> fs" where
  "read_blocks [] left s = (Some [], s)"
| "read_blocks (b # bs) left s =
     (if left = 0 then (Some [], s)
      else case read_block b s of
             (None, s) \<Rightarrow> (None, s)
           | (Some tmp, s) \<Rightarrow>
               (case read_blocks bs (left - min 512 left) s of
                  (None, s) \<Rightarrow> (None, s)
                | (Some ys, s) \<Rightarrow> (Some (map tmp [0..<min 512 left] @ ys), s)))"

definition extent_read :: "nvfs_inode \<Rightarrow> u32 \<Rightarrow> fs \<Rightarrow> u8 list option \<times> fs" where
  "extent_read inode mx s =
     (case extent_load_all inode EXTENT_CACHE_MAX s of
        (None, s) \<Rightarrow> (None, s)
      | (Some cache, s) \<Rightarrow> read_blocks (blocks_of cache) (unat (min (isize inode) mx)) s)"

text \<open>
  The write loop of \<open>extent_write\<close>: rounds left, next block, next position in the caller's
  data. It returns the number of blocks written. As in the code, the number of bytes
  copied into each block is bounded by the size of the whole file, not by what is left of it,
  so the last block of a longer file takes bytes from behind the caller's data.
\<close>

fun write_blocks :: "nat \<Rightarrow> u32 \<Rightarrow> nat \<Rightarrow> nat \<Rightarrow> (nat \<Rightarrow> u8) \<Rightarrow> fs \<Rightarrow> nat \<times> fs" where
  "write_blocks 0 block pos remain data s = (0, s)"
| "write_blocks (Suc n) block pos remain data s =
     (let copy = min 512 remain
      in case write_block block (\<lambda>k. if k < copy then data (pos + k) else 0) s of (r, s) \<Rightarrow>
         if r \<noteq> 0 then (0, s)
         else case write_blocks n (block + 1) (pos + copy) remain data (snd (bitmap_set block True s)) of
                (j, s) \<Rightarrow> (Suc j, s))"

definition extent_write :: "nvfs_inode \<Rightarrow> (nat \<Rightarrow> u8) \<Rightarrow> u32 \<Rightarrow> fs \<Rightarrow> int \<times> nvfs_inode \<times> fs" where
  "extent_write inode data sz s =
     (let needed = (sz + NVFS_SECTOR_SIZE - 1) div NVFS_SECTOR_SIZE
      in if sz = 0 then (0, inode\<lparr>isize := 0, extent_count := 0\<rparr>, s)
         else case bitmap_find needed s of (first, s) \<Rightarrow>
         if first < 0 then (-1, inode, s)
         else case write_blocks (unat needed) (of_int first) 0 (unat sz) data s of (j, s) \<Rightarrow>
         if j < unat needed
         then (-1, inode, free_blocks (map (\<lambda>k. of_int first + of_nat k) [0..<j]) s)
         else (0, inode\<lparr>isize := sz, extent_count := 1,
                 extents := \<lparr>ext_start = of_int first, ext_count = needed\<rparr> #
                   replicate (NVFS_MAX_EXTENTS - 1) \<lparr>ext_start = 0, ext_count = 0\<rparr>\<rparr>, s))"

section \<open>Directories\<close>

text \<open>The entry at index \<open>e\<close> of a directory block: 28 bytes of name, then the inode number.\<close>

definition de_inode :: "sector \<Rightarrow> nat \<Rightarrow> u32" where
  "de_inode tmp e = get32 tmp (e * NVFS_DIRENT_SIZE + 28)"

definition de_name :: "sector \<Rightarrow> nat \<Rightarrow> nat \<Rightarrow> u8" where
  "de_name tmp e k = tmp (e * NVFS_DIRENT_SIZE + k)"

definition de_match :: "u8 list \<Rightarrow> sector \<Rightarrow> nat \<Rightarrow> bool" where
  "de_match name tmp e \<longleftrightarrow> de_inode tmp e \<noteq> 0 \<and>
     (let len = min (length name) NVFS_MAX_NAME
      in (\<forall>k \<in> {0..<len}. de_name tmp e k = name ! k) \<and> de_name tmp e len = 0)"

fun find_entry :: "u8 list \<Rightarrow> u32 list \<Rightarrow> fs \<Rightarrow> int \<times> fs" where
  "find_entry name [] s = (-1, fail_with NVFS_ERR_NOT_FOUND s)"
| "find_entry name (b # bs) s =
     (case read_block b s of
        (None, s) \<Rightarrow> (-1, fail_with NVFS_ERR_IO s)
      | (Some tmp, s) \<Rightarrow>
          (case find (de_match name tmp) [0..<16] of
             Some e \<Rightarrow> (sint (de_inode tmp e), s)
           | None \<Rightarrow> find_entry name bs s))"

definition dir_find :: "u32 \<Rightarrow> u8 list \<Rightarrow> fs \<Rightarrow> int \<times> fs" where
  "dir_find dir_inode name s =
     (case inode_read dir_inode s of
        (None, s) \<Rightarrow> (-1, fail_with NVFS_ERR_IO s)
      | (Some inode, s) \<Rightarrow>
          if itype inode \<noteq> NVFS_TYPE_DIR then (-1, fail_with NVFS_ERR_NOT_DIR s)
          else case extent_load_all inode EXTENT_CACHE_MAX s of
                 (None, s) \<Rightarrow> (-1, fail_with NVFS_ERR_IO s)
               | (Some cache, s) \<Rightarrow> find_entry name (blocks_of cache) s)"

definition dir_add_extent :: "nvfs_inode \<Rightarrow> u32 \<Rightarrow> fs \<Rightarrow> int \<times> nvfs_inode \<times> fs" where
  "dir_add_extent inode block s =
     (let n = unat (extent_count inode); entry = \<lparr>ext_start = block, ext_count = 1\<rparr>
      in if n < NVFS_DIRECT_EXTENTS
         then (0, inode\<lparr>extents := (extents inode)[n := entry], extent_count := of_nat (n + 1),
                        isize := isize inode + NVFS_SECTOR_SIZE\<rparr>, s)
         else let need_alloc = (n = NVFS_DIRECT_EXTENTS)
         in case (if need_alloc then indirect_alloc s
                  else (uint (ext_start (extents inode ! NVFS_DIRECT_EXTENTS)), s)) of (ind, s) \<Rightarrow>
         if need_alloc \<and> ind < 0 then (-1, inode, fail_with NVFS_ERR_NO_SPACE s)
         else let ind_lba = of_int ind;
                  inode = (if need_alloc
                           then inode\<lparr>extents := (extents inode)[NVFS_DIRECT_EXTENTS :=
                                  \<lparr>ext_start = ind_lba, ext_count = NVFS_INDIRECT_MARKER\<rparr>]\<rparr> else inode);
                  undo = (\<lambda>e s. let s = fail_with e s
                       in if need_alloc
                          then (-1, inode\<lparr>extents := (extents inode)[NVFS_DIRECT_EXTENTS := \<lparr>ext_start = 0, ext_count = 0\<rparr>]\<rparr>,
                                snd (bitmap_set ind_lba False s))
                          else (-1, inode, s));
                  indirect_count = n - NVFS_DIRECT_EXTENTS
         in case (if indirect_count > 0 then indirect_read_extents ind_lba NVFS_INDIRECT_ENTS s else (Some [], s)) of
              (None, s) \<Rightarrow> undo NVFS_ERR_IO s
            | (Some ibuf, s) \<Rightarrow>
                if indirect_count \<ge> NVFS_INDIRECT_ENTS then undo NVFS_ERR_NO_SPACE s
                else case indirect_write_extents ind_lba (take indirect_count ibuf @ [entry]) s of (r, s) \<Rightarrow>
                     if r \<noteq> 0 then undo NVFS_ERR_IO s
                     else (0, inode\<lparr>extent_count := of_nat (NVFS_DIRECT_EXTENTS + (indirect_count + 1)),
                                    isize := isize inode + NVFS_SECTOR_SIZE\<rparr>, s))"

text \<open>The 32 bytes of a new entry, and writing them at an offset of a block.\<close>

definition new_dirent :: "u8 list \<Rightarrow> u32 \<Rightarrow> sector" where
  "new_dirent name child =
     put32 28 child (\<lambda>k. if k < NVFS_MAX_NAME \<and> k < min (length name) NVFS_MAX_NAME then name ! k else 0)"

definition put_dirent :: "sector \<Rightarrow> nat \<Rightarrow> sector \<Rightarrow> sector" where
  "put_dirent nd off tmp = (\<lambda>k. if off \<le> k \<and> k < off + 32 then nd (k - off) else tmp k)"

fun add_entry :: "u32 \<Rightarrow> nvfs_inode \<Rightarrow> sector \<Rightarrow> u32 list \<Rightarrow> fs \<Rightarrow> int option \<times> fs" where
  "add_entry dir_inode inode nd [] s = (None, s)"
| "add_entry dir_inode inode nd (b # bs) s =
     (case read_block b s of
        (None, s) \<Rightarrow> (Some (-1), fail_with NVFS_ERR_IO s)
      | (Some tmp, s) \<Rightarrow>
          (case find (\<lambda>e. de_inode tmp e = 0) [0..<16] of
             None \<Rightarrow> add_entry dir_inode inode nd bs s
           | Some e \<Rightarrow>
               (case write_block b (put_dirent nd (e * NVFS_DIRENT_SIZE) tmp) s of (r, s) \<Rightarrow>
                if r \<noteq> 0 then (Some (-1), fail_with NVFS_ERR_IO s)
                else case inode_write dir_inode (inode\<lparr>mtime := now_sec s\<rparr>) s of (r, s) \<Rightarrow> (Some r, s))))"

definition dir_add :: "u32 \<Rightarrow> u8 list \<Rightarrow> u32 \<Rightarrow> fs \<Rightarrow> int \<times> fs" where
  "dir_add dir_inode name child s =
     (case inode_read dir_inode s of
        (None, s) \<Rightarrow> (-1, fail_with NVFS_ERR_IO s)
      | (Some inode, s) \<Rightarrow>
          if itype inode \<noteq> NVFS_TYPE_DIR then (-1, fail_with NVFS_ERR_NOT_DIR s)
          else case dir_find dir_inode name s of (r, s) \<Rightarrow>
          if r \<ge> 0 then (-1, fail_with NVFS_ERR_EXISTS s)
          else case extent_load_all inode EXTENT_CACHE_MAX s of
            (None, s) \<Rightarrow> (-1, fail_with NVFS_ERR_IO s)
          | (Some cache, s) \<Rightarrow>
              (case add_entry dir_inode inode (new_dirent name child) (blocks_of cache) s of
                 (Some r, s) \<Rightarrow> (r, s)
               | (None, s) \<Rightarrow>
                   (case bitmap_find 1 s of (blk, s) \<Rightarrow>
                    if blk < 0 then (-1, fail_with NVFS_ERR_NO_SPACE s)
                    else let s = snd (bitmap_set (of_int blk) True s)
                    in case write_block (of_int blk) (put_dirent (new_dirent name child) 0 (\<lambda>k. 0)) s of (r, s) \<Rightarrow>
                    if r \<noteq> 0 then (-1, fail_with NVFS_ERR_IO s)
                    else case dir_add_extent inode (of_int blk) s of (r, inode, s) \<Rightarrow>
                    if r \<noteq> 0 then (-1, snd (bitmap_set (of_int blk) False s))
                    else case inode_write dir_inode (inode\<lparr>mtime := now_sec s\<rparr>) s of (r, s) \<Rightarrow>
                         (r, if r \<noteq> 0 then fail_with NVFS_ERR_IO s else s))))"

fun remove_entry :: "u32 \<Rightarrow> nvfs_inode \<Rightarrow> u8 list \<Rightarrow> u32 list \<Rightarrow> fs \<Rightarrow> int \<times> fs" where
  "remove_entry dir_inode inode name [] s = (-1, fail_with NVFS_ERR_NOT_FOUND s)"
| "remove_entry dir_inode inode name (b # bs) s =
     (case read_block b s of
        (None, s) \<Rightarrow> (-1, fail_with NVFS_ERR_IO s)
      | (Some tmp, s) \<Rightarrow>
          (case find (de_match name tmp) [0..<16] of
             None \<Rightarrow> remove_entry dir_inode inode name bs s
           | Some e \<Rightarrow>
               (case write_block b (put32 (e * NVFS_DIRENT_SIZE + 28) 0 tmp) s of (r, s) \<Rightarrow>
                if r \<noteq> 0 then (-1, fail_with NVFS_ERR_IO s)
                else inode_write dir_inode (inode\<lparr>mtime := now_sec s\<rparr>) s)))"

definition dir_remove :: "u32 \<Rightarrow> u8 list \<Rightarrow> fs \<Rightarrow> int \<times> fs" where
  "dir_remove dir_inode name s =
     (case inode_read dir_inode s of
        (None, s) \<Rightarrow> (-1, fail_with NVFS_ERR_IO s)
      | (Some inode, s) \<Rightarrow>
          if itype inode \<noteq> NVFS_TYPE_DIR then (-1, fail_with NVFS_ERR_NOT_DIR s)
          else case extent_load_all inode EXTENT_CACHE_MAX s of
                 (None, s) \<Rightarrow> (-1, fail_with NVFS_ERR_IO s)
               | (Some cache, s) \<Rightarrow> remove_entry dir_inode inode name (blocks_of cache) s)"

fun no_entries :: "u32 list \<Rightarrow> fs \<Rightarrow> bool \<times> fs" where
  "no_entries [] s = (True, s)"
| "no_entries (b # bs) s =
     (case read_block b s of
        (None, s) \<Rightarrow> no_entries bs s
      | (Some tmp, s) \<Rightarrow> if \<exists>e \<in> {0..<16}. de_inode tmp e \<noteq> 0 then (False, s) else no_entries bs s)"

definition dir_empty :: "u32 \<Rightarrow> fs \<Rightarrow> bool \<times> fs" where
  "dir_empty dir_inode s =
     (case inode_read dir_inode s of
        (None, s) \<Rightarrow> (False, s)
      | (Some inode, s) \<Rightarrow>
          (case extent_load_all inode EXTENT_CACHE_MAX s of
             (None, s) \<Rightarrow> (False, s)
           | (Some cache, s) \<Rightarrow> no_entries (blocks_of cache) s))"

definition to_upper :: "u8 list \<Rightarrow> u8 list" where
  "to_upper cs = map (\<lambda>c. if 97 \<le> c \<and> c \<le> 122 then c - 32 else c) cs"

fun names_child :: "u32 \<Rightarrow> u32 list \<Rightarrow> fs \<Rightarrow> bool \<times> fs" where
  "names_child inum [] s = (False, s)"
| "names_child inum (b # bs) s =
     (case read_block b s of
        (None, s) \<Rightarrow> names_child inum bs s
      | (Some tmp, s) \<Rightarrow> if \<exists>e \<in> {0..<16}. de_inode tmp e = inum then (True, s) else names_child inum bs s)"

fun parent_scan :: "nat \<Rightarrow> u32 \<Rightarrow> u32 \<Rightarrow> fs \<Rightarrow> int \<times> fs" where
  "parent_scan 0 i inum s = (-1, s)"
| "parent_scan (Suc n) i inum s =
     (case inode_read i s of
        (None, s) \<Rightarrow> parent_scan n (i + 1) inum s
      | (Some inode, s) \<Rightarrow>
          if itype inode \<noteq> NVFS_TYPE_DIR then parent_scan n (i + 1) inum s
          else case extent_load_all inode EXTENT_CACHE_MAX s of
                 (None, s) \<Rightarrow> parent_scan n (i + 1) inum s
               | (Some cache, s) \<Rightarrow>
                   (case names_child inum (blocks_of cache) s of
                      (True, s) \<Rightarrow> (sint i, s)
                    | (False, s) \<Rightarrow> parent_scan n (i + 1) inum s))"

definition find_parent :: "u32 \<Rightarrow> fs \<Rightarrow> int \<times> fs" where
  "find_parent inum s =
     (if inum = NVFS_ROOT_INODE then (-1, s) else parent_scan (unat (sb_inode_count s)) 0 inum s)"

section \<open>Paths\<close>

definition slash :: u8 where [simp]: "slash = 47"
definition dot :: "u8 list" where [simp]: "dot = [46]"
definition dotdot :: "u8 list" where [simp]: "dotdot = [46, 46]"

text \<open>One component before the last slash of a path.\<close>

definition enter :: "u8 list \<Rightarrow> u32 \<Rightarrow> fs \<Rightarrow> u32 option \<times> fs" where
  "enter part cur s =
     (if part = dotdot
      then case find_parent cur s of (p, s) \<Rightarrow>
           if p < 0 then (None, fail_with NVFS_ERR_PATH s) else (Some (of_int p), s)
      else if part = dot then (Some cur, s)
      else case dir_find cur (to_upper part) s of (inum, s) \<Rightarrow>
           if inum < 0 then (None, fail_with NVFS_ERR_NOT_FOUND s)
           else case inode_read (of_int inum) s of
                  (None, s) \<Rightarrow> (None, fail_with NVFS_ERR_IO s)
                | (Some inode, s) \<Rightarrow>
                    if itype inode \<noteq> NVFS_TYPE_DIR then (None, fail_with NVFS_ERR_NOT_DIR s)
                    else (Some (of_int inum), s))"

text \<open>The scan up to the last slash: rounds left, position, start of the component.\<close>

fun resolve_loop :: "nat \<Rightarrow> nat \<Rightarrow> nat \<Rightarrow> nat \<Rightarrow> u32 \<Rightarrow> u8 list \<Rightarrow> fs \<Rightarrow> (u32 \<times> nat) option \<times> fs" where
  "resolve_loop 0 i last_slash seg cur buf s = (Some (cur, seg), s)"
| "resolve_loop (Suc n) i last_slash seg cur buf s =
     (if i = last_slash \<or> buf ! i = slash
      then if i > seg
           then case enter (take (i - seg) (drop seg buf)) cur s of
                  (None, s) \<Rightarrow> (None, s)
                | (Some cur, s) \<Rightarrow> resolve_loop n (i + 1) last_slash (i + 1) cur buf s
           else resolve_loop n (i + 1) last_slash (i + 1) cur buf s
      else resolve_loop n (i + 1) last_slash seg cur buf s)"

text \<open>The last component: the directory it is in, and its name, empty for the directory itself.\<close>

definition resolve_name :: "u8 list \<Rightarrow> u32 \<Rightarrow> fs \<Rightarrow> (u32 \<times> u8 list) option \<times> fs" where
  "resolve_name name cur s =
     (if name = dotdot
      then case find_parent cur s of (p, s) \<Rightarrow>
           if p < 0 then (None, fail_with NVFS_ERR_PATH s) else (Some (of_int p, []), s)
      else if name = dot then (Some (cur, []), s)
      else (Some (cur, to_upper name), s))"

definition resolve_path :: "u8 list \<Rightarrow> fs \<Rightarrow> (u32 \<times> u8 list) option \<times> fs" where
  "resolve_path path s =
     (let buf = take 255 path; len = length buf
      in if len = 0 then (Some (nvfs_cwd s, []), s)
         else let cur = (if buf ! 0 = slash then NVFS_ROOT_INODE else nvfs_cwd s);
                  first = (if buf ! 0 = slash then 1 else 0);
                  slashes = filter (\<lambda>i. buf ! i = slash) [first..<len]
              in if slashes = [] then resolve_name (drop first buf) cur s
                 else case resolve_loop (last slashes + 1 - first) first (last slashes) first cur buf s of
                        (None, s) \<Rightarrow> (None, s)
                      | (Some (cur, seg), s) \<Rightarrow> resolve_name (drop seg buf) cur s)"

section \<open>The public functions\<close>

text \<open>The superblock checks of \<open>nvfs_mount\<close>, and its loop over the drives and partition offsets.\<close>

definition load_superblock :: "sector \<Rightarrow> fs \<Rightarrow> fs" where
  "load_superblock buf s =
     (let s = s\<lparr>sb_bitmap_start := get32 buf 16, sb_bitmap_sectors := get32 buf 20, sb_inode_start := get32 buf 24,
                sb_inode_count := get32 buf 28, sb_data_start := get32 buf 32, sb_inode_blocks := get32 buf 36\<rparr>
      in if sb_inode_blocks s = 0
         then s\<lparr>sb_inode_blocks := sb_inode_count s div (NVFS_SECTOR_SIZE div NVFS_INODE_SIZE)\<rparr> else s)"

definition valid_superblock :: "fs \<Rightarrow> bool" where
  "valid_superblock s \<longleftrightarrow>
     \<not> (sb_bitmap_start s < 2 \<or> sb_bitmap_sectors s = 0 \<or> sb_inode_blocks s = 0 \<or> sb_inode_count s = 0 \<or>
        sb_bitmap_start s + sb_bitmap_sectors s > sb_inode_start s \<or>
        sb_inode_start s + sb_inode_blocks s > sb_data_start s)"

fun mount_try :: "(nat \<times> nat \<times> u32) list \<Rightarrow> fs \<Rightarrow> int \<times> fs" where
  "mount_try [] s = (-1, s)"
| "mount_try ((ch, dr, off) # cs) s =
     (if \<not> ata_exists s ch dr then mount_try cs s
      else let s = s\<lparr>nvfs_ch := ch, nvfs_dr := dr, nvfs_offset := off\<rparr>
      in case read_sector (nvfs_offset s + 1) s of
           (None, s) \<Rightarrow> mount_try cs s
         | (Some buf, s) \<Rightarrow>
             if buf 0 = 78 \<and> buf 1 = 86 \<and> buf 2 = 70 \<and> buf 3 = 83
             then let s = load_superblock buf s
                  in if valid_superblock s then (0, s\<lparr>nvfs_cwd := NVFS_ROOT_INODE, mounted := True\<rparr>)
                     else mount_try cs s
             else mount_try cs s)"

definition nvfs_mount :: "fs \<Rightarrow> int \<times> fs" where
  "nvfs_mount s =
     mount_try [(0, 0, 0), (0, 0, 2880), (0, 1, 0), (0, 1, 2880), (1, 0, 0), (1, 0, 2880), (1, 1, 0), (1, 1, 2880)] s"

text \<open>
  The common start of the functions that take a path to an entry: the checks, and the
  directory and name the path resolves to.
\<close>

definition with_name :: "u8 list \<Rightarrow> fs \<Rightarrow> (u32 \<times> u8 list) option \<times> fs" where
  "with_name path s =
     (if \<not> mounted s then (None, fail_with NVFS_ERR_NO_MOUNT s)
      else case resolve_path path s of
             (None, s) \<Rightarrow> (None, s)
           | (Some (parent, name), s) \<Rightarrow>
               if name = [] then (None, fail_with NVFS_ERR_PATH s) else (Some (parent, name), s))"

text \<open>\<open>dir_find\<close> followed by \<open>inode_read\<close> and the test of the type.\<close>

definition lookup_typed :: "u8 \<Rightarrow> int \<Rightarrow> u32 \<Rightarrow> u8 list \<Rightarrow> fs \<Rightarrow> (u32 \<times> nvfs_inode) option \<times> fs" where
  "lookup_typed ty err parent name s =
     (case dir_find parent name s of (inum, s) \<Rightarrow>
      if inum < 0 then (None, s)
      else case inode_read (of_int inum) s of
             (None, s) \<Rightarrow> (None, fail_with NVFS_ERR_IO s)
           | (Some inode, s) \<Rightarrow>
               if itype inode \<noteq> ty then (None, fail_with err s) else (Some (of_int inum, inode), s))"

definition nvfs_read :: "u8 list \<Rightarrow> u32 \<Rightarrow> fs \<Rightarrow> u8 list option \<times> fs" where
  "nvfs_read path mx s =
     (case with_name path s of
        (None, s) \<Rightarrow> (None, s)
      | (Some (parent, name), s) \<Rightarrow>
          (case lookup_typed NVFS_TYPE_FILE NVFS_ERR_NOT_FILE parent name s of
             (None, s) \<Rightarrow> (None, s)
           | (Some (inum, inode), s) \<Rightarrow> extent_read inode mx s))"

text \<open>
  Replacing the contents of an existing inode: the new blocks are written, then the inode,
  and only then are the old blocks freed. \<open>nvfs_write\<close> and \<open>nvfs_append\<close> share this part.
\<close>

definition replace_contents :: "u32 \<Rightarrow> nvfs_inode \<Rightarrow> (nat \<Rightarrow> u8) \<Rightarrow> u32 \<Rightarrow> fs \<Rightarrow> int \<times> fs" where
  "replace_contents inum inode data sz s =
     (case extent_load_all inode EXTENT_CACHE_MAX s of
        (None, s) \<Rightarrow> (-1, fail_with NVFS_ERR_IO s)
      | (Some old_cache, s) \<Rightarrow>
          let old_ind_blk = (if unat (extent_count inode) > NVFS_DIRECT_EXTENTS
                             then ext_start (extents inode ! NVFS_DIRECT_EXTENTS) else 0)
          in case extent_write inode data sz s of (r, inode, s) \<Rightarrow>
             if r \<noteq> 0 then (-1, fail_with NVFS_ERR_NO_SPACE s)
             else case inode_write inum (inode\<lparr>mtime := now_sec s\<rparr>) s of (r, s) \<Rightarrow>
             if r \<noteq> 0 then (-1, fail_with NVFS_ERR_IO s)
             else let s = free_blocks (blocks_of old_cache) s
                  in (0, if old_ind_blk \<noteq> 0 then snd (bitmap_set old_ind_blk False s) else s))"

text \<open>
  The inode that \<open>nvfs_write\<close> and \<open>nvfs_mkdir\<close> build on the stack; \<open>junk\<close> is what its
  extents hold before they are set.
\<close>

definition stack_inode :: "nvfs_extent list \<Rightarrow> u8 \<Rightarrow> fs \<Rightarrow> nvfs_inode" where
  "stack_inode junk ty s =
     inode_set_ctime (now_sec s)
       \<lparr>isize = 0, itype = ty, ctime = [0, 0, 0], extent_count = 0, extents = junk, mtime = now_sec s\<rparr>"

definition create_file :: "nvfs_extent list \<Rightarrow> u32 \<Rightarrow> u8 list \<Rightarrow> (nat \<Rightarrow> u8) \<Rightarrow> u32 \<Rightarrow> fs \<Rightarrow> int \<times> fs" where
  "create_file junk parent name data sz s =
     (case inode_alloc NVFS_TYPE_FILE s of (inum, s) \<Rightarrow>
      if inum < 0 then (-1, s)
      else let inum = of_int inum
      in case extent_write (stack_inode junk NVFS_TYPE_FILE s) data sz s of (r, inode, s) \<Rightarrow>
      if r \<noteq> 0 then (-1, fail_with NVFS_ERR_NO_SPACE (snd (inode_free inum s)))
      else case inode_write inum inode s of (r, s) \<Rightarrow>
      if r \<noteq> 0
      then case extent_load_all inode EXTENT_CACHE_MAX s of (tmp_cache, s) \<Rightarrow>
           let s = (case tmp_cache of None \<Rightarrow> s | Some cache \<Rightarrow> free_blocks (blocks_of cache) s);
               s = (if unat (extent_count inode) > NVFS_DIRECT_EXTENTS
                    then snd (bitmap_set (ext_start (extents inode ! NVFS_DIRECT_EXTENTS)) False s) else s)
           in (-1, fail_with NVFS_ERR_IO (snd (inode_free inum s)))
      else case dir_add parent name inum s of (r, s) \<Rightarrow>
      if r \<noteq> 0 then (-1, snd (inode_free inum s)) else (0, s))"

definition nvfs_write :: "nvfs_extent list \<Rightarrow> u8 list \<Rightarrow> (nat \<Rightarrow> u8) \<Rightarrow> u32 \<Rightarrow> fs \<Rightarrow> int \<times> fs" where
  "nvfs_write junk path data sz s =
     (case with_name path s of
        (None, s) \<Rightarrow> (-1, s)
      | (Some (parent, name), s) \<Rightarrow>
          (case dir_find parent name s of (inum, s) \<Rightarrow>
           if inum \<ge> 0
           then case inode_read (of_int inum) s of
                  (None, s) \<Rightarrow> (-1, fail_with NVFS_ERR_IO s)
                | (Some inode, s) \<Rightarrow> replace_contents (of_int inum) inode data sz s
           else create_file junk parent name data sz s))"

definition nvfs_delete :: "u8 list \<Rightarrow> fs \<Rightarrow> int \<times> fs" where
  "nvfs_delete path s =
     (case with_name path s of
        (None, s) \<Rightarrow> (-1, s)
      | (Some (parent, name), s) \<Rightarrow>
          (case lookup_typed NVFS_TYPE_FILE NVFS_ERR_NOT_FILE parent name s of
             (None, s) \<Rightarrow> (-1, s)
           | (Some (inum, inode), s) \<Rightarrow>
               (case inode_free inum s of (r, s) \<Rightarrow>
                if r \<noteq> 0 then (-1, fail_with NVFS_ERR_IO s)
                else case dir_remove parent name s of (r, s) \<Rightarrow>
                if r \<noteq> 0 then (-1, fail_with NVFS_ERR_IO s) else (0, s))))"

definition nvfs_mkdir :: "nvfs_extent list \<Rightarrow> u8 list \<Rightarrow> fs \<Rightarrow> int \<times> fs" where
  "nvfs_mkdir junk path s =
     (case with_name path s of
        (None, s) \<Rightarrow> (-1, s)
      | (Some (parent, name), s) \<Rightarrow>
          (case inode_alloc NVFS_TYPE_DIR s of (inum, s) \<Rightarrow>
           if inum < 0 then (-1, s)
           else case inode_write (of_int inum) (stack_inode junk NVFS_TYPE_DIR s) s of (r, s) \<Rightarrow>
           if r \<noteq> 0 then (-1, fail_with NVFS_ERR_IO (snd (inode_free (of_int inum) s)))
           else case dir_add parent name (of_int inum) s of (r, s) \<Rightarrow>
           if r \<noteq> 0 then (-1, snd (inode_free (of_int inum) s)) else (0, s)))"

definition nvfs_rmdir :: "u8 list \<Rightarrow> fs \<Rightarrow> int \<times> fs" where
  "nvfs_rmdir path s =
     (case with_name path s of
        (None, s) \<Rightarrow> (-1, s)
      | (Some (parent, name), s) \<Rightarrow>
          (case lookup_typed NVFS_TYPE_DIR NVFS_ERR_NOT_DIR parent name s of
             (None, s) \<Rightarrow> (-1, s)
           | (Some (inum, inode), s) \<Rightarrow>
               (case dir_empty inum s of (is_empty, s) \<Rightarrow>
                if \<not> is_empty then (-1, fail_with NVFS_ERR_DIR_BUSY s)
                else case inode_free inum s of (r, s) \<Rightarrow>
                if r \<noteq> 0 then (-1, fail_with NVFS_ERR_IO s)
                else case dir_remove parent name s of (r, s) \<Rightarrow>
                if r \<noteq> 0 then (-1, fail_with NVFS_ERR_IO s) else (0, s))))"

text \<open>The inode number that \<open>nvfs_chdir\<close> stores through its out parameter is the second result.\<close>

definition nvfs_chdir :: "u8 list \<Rightarrow> fs \<Rightarrow> int \<times> u32 option \<times> fs" where
  "nvfs_chdir path s =
     (if \<not> mounted s then (-1, None, fail_with NVFS_ERR_NO_MOUNT s)
      else if path = [] then (0, Some NVFS_ROOT_INODE, s\<lparr>nvfs_cwd := NVFS_ROOT_INODE\<rparr>)
      else case resolve_path path s of
             (None, s) \<Rightarrow> (-1, None, s)
           | (Some (parent, name), s) \<Rightarrow>
               if name = [] then (0, Some parent, s\<lparr>nvfs_cwd := parent\<rparr>)
               else case lookup_typed NVFS_TYPE_DIR NVFS_ERR_NOT_DIR parent name s of
                      (None, s) \<Rightarrow> (-1, None, s)
                    | (Some (inum, inode), s) \<Rightarrow> (0, Some inum, s\<lparr>nvfs_cwd := inum\<rparr>))"

definition nvfs_get_cwd :: "fs \<Rightarrow> u32" where "nvfs_get_cwd s = nvfs_cwd s"

definition nvfs_is_mounted :: "fs \<Rightarrow> bool" where "nvfs_is_mounted s = mounted s"

text \<open>
  \<open>nvfs_list\<close>: the lines it prints, each the name of an entry and, unless the inode cannot
  be read, its type and size. The code prints the fields of an unset structure in that case.
\<close>

definition entry_name :: "sector \<Rightarrow> nat \<Rightarrow> u8 list" where
  "entry_name tmp e = takeWhile (\<lambda>c. c \<noteq> 0) (map (de_name tmp e) [0..<28])"

fun list_entries :: "sector \<Rightarrow> nat list \<Rightarrow> fs \<Rightarrow> (u8 list \<times> (u8 \<times> u32) option) list \<times> fs" where
  "list_entries tmp [] s = ([], s)"
| "list_entries tmp (e # es) s =
     (if de_inode tmp e = 0 then list_entries tmp es s
      else case inode_read (de_inode tmp e) s of (ci, s) \<Rightarrow>
           (case list_entries tmp es s of (ls, s) \<Rightarrow>
            ((entry_name tmp e, map_option (\<lambda>i. (itype i, isize i)) ci) # ls, s)))"

fun list_blocks :: "u32 list \<Rightarrow> fs \<Rightarrow> int \<times> (u8 list \<times> (u8 \<times> u32) option) list \<times> fs" where
  "list_blocks [] s = (0, [], s)"
| "list_blocks (b # bs) s =
     (case read_block b s of
        (None, s) \<Rightarrow> (-1, [], s)
      | (Some tmp, s) \<Rightarrow>
          (case list_entries tmp [0..<16] s of (ls, s) \<Rightarrow>
           (case list_blocks bs s of (r, ls', s) \<Rightarrow> (r, ls @ ls', s))))"

definition list_dir :: "u8 list \<Rightarrow> fs \<Rightarrow> u32 option \<times> fs" where
  "list_dir path s =
     (if path = [] then (Some (nvfs_cwd s), s)
      else case resolve_path path s of
             (None, s) \<Rightarrow> (None, s)
           | (Some (parent, name), s) \<Rightarrow>
               if name = [] then (Some parent, s)
               else case dir_find parent name s of (inum, s) \<Rightarrow>
                    if inum < 0 then (None, s)
                    else case inode_read (of_int inum) s of
                           (None, s) \<Rightarrow> (None, s)
                         | (Some inode, s) \<Rightarrow>
                             if itype inode \<noteq> NVFS_TYPE_DIR then (None, s) else (Some (of_int inum), s))"

definition nvfs_list :: "u8 list \<Rightarrow> fs \<Rightarrow> int \<times> (u8 list \<times> (u8 \<times> u32) option) list \<times> fs" where
  "nvfs_list path s =
     (if \<not> mounted s then (-1, [], fail_with NVFS_ERR_NO_MOUNT s)
      else case list_dir path s of
             (None, s) \<Rightarrow> (-1, [], s)
           | (Some dir, s) \<Rightarrow>
               (case inode_read dir s of
                  (None, s) \<Rightarrow> (-1, [], s)
                | (Some inode, s) \<Rightarrow>
                    (case extent_load_all inode EXTENT_CACHE_MAX s of
                       (None, s) \<Rightarrow> (-1, [], s)
                     | (Some cache, s) \<Rightarrow> list_blocks (blocks_of cache) s)))"

text \<open>
  \<open>nvfs_path_string\<close>: the names from an inode up to the root, at most 16, and the string
  built from them in a buffer of the given size.
\<close>

fun child_name :: "u32 \<Rightarrow> u32 list \<Rightarrow> fs \<Rightarrow> u8 list option \<times> fs" where
  "child_name cur [] s = (None, s)"
| "child_name cur (b # bs) s =
     (case read_block b s of
        (None, s) \<Rightarrow> child_name cur bs s
      | (Some tmp, s) \<Rightarrow>
          (case find (\<lambda>d. de_inode tmp d = cur) [0..<16] of
             Some d \<Rightarrow> (Some (take NVFS_MAX_NAME (entry_name tmp d)), s)
           | None \<Rightarrow> child_name cur bs s))"

definition name_in :: "u32 \<Rightarrow> u32 \<Rightarrow> fs \<Rightarrow> u8 list option \<times> fs" where
  "name_in parent cur s =
     (case inode_read parent s of
        (None, s) \<Rightarrow> (None, s)
      | (Some inode, s) \<Rightarrow>
          (case extent_load_all inode EXTENT_CACHE_MAX s of
             (None, s) \<Rightarrow> (None, s)
           | (Some cache, s) \<Rightarrow> child_name cur (blocks_of cache) s))"

partial_function (option) path_names :: "u32 \<Rightarrow> u8 list list \<Rightarrow> fs \<Rightarrow> (u8 list list \<times> fs) option" where
  "path_names cur names s =
     (if cur \<noteq> NVFS_ROOT_INODE \<and> length names < 16
      then case find_parent cur s of (parent, s) \<Rightarrow>
           if parent < 0 then Some (names, s)
           else case name_in (of_int parent) cur s of
                  (None, s) \<Rightarrow> path_names (of_int parent) names s
                | (Some name, s) \<Rightarrow> path_names (of_int parent) (name # names) s
      else Some (names, s))"

definition nvfs_path_string :: "u32 \<Rightarrow> u32 \<Rightarrow> fs \<Rightarrow> (int \<times> u8 list \<times> fs) option" where
  "nvfs_path_string inum sz s =
     (if sz < 2 then Some (-1, [], s)
      else if inum = NVFS_ROOT_INODE then Some (0, [slash], s)
      else case path_names inum [] s of
             None \<Rightarrow> None
           | Some (names, s) \<Rightarrow>
               Some (0, slash # take (nat (sint sz - 1) - 1) (concat (map (\<lambda>n. n @ [slash]) (butlast names) @
                           (if names = [] then [] else [last names]))), s))"

definition nvfs_strerror :: "int \<Rightarrow> string" where
  "nvfs_strerror err =
     (if err = NVFS_ERR_NOT_FOUND then ''Not found''
      else if err = NVFS_ERR_NOT_DIR then ''Not a directory''
      else if err = NVFS_ERR_NOT_FILE then ''Not a file''
      else if err = NVFS_ERR_DIR_BUSY then ''Directory not empty''
      else if err = NVFS_ERR_NO_SPACE then ''Disk full''
      else if err = NVFS_ERR_NO_INODE then ''Out of inodes''
      else if err = NVFS_ERR_EXISTS then ''Already exists''
      else if err = NVFS_ERR_IO then ''I/O error''
      else if err = NVFS_ERR_NO_MOUNT then ''No disk''
      else if err = NVFS_ERR_PATH then ''Bad path''
      else ''Unknown error'')"

text \<open>
  \<open>nvfs_append\<close> works in a buffer of 4096 bytes; whether \<open>malloc\<close> provides it is the first
  argument. The buffer holds the old contents, then the new bytes, then what was in memory.
\<close>

definition nvfs_append :: "bool \<Rightarrow> (nat \<Rightarrow> u8) \<Rightarrow> u8 list \<Rightarrow> (nat \<Rightarrow> u8) \<Rightarrow> u32 \<Rightarrow> fs \<Rightarrow> int \<times> fs" where
  "nvfs_append got heap path data sz s =
     (case with_name path s of
        (None, s) \<Rightarrow> (-1, s)
      | (Some (parent, name), s) \<Rightarrow>
          (case lookup_typed NVFS_TYPE_FILE NVFS_ERR_NOT_FILE parent name s of
             (None, s) \<Rightarrow> (-1, s)
           | (Some (inum, inode), s) \<Rightarrow>
               if \<not> got then (-1, fail_with NVFS_ERR_IO s)
               else let old = min (isize inode) 4096; add = min sz (4096 - old)
               in case extent_read inode old s of
                    (None, s) \<Rightarrow> (-1, fail_with NVFS_ERR_IO s)
                  | (Some xs, s) \<Rightarrow>
                      let tmp = (\<lambda>k. if k < length xs then xs ! k else heap k);
                          tmp = (\<lambda>k. if unat old \<le> k \<and> k < unat old + unat add then data (k - unat old) else tmp k)
                      in replace_contents inum inode tmp (old + add) s))"

end
