(* ===== verification/NvfsDisk.thy ===== *)
theory NvfsDisk
  imports Nvfs
begin

text \<open>
  What the file system stores where. Buffers: 32-bit fields, extents and inodes that are
  written and read back. The disk: which sectors an operation can change, under every
  sequence of faults, and which results it can then have.
\<close>

section \<open>Fields of a sector\<close>

lemma get32_put32_same [simp]: "get32 (put32 i v buf) i = v"
  by (simp add: get32_def put32_def)

lemma get32_put32_other: "j + 4 \<le> i \<or> i + 4 \<le> j \<Longrightarrow> get32 (put32 i v buf) j = get32 buf j"
  by (auto simp: get32_def put32_def)

lemma put32_outside: "k < i \<or> i + 4 \<le> k \<Longrightarrow> put32 i v buf k = buf k"
  by (auto simp: put32_def)

lemma get32_cong: "(\<And>k. i \<le> k \<Longrightarrow> k < i + 4 \<Longrightarrow> buf k = buf' k) \<Longrightarrow> get32 buf i = get32 buf' i"
  by (simp add: get32_def)

lemma put_extents_outside: "k < p \<or> p + 8 * length es \<le> k \<Longrightarrow> put_extents es p buf k = buf k"
  by (induction es arbitrary: p buf) (auto simp: put32_outside)

lemma get32_put_extents_other:
  "j + 4 \<le> p \<or> p + 8 * length es \<le> j \<Longrightarrow> get32 (put_extents es p buf) j = get32 buf j"
  by (rule get32_cong, rule put_extents_outside) auto

lemma get_extents_cong:
  "(\<And>k. p \<le> k \<Longrightarrow> k < p + 8 * n \<Longrightarrow> buf k = buf' k) \<Longrightarrow> get_extents n buf p = get_extents n buf' p"
  by (auto simp: get_extents_def intro!: get32_cong)

lemma get_extents_Suc:
  "get_extents (Suc n) buf p =
   \<lparr>ext_start = get32 buf p, ext_count = get32 buf (p + 4)\<rparr> # get_extents n buf (p + 8)"
proof -
  have "[0..<Suc n] = 0 # map Suc [0..<n]" by (simp add: upt_conv_Cons map_Suc_upt del: upt_Suc)
  then show ?thesis by (simp add: get_extents_def comp_def add.assoc add.commute del: upt_Suc)
qed

lemma length_get_extents [simp]: "length (get_extents n buf p) = n"
  by (simp add: get_extents_def)

lemma get_put_extents: "get_extents (length es) (put_extents es p buf) p = es"
proof (induction es arbitrary: p buf)
  case (Cons e es)
  let ?b = "put32 (p + 4) (ext_count e) (put32 p (ext_start e) buf)"
  have "get32 (put_extents es (p + 8) ?b) p = ext_start e"
    by (simp add: get32_put_extents_other get32_put32_other)
  moreover have "get32 (put_extents es (p + 8) ?b) (p + 4) = ext_count e"
    by (simp add: get32_put_extents_other)
  ultimately show ?case using Cons by (simp add: get_extents_Suc)
qed (simp add: get_extents_def)

definition inode_wf :: "nvfs_inode \<Rightarrow> bool" where
  "inode_wf inode \<longleftrightarrow> length (extents inode) = 14 \<and> length (ctime inode) = 3 \<and> extent_count inode \<le> 14"

lemma put_inode_outside:
  "inode_wf inode \<Longrightarrow> k < p \<or> p + 128 \<le> k \<Longrightarrow> put_inode inode p buf k = buf k"
  by (auto simp: put_inode_def Let_def put32_outside put_extents_outside inode_wf_def)

lemma get_put_inode:
  assumes "inode_wf inode"
  shows "get_inode (put_inode inode p buf) p = inode"
proof -
  define b1 where "b1 = put32 p (isize inode) buf"
  define b2 where "b2 = b1(p + 4 := itype inode, p + 5 := ctime inode ! 0, p + 6 := ctime inode ! 1, p + 7 := ctime inode ! 2)"
  define b3 where "b3 = put32 (p + 8) (extent_count inode) b2"
  define b4 where "b4 = put_extents (extents inode) (p + 12) b3"
  define b5 where "b5 = put32 (p + 124) (mtime inode) b4"
  have b: "put_inode inode p buf = b5" by (simp add: put_inode_def b1_def b2_def b3_def b4_def b5_def)
  have len: "length (extents inode) = 14" "length (ctime inode) = 3" "extent_count inode \<le> 14"
    using assms by (auto simp: inode_wf_def)
  have low: "b5 k = b2 k" if "k < p + 8" for k
    using that by (simp add: b5_def b4_def b3_def put32_outside put_extents_outside)
  have "get32 b5 p = get32 b2 p" by (rule get32_cong) (simp add: low)
  also have "\<dots> = get32 b1 p" by (rule get32_cong) (simp add: b2_def)
  finally have f1: "get32 b5 p = isize inode" by (simp add: b1_def)
  have f2: "b5 (p + 4) = itype inode" "[b5 (p + 5), b5 (p + 6), b5 (p + 7)] = ctime inode"
    using len(2) by (auto simp: low b2_def numeral_3_eq_3 length_Suc_conv)
  have f3: "get32 b5 (p + 8) = extent_count inode"
    by (simp add: b5_def b4_def b3_def get32_put32_other get32_put_extents_other)
  have f4: "get_extents 14 b5 (p + 12) = extents inode"
  proof -
    have "get_extents 14 b5 (p + 12) = get_extents 14 b4 (p + 12)"
      by (rule get_extents_cong) (simp add: b5_def put32_outside)
    then show ?thesis using get_put_extents [of "extents inode" "p + 12" b3] len(1) by (simp add: b4_def)
  qed
  have f5: "get32 b5 (p + 124) = mtime inode" by (simp add: b5_def)
  show ?thesis
    using f1 f2 f3 f4 f5 len(3) by (simp add: b get_inode_def Let_def not_less)
qed

lemma get_inode_cong:
  assumes "\<And>k. p \<le> k \<Longrightarrow> k < p + 128 \<Longrightarrow> buf k = buf' k"
  shows "get_inode buf p = get_inode buf' p"
proof -
  have "get32 buf p = get32 buf' p" "get32 buf (p + 8) = get32 buf' (p + 8)" "get32 buf (p + 124) = get32 buf' (p + 124)"
    by (rule get32_cong, simp add: assms)+
  moreover have "get_extents 14 buf (p + 12) = get_extents 14 buf' (p + 12)"
    by (rule get_extents_cong) (simp add: assms)
  ultimately show ?thesis by (simp add: get_inode_def assms)
qed

lemma get_inode_wf [simp]: "inode_wf (get_inode buf p)"
  by (auto simp: inode_wf_def get_inode_def Let_def)

section \<open>What an operation can change\<close>

definition lba28 :: "u32 \<Rightarrow> u32" where "lba28 l = l AND 0x0FFFFFFF"

text \<open>
  \<open>only A s s'\<close>: from \<open>s\<close> to \<open>s'\<close> no sector outside \<open>A\<close> changed its contents, and of the other
  fields only the error number; a number of faults has been consumed.
\<close>

definition only :: "u32 set \<Rightarrow> fs \<Rightarrow> fs \<Rightarrow> bool" where
  "only A s s' \<longleftrightarrow> (\<exists>d n e. s' = s\<lparr>disks := d, faults := \<lambda>k. faults s (k + n), nvfs_errno := e\<rparr>) \<and>
     (\<forall>l. lba28 l \<notin> A \<longrightarrow> sectors s' l = sectors s l)"

lemma only_fields:
  assumes "only A s s'"
  shows "ata_exists s' = ata_exists s" "fs_ticks s' = fs_ticks s" "mounted s' = mounted s"
    "nvfs_ch s' = nvfs_ch s" "nvfs_dr s' = nvfs_dr s" "nvfs_cwd s' = nvfs_cwd s"
    "sb_data_start s' = sb_data_start s" "sb_inode_start s' = sb_inode_start s"
    "sb_inode_count s' = sb_inode_count s" "sb_inode_blocks s' = sb_inode_blocks s"
    "sb_bitmap_start s' = sb_bitmap_start s" "sb_bitmap_sectors s' = sb_bitmap_sectors s"
    "nvfs_offset s' = nvfs_offset s"
    "bitmap_sec s' b = bitmap_sec s b" "inode_sec s' i = inode_sec s i" "now_sec s' = now_sec s"
proof -
  from assms obtain d n e where "s' = s\<lparr>disks := d, faults := \<lambda>k. faults s (k + n), nvfs_errno := e\<rparr>" unfolding only_def by blast
  then show "ata_exists s' = ata_exists s" "fs_ticks s' = fs_ticks s" "mounted s' = mounted s"
    "nvfs_ch s' = nvfs_ch s" "nvfs_dr s' = nvfs_dr s" "nvfs_cwd s' = nvfs_cwd s"
    "sb_data_start s' = sb_data_start s" "sb_inode_start s' = sb_inode_start s"
    "sb_inode_count s' = sb_inode_count s" "sb_inode_blocks s' = sb_inode_blocks s"
    "sb_bitmap_start s' = sb_bitmap_start s" "sb_bitmap_sectors s' = sb_bitmap_sectors s"
    "nvfs_offset s' = nvfs_offset s"
    "bitmap_sec s' b = bitmap_sec s b" "inode_sec s' i = inode_sec s i" "now_sec s' = now_sec s"
    by (simp_all add: bitmap_sec_def inode_sec_def now_sec_def)
qed

lemma only_sectors: "only A s s' \<Longrightarrow> lba28 l \<notin> A \<Longrightarrow> sectors s' l = sectors s l"
  by (simp add: only_def)

lemma onlyI:
  "s' = s\<lparr>disks := d, faults := \<lambda>k. faults s (k + n), nvfs_errno := e\<rparr> \<Longrightarrow> (\<And>l. lba28 l \<notin> A \<Longrightarrow> sectors s' l = sectors s l) \<Longrightarrow> only A s s'"
  unfolding only_def by blast

lemma only_refl [simp]: "only A s s"
  by (rule onlyI [where d = "disks s" and n = 0 and e = "nvfs_errno s"]) simp_all

lemma only_trans:
  assumes "only A s s'" and "only A s' s''"
  shows "only A s s''"
proof -
  obtain d n e where 1: "s' = s\<lparr>disks := d, faults := \<lambda>k. faults s (k + n), nvfs_errno := e\<rparr>"
    using assms(1) unfolding only_def by blast
  obtain d' n' e' where 2: "s'' = s'\<lparr>disks := d', faults := \<lambda>k. faults s' (k + n'), nvfs_errno := e'\<rparr>"
    using assms(2) unfolding only_def by blast
  show ?thesis
  proof (rule onlyI [where d = d' and n = "n' + n" and e = e'])
    show "s'' = s\<lparr>disks := d', faults := \<lambda>k. faults s (k + (n' + n)), nvfs_errno := e'\<rparr>"
      unfolding 2 unfolding 1 by (simp add: add.assoc)
    show "sectors s'' l = sectors s l" if "lba28 l \<notin> A" for l using that assms by (simp add: only_sectors)
  qed
qed

lemma only_quiet: "only A s s' \<Longrightarrow> faults s = (\<lambda>n. False) \<Longrightarrow> faults s' = (\<lambda>n. False)"
  by (auto simp: only_def)

lemma only_mono: "only A s s' \<Longrightarrow> A \<subseteq> B \<Longrightarrow> only B s s'"
  unfolding only_def by blast

lemma only_next_fault [simp]: "only A s (next_fault s)"
  by (rule onlyI [where d = "disks s" and n = 1 and e = "nvfs_errno s"]) (simp_all add: next_fault_def sectors_def)

lemma only_fail_with [simp]: "only A s (fail_with e s)"
  by (rule onlyI [where d = "disks s" and n = 0 and e = e]) (simp_all add: fail_with_def sectors_def)

lemma sectors_put_sector: "sectors (put_sector a buf s) l = (if lba28 l = lba28 a then buf else sectors s l)"
  by (simp add: sectors_def put_sector_def lba28_def)

lemma only_put_sector: "lba28 l \<in> A \<Longrightarrow> only A s (put_sector l buf s)"
  by (rule onlyI [where d = "disks (put_sector l buf s)" and n = 0 and e = "nvfs_errno s"])
     (auto simp: sectors_put_sector, simp add: put_sector_def)

lemma read_sectorD:
  "read_sector l s = (r, s') \<Longrightarrow> only A s s' \<and> (\<forall>buf. r = Some buf \<longrightarrow> buf = sectors s l)"
  by (auto simp: read_sector_def split: if_splits)

lemma write_sectorD:
  assumes "write_sector l buf s = (r, s')"
  shows "only {lba28 l} s s'" and "r = 0 \<and> sectors s' l = buf \<or> r = -1 \<and> only {} s s'"
proof -
  have p: "only {lba28 l} s (put_sector l buf (next_fault s))"
    by (rule only_trans [OF only_next_fault only_put_sector]) simp
  show "only {lba28 l} s s'" "r = 0 \<and> sectors s' l = buf \<or> r = -1 \<and> only {} s s'"
    using assms p by (auto simp: write_sector_def sectors_put_sector split: if_splits)
qed

definition data_sec :: "fs \<Rightarrow> u32 \<Rightarrow> u32" where
  "data_sec s block = nvfs_offset s + sb_data_start s + block"

lemma only_data_sec: "only A s s' \<Longrightarrow> data_sec s' b = data_sec s b"
  by (simp add: data_sec_def only_fields)

lemma read_blockD:
  "read_block b s = (r, s') \<Longrightarrow> only A s s' \<and> (\<forall>buf. r = Some buf \<longrightarrow> buf = sectors s (data_sec s b))"
  unfolding read_block_def data_sec_def by (rule read_sectorD)

lemma write_blockD:
  assumes "write_block b buf s = (r, s')"
  shows "only {lba28 (data_sec s b)} s s'" and "r = 0 \<and> sectors s' (data_sec s b) = buf \<or> r = -1 \<and> only {} s s'"
  using write_sectorD [of _ buf s r s'] assms unfolding write_block_def data_sec_def by blast+

section \<open>The bitmap\<close>

definition used :: "fs \<Rightarrow> u32 \<Rightarrow> bool" where
  "used s b \<longleftrightarrow> buf_bit (sectors s (bitmap_sec s b)) (b mod bits_per_sec)"

lemma used_cong: "only {} s s' \<Longrightarrow> used s' b = used s b"
  by (simp add: used_def only_fields only_sectors)

lemma bitmap_testD:
  "bitmap_test b s = (r, s') \<Longrightarrow> only A s s' \<and> (r = 0 \<longrightarrow> \<not> used s b)"
  using read_sectorD [of "bitmap_sec s b" s]
  by (auto simp: bitmap_test_def used_def split: prod.splits option.splits if_splits)

lemma bitmap_setD:
  assumes "bitmap_set b u s = (r, s')"
  shows "only {lba28 (bitmap_sec s b)} s s'"
    and "sectors s' (bitmap_sec s b) \<in> {sectors s (bitmap_sec s b), set_buf_bit (b mod bits_per_sec) u (sectors s (bitmap_sec s b))}"
proof -
  obtain x s1 where r: "read_sector (bitmap_sec s b) s = (x, s1)" by fastforce
  note rd = read_sectorD [OF r]
  have "only {lba28 (bitmap_sec s b)} s s' \<and>
    sectors s' (bitmap_sec s b) \<in> {sectors s (bitmap_sec s b), set_buf_bit (b mod bits_per_sec) u (sectors s (bitmap_sec s b))}"
  proof (cases x)
    case None
    with assms r have "s' = s1" by (simp add: bitmap_set_def)
    with rd only_sectors [of "{}" s s1] show ?thesis by simp
  next
    case (Some buf)
    with assms r have w: "write_sector (bitmap_sec s b) (set_buf_bit (b mod bits_per_sec) u buf) s1 = (r, s')"
      by (simp add: bitmap_set_def)
    have "only {lba28 (bitmap_sec s b)} s s'" using only_trans rd write_sectorD(1) [OF w] by blast
    moreover have "sectors s1 (bitmap_sec s b) = sectors s (bitmap_sec s b)" "buf = sectors s (bitmap_sec s b)"
      using rd [of "{}"] Some only_sectors by auto
    ultimately show ?thesis using write_sectorD(2) [OF w] only_sectors [of "{}" s1 s'] by auto
  qed
  then show "only {lba28 (bitmap_sec s b)} s s'"
    "sectors s' (bitmap_sec s b) \<in> {sectors s (bitmap_sec s b), set_buf_bit (b mod bits_per_sec) u (sectors s (bitmap_sec s b))}"
    by blast+
qed

lemma run_okD:
  "run_ok n j first s = (ok, s') \<Longrightarrow> only {} s s' \<and> (ok \<longrightarrow> (\<forall>k < n. \<not> used s (first + j + of_nat k)))"
proof (induction n arbitrary: j s)
  case (Suc n)
  obtain r s1 where t: "bitmap_test (first + j) s = (r, s1)" by fastforce
  note td = bitmap_testD [OF t, of "{}"]
  show ?case
  proof (cases "r = 0")
    case True
    with Suc.prems t have "run_ok n (j + 1) first s1 = (ok, s')" by simp
    note IH = Suc.IH [OF this]
    have ok: "only {} s s'" by (rule only_trans [of _ _ s1]) (use td IH in blast)+
    have "used s1 b = used s b" for b using td by (intro used_cong) blast
    with IH td True have u: "ok \<longrightarrow> (\<forall>k < n. \<not> used s (first + (j + 1) + of_nat k))" "\<not> used s (first + j)"
      by (simp, blast)
    have "\<not> used s (first + j + of_nat k)" if "ok" "k < Suc n" for k
    proof (cases k)
      case (Suc k')
      with that u(1) have "\<not> used s (first + (j + 1) + of_nat k')" by simp
      then show ?thesis using Suc by (simp add: algebra_simps)
    qed (use u(2) in simp)
    with ok show ?thesis by blast
  next
    case False
    with Suc.prems t td show ?thesis by auto
  qed
qed simp

text \<open>
  The layout of a mounted disk: the areas do not overlap and lie within the sectors the
  driver can address, and the last block of the bitmap is in use, so that no run of free
  blocks goes past the end of the bitmap.
\<close>

definition total_blocks :: "fs \<Rightarrow> nat" where
  "total_blocks s = unat (sb_bitmap_sectors s) * 4096"

definition geometry :: "fs \<Rightarrow> bool" where
  "geometry s \<longleftrightarrow>
     unat (sb_bitmap_start s) + unat (sb_bitmap_sectors s) \<le> unat (sb_inode_start s) \<and>
     unat (sb_inode_start s) + unat (sb_inode_blocks s) \<le> unat (sb_data_start s) \<and>
     unat (nvfs_offset s) + unat (sb_data_start s) + total_blocks s \<le> 268435456 \<and>
     2 \<le> unat (sb_bitmap_start s) \<and> 0 < unat (sb_bitmap_sectors s) \<and>
     unat (sb_inode_count s) \<le> 4 * unat (sb_inode_blocks s) \<and> unat (sb_inode_count s) \<le> 33554432"

definition layout :: "fs \<Rightarrow> bool" where
  "layout s \<longleftrightarrow> geometry s \<and> used s (of_nat (total_blocks s - 1))"

lemma find_bitD:
  "find_bit n b base total_bits count buf s = (r, s') \<Longrightarrow> unat b + n \<le> 4096 \<Longrightarrow>
   only {} s s' \<and>
   (case r of None \<Rightarrow> True
    | Some first \<Rightarrow> \<exists>b'. first = base + b' \<and> unat b' < unat b + n \<and> \<not> buf_bit buf b' \<and> first < total_bits \<and>
        (\<forall>k < unat count - 1. \<not> used s (first + 1 + of_nat k)))"
proof (induction n arbitrary: b s)
  case (Suc n)
  have b1: "unat (b + 1) = unat b + 1" using Suc.prems(2) by (simp add: unat_word_ariths)
  have step: ?case if "find_bit n (b + 1) base total_bits count buf s1 = (r, s')" "only {} s s1" for s1
  proof -
    have "used s1 x = used s x" for x using that(2) by (rule used_cong)
    moreover have "only {} s1 s' \<Longrightarrow> only {} s s'" using only_trans that(2) by blast
    ultimately show ?thesis using Suc.IH [OF that(1)] Suc.prems(2) b1 by (auto split: option.splits)
  qed
  consider (stop) "\<not> base + b < total_bits" | (set) "base + b < total_bits" "buf_bit buf b"
    | (one) "base + b < total_bits" "\<not> buf_bit buf b" "count = 1"
    | (many) "base + b < total_bits" "\<not> buf_bit buf b" "count \<noteq> 1" by blast
  then show ?case
  proof cases
    case stop
    with Suc.prems show ?thesis by auto
  next
    case set
    with Suc.prems step [of s] show ?thesis by simp
  next
    case one
    with Suc.prems have "r = Some (base + b)" "s' = s" by auto
    with one show ?thesis by auto
  next
    case many
    obtain ok s1 where k: "run_ok (unat count - 1) 1 (base + b) s = (ok, s1)" by fastforce
    note kd = run_okD [OF k]
    show ?thesis
    proof (cases ok)
      case True
      with Suc.prems k many have "r = Some (base + b)" "s' = s1" by auto
      with kd True many show ?thesis by (auto simp: add.assoc)
    next
      case False
      with Suc.prems k many step [of s1] kd show ?thesis by simp
    qed
  qed
qed simp

lemma sint_small: "unat w < 2147483648 \<Longrightarrow> sint w = int (unat w)" for w :: u32
proof -
  assume a: "unat w < 2147483648"
  have u: "int (unat w) = uint w" by simp
  have "uint w < 2147483648" using a u by linarith
  then have lt: "uint w < 2 ^ 31" by simp
  have "- (2 ^ 31) \<le> uint w" by (rule order.trans [of _ 0]) (simp_all only: uint_ge_0, simp)
  then have "signed_take_bit 31 (uint w) = uint w" using lt by (rule signed_take_bit_int_eq_self)
  then show ?thesis using u by (simp add: sint_uint)
qed

lemma bits_per_sec_4096 [simp]: "bits_per_sec = 4096"
  by (simp add: bits_per_sec_def)

lemma sec_bit:
  assumes "unat sec * 4096 + unat b < 4294967296" and "unat b < 4096"
  shows "unat ((sec :: u32) * 4096 + b) = unat sec * 4096 + unat b"
    and "(sec * 4096 + b) div 4096 = sec" and "(sec * 4096 + b) mod 4096 = b"
proof -
  have m: "unat (sec * 4096) = unat sec * 4096" using assms by (subst unat_mult_lem [THEN iffD1]) auto
  show u: "unat (sec * 4096 + b) = unat sec * 4096 + unat b"
    using assms m by (subst unat_add_lem [THEN iffD1]) auto
  show "(sec * 4096 + b) div 4096 = sec" unfolding word_unat_eq_iff unat_div u using assms by simp
  show "(sec * 4096 + b) mod 4096 = b" unfolding word_unat_eq_iff unat_mod u using assms by simp
qed

lemma find_secD:
  "find_sec n sec count s = (r, s') \<Longrightarrow> n + unat sec = unat (sb_bitmap_sectors s) \<Longrightarrow> total_blocks s \<le> 268435456 \<Longrightarrow>
   only {} s s' \<and> (r = -1 \<or> (\<exists>first. r = int (unat first) \<and> unat first < total_blocks s \<and> \<not> used s first \<and>
        (\<forall>k < unat count - 1. \<not> used s (first + 1 + of_nat k))))"
proof (induction n arbitrary: sec s)
  case (Suc n)
  obtain x s1 where x: "read_sector (nvfs_offset s + sb_bitmap_start s + sec) s = (x, s1)" by fastforce
  note xd = read_sectorD [OF x]
  show ?case
  proof (cases x)
    case None
    with Suc.prems(1) x xd show ?thesis by auto
  next
    case (Some buf)
    obtain y s2 where y: "find_bit (unat bits_per_sec) 0 (sec * bits_per_sec) (sb_bitmap_sectors s1 * bits_per_sec) count buf s1 = (y, s2)"
      by fastforce
    have o1: "only {} s s1" and buf: "buf = sectors s (nvfs_offset s + sb_bitmap_start s + sec)" using xd Some by auto
    have yd: "only {} s1 s2 \<and> (case y of None \<Rightarrow> True
      | Some first \<Rightarrow> \<exists>b'. first = sec * bits_per_sec + b' \<and> unat b' < 4096 \<and> \<not> buf_bit buf b' \<and>
          first < sb_bitmap_sectors s1 * bits_per_sec \<and> (\<forall>k < unat count - 1. \<not> used s1 (first + 1 + of_nat k)))"
      using find_bitD [OF y] by (simp split: option.splits)
    have o2: "only {} s s2" by (rule only_trans [OF o1]) (use yd in blast)
    have lt: "unat (sb_bitmap_sectors s) * 4096 \<le> 268435456" "unat sec < unat (sb_bitmap_sectors s)"
      using Suc.prems(2,3) by (auto simp: total_blocks_def)
    show ?thesis
    proof (cases y)
      case None
      with Suc.prems(1) x Some y have f: "find_sec n (sec + 1) count s2 = (r, s')" by simp
      have sec: "unat (sec + 1) = unat sec + 1" using lt by (simp add: unat_word_ariths)
      have e1: "n + unat (sec + 1) = unat (sb_bitmap_sectors s2)"
        unfolding only_fields(12) [OF o2] using Suc.prems(2) sec by linarith
      have e2: "total_blocks s2 \<le> 268435456"
        using Suc.prems(3) by (simp add: total_blocks_def only_fields(12) [OF o2])
      from f e1 e2 have "only {} s2 s' \<and> (r = -1 \<or> (\<exists>first. r = int (unat first) \<and> unat first < total_blocks s2 \<and> \<not> used s2 first \<and>
        (\<forall>k < unat count - 1. \<not> used s2 (first + 1 + of_nat k))))"
        by (rule Suc.IH)
      moreover have "used s2 x = used s x" for x using o2 by (rule used_cong)
      moreover have "total_blocks s2 = total_blocks s" using o2 by (simp add: total_blocks_def only_fields)
      ultimately show ?thesis using only_trans [OF o2] by auto
    next
      case (Some first)
      with Suc.prems(1) x \<open>x = Some buf\<close> y have r: "r = sint first" "s' = s2" by auto
      from yd Some obtain b where b: "first = sec * bits_per_sec + b" "unat b < 4096" "\<not> buf_bit buf b"
        "\<forall>k < unat count - 1. \<not> used s1 (first + 1 + of_nat k)" by auto
      have le: "unat sec * 4096 + unat b < total_blocks s" using lt b(2) by (simp add: total_blocks_def)
      then have big: "unat sec * 4096 + unat b < 4294967296" using Suc.prems(3) by simp
      note sb = sec_bit [OF big b(2)]
      have "unat first < total_blocks s" using le sb b(1) by simp
      moreover have "r = int (unat first)" using calculation Suc.prems(3) r(1) by (simp add: sint_small)
      moreover have "\<not> used s first" unfolding used_def bitmap_sec_def b(1) bits_per_sec_4096 sb using b(3) buf by simp
      moreover have "used s1 x = used s x" for x using o1 by (rule used_cong)
      ultimately show ?thesis using b(4) o2 r(2) by auto
    qed
  qed
qed simp

lemma of_int_unat [simp]: "of_int (int (unat w)) = w" for w :: u32
  by simp

text \<open>
  Whatever the faults, the blocks that \<open>bitmap_find\<close> returns were free, and they lie within
  the bitmap.
\<close>

lemma bitmap_findD:
  assumes "bitmap_find count s = (r, s')" and l: "layout s" and "0 < unat count"
  shows "only {} s s'" and "r = -1 \<or> (\<exists>first. r = int (unat first) \<and> unat first + unat count \<le> total_blocks s \<and>
    (\<forall>k < unat count. \<not> used s (first + of_nat k)))"
proof -
  have t: "total_blocks s \<le> 268435456" "used s (of_nat (total_blocks s - 1))" using l by (auto simp: layout_def geometry_def)
  have f: "only {} s s' \<and> (r = -1 \<or> (\<exists>first. r = int (unat first) \<and> unat first < total_blocks s \<and> \<not> used s first \<and>
        (\<forall>k < unat count - 1. \<not> used s (first + 1 + of_nat k))))"
    using assms(1) t(1) by (intro find_secD [of _ 0]) (simp_all add: bitmap_find_def)
  then show "only {} s s'" by blast
  from f show "r = -1 \<or> (\<exists>first. r = int (unat first) \<and> unat first + unat count \<le> total_blocks s \<and>
    (\<forall>k < unat count. \<not> used s (first + of_nat k)))"
  proof (elim conjE disjE exE)
    fix first assume r: "r = int (unat first)" "unat first < total_blocks s" "\<not> used s first"
      "\<forall>k < unat count - 1. \<not> used s (first + 1 + of_nat k)"
    have free: "\<not> used s (first + of_nat k)" if "k < unat count" for k
    proof (cases k)
      case (Suc k')
      with that r(4) have "\<not> used s (first + 1 + of_nat k')" by simp
      with Suc show ?thesis by (simp add: algebra_simps)
    qed (use r(3) in simp)
    have "unat first + unat count \<le> total_blocks s"
    proof (rule ccontr)
      assume "\<not> ?thesis"
      then have "total_blocks s - 1 - unat first < unat count" using r(2) by linarith
      from free [OF this] have f: "\<not> used s (first + of_nat (total_blocks s - 1 - unat first))" .
      have "first + of_nat (total_blocks s - 1 - unat first) = of_nat (unat first + (total_blocks s - 1 - unat first))"
        by simp
      also have "unat first + (total_blocks s - 1 - unat first) = total_blocks s - 1" using r(2) by simp
      finally show False using t(2) f by metis
    qed
    with r(1) free show ?thesis by blast
  qed blast
qed

section \<open>Where the areas lie\<close>

lemma lba28_small: "unat l < 268435456 \<Longrightarrow> lba28 l = l"
proof -
  assume a: "unat l < 268435456"
  have "l AND 0x0FFFFFFF = l AND mask 28" by (simp add: mask_eq_exp_minus_1)
  also have "\<dots> = take_bit 28 l" by (simp add: take_bit_eq_mask)
  also have "\<dots> = l"
    unfolding word_unat_eq_iff using a by (simp add: unsigned_take_bit_eq take_bit_nat_eq_self)
  finally show ?thesis by (simp add: lba28_def)
qed

definition area :: "nat \<Rightarrow> nat \<Rightarrow> u32 set" where
  "area lo n = {l. lo \<le> unat l \<and> unat l < lo + n}"

definition bitmap_area :: "fs \<Rightarrow> u32 set" where
  "bitmap_area s = area (unat (nvfs_offset s) + unat (sb_bitmap_start s)) (unat (sb_bitmap_sectors s))"

definition inode_area :: "fs \<Rightarrow> u32 set" where
  "inode_area s = area (unat (nvfs_offset s) + unat (sb_inode_start s)) (unat (sb_inode_blocks s))"

definition data_area :: "fs \<Rightarrow> u32 set" where
  "data_area s = area (unat (nvfs_offset s) + unat (sb_data_start s)) (total_blocks s)"

lemma geometryD:
  assumes "geometry s"
  shows "unat (nvfs_offset s) + unat (sb_bitmap_start s) + unat (sb_bitmap_sectors s) < 268435456"
    and "unat (nvfs_offset s) + unat (sb_inode_start s) + unat (sb_inode_blocks s) < 268435456"
    and "unat (nvfs_offset s) + unat (sb_data_start s) + total_blocks s \<le> 268435456"
    and "0 < total_blocks s" and "unat (sb_inode_count s) \<le> 4 * unat (sb_inode_blocks s)"
    and "unat (sb_inode_count s) \<le> 33554432"
  using assms by (auto simp: geometry_def total_blocks_def)

lemma areas_disjoint:
  assumes "geometry s"
  shows "bitmap_area s \<inter> inode_area s = {}" "bitmap_area s \<inter> data_area s = {}" "inode_area s \<inter> data_area s = {}"
  using assms by (auto simp: geometry_def bitmap_area_def inode_area_def data_area_def area_def)

lemma unat_add3:
  "unat a + unat b + unat c < 4294967296 \<Longrightarrow> unat (a + b + c) = unat a + unat b + unat c" for a b c :: u32
  by (simp add: unat_word_ariths)

lemma bitmap_sec_area:
  assumes "geometry s" and "unat b < total_blocks s"
  shows "unat (bitmap_sec s b) = unat (nvfs_offset s) + unat (sb_bitmap_start s) + unat b div 4096"
    and "lba28 (bitmap_sec s b) = bitmap_sec s b" and "bitmap_sec s b \<in> bitmap_area s"
proof -
  note l = geometryD [OF assms(1)]
  have d: "unat (b div 4096) = unat b div 4096" by (simp add: unat_div)
  have q: "unat b div 4096 < unat (sb_bitmap_sectors s)"
    using assms(2) by (simp add: total_blocks_def less_mult_imp_div_less)
  show u: "unat (bitmap_sec s b) = unat (nvfs_offset s) + unat (sb_bitmap_start s) + unat b div 4096"
    using l(1) q d by (simp add: bitmap_sec_def unat_add3)
  show "lba28 (bitmap_sec s b) = bitmap_sec s b" by (rule lba28_small) (use u l(1) q in linarith)
  show "bitmap_sec s b \<in> bitmap_area s" using u q by (simp add: bitmap_area_def area_def)
qed

lemma data_sec_area:
  assumes "geometry s" and "unat b < total_blocks s"
  shows "unat (data_sec s b) = unat (nvfs_offset s) + unat (sb_data_start s) + unat b"
    and "lba28 (data_sec s b) = data_sec s b" and "data_sec s b \<in> data_area s"
proof -
  note l = geometryD [OF assms(1)]
  show u: "unat (data_sec s b) = unat (nvfs_offset s) + unat (sb_data_start s) + unat b"
    using l(3) assms(2) by (simp add: data_sec_def unat_add3)
  show "lba28 (data_sec s b) = data_sec s b" by (rule lba28_small) (use u l(3) assms(2) in linarith)
  show "data_sec s b \<in> data_area s" using u assms(2) by (simp add: data_area_def area_def)
qed

lemma data_sec_inj: "data_sec s a = data_sec s b \<longleftrightarrow> a = b"
  by (simp add: data_sec_def)

lemma inode_slot:
  assumes "unat i < 33554432"
  shows "unat (i * 128) = unat i * 128" and "unat (i * 128 div 512) = unat i div 4" and "inode_off i = unat i mod 4 * 128"
proof -
  show m: "unat (i * 128) = unat i * 128" using assms by (subst unat_mult_lem [THEN iffD1]) auto
  show "unat (i * 128 div 512) = unat i div 4"
    unfolding unat_div m by simp
  show "inode_off i = unat i mod 4 * 128"
    unfolding inode_off_def NVFS_INODE_SIZE_def NVFS_SECTOR_SIZE_def unat_mod m
    using mod_mult_mult2 [of "unat i" 128 4] by simp
qed

lemma inode_sec_area:
  assumes "geometry s" and "i < sb_inode_count s"
  shows "unat (inode_sec s i) = unat (nvfs_offset s) + unat (sb_inode_start s) + unat i div 4"
    and "lba28 (inode_sec s i) = inode_sec s i" and "inode_sec s i \<in> inode_area s"
    and "inode_off i = unat i mod 4 * 128"
proof -
  note l = geometryD [OF assms(1)]
  have i: "unat i < 4 * unat (sb_inode_blocks s)" using assms(2) l(5) by (simp add: word_less_nat_alt)
  have lt: "unat i < 33554432" using assms(2) l(6) by (simp add: word_less_nat_alt)
  note slot = inode_slot [OF lt]
  have q: "unat i div 4 < unat (sb_inode_blocks s)" using i by (simp add: less_mult_imp_div_less mult.commute)
  show u: "unat (inode_sec s i) = unat (nvfs_offset s) + unat (sb_inode_start s) + unat i div 4"
    using l(2) q slot(2) by (simp add: inode_sec_def unat_add3)
  show "lba28 (inode_sec s i) = inode_sec s i" by (rule lba28_small) (use u l(2) q in linarith)
  show "inode_sec s i \<in> inode_area s" using u q by (simp add: inode_area_def area_def)
  show "inode_off i = unat i mod 4 * 128" by (rule slot(3))
qed

end
