(* ===== verification/NvfsFiles.thy ===== *)
theory NvfsFiles
  imports NvfsDisk
begin

text \<open>
  Reading and replacing the contents of files. The contents of a file are defined from the
  sectors alone; the operations are compared with them under every sequence of faults, so
  the results cover I/O errors and the loss of power, after which every transfer fails.
\<close>

section \<open>Contents\<close>

definition inode_of :: "fs \<Rightarrow> u32 \<Rightarrow> nvfs_inode" where
  "inode_of s i = get_inode (sectors s (inode_sec s i)) (inode_off i)"

definition extents_of :: "fs \<Rightarrow> nvfs_inode \<Rightarrow> nvfs_extent list" where
  "extents_of s inode =
     (let n = unat (extent_count inode)
      in if n \<le> 13 then take n (extents inode)
         else take 13 (extents inode) @
              get_extents (min (n - 13) 64) (sectors s (data_sec s (ext_start (extents inode ! 13)))) 0)"

definition file_blocks :: "fs \<Rightarrow> nvfs_inode \<Rightarrow> u32 list" where
  "file_blocks s inode = blocks_of (extents_of s inode)"

definition bytes_of :: "fs \<Rightarrow> u32 list \<Rightarrow> nat \<Rightarrow> u8 list" where
  "bytes_of s bs n = take n (concat (map (\<lambda>b. map (sectors s (data_sec s b)) [0..<512]) bs))"

definition contents :: "fs \<Rightarrow> nvfs_inode \<Rightarrow> u8 list" where
  "contents s inode = bytes_of s (file_blocks s inode) (unat (isize inode))"

text \<open>All blocks of a file, the indirect block included, are blocks of the bitmap in use.\<close>

definition file_ok :: "fs \<Rightarrow> nvfs_inode \<Rightarrow> bool" where
  "file_ok s inode \<longleftrightarrow>
     (\<forall>b \<in> set (file_blocks s inode). unat b < total_blocks s \<and> used s b) \<and>
     (unat (extent_count inode) > 13 \<longrightarrow>
        unat (ext_start (extents inode ! 13)) < total_blocks s \<and> used s (ext_start (extents inode ! 13)))"

lemma inode_readD:
  "inode_read i s = (r, s') \<Longrightarrow> only A s s' \<and> (\<forall>x. r = Some x \<longrightarrow> i < sb_inode_count s \<and> x = inode_of s i)"
  using read_sectorD [of "inode_sec s i" s]
  by (auto simp: inode_read_def inode_of_def split: prod.splits option.splits if_splits)

lemma extent_load_allD:
  assumes "extent_load_all inode EXTENT_CACHE_MAX s = (r, s')"
  shows "only A s s'" and "\<forall>x. r = Some x \<longrightarrow> x = extents_of s inode"
proof -
  let ?ind = "ext_start (extents inode ! 13)"
  obtain x s1 where x: "read_block ?ind s = (x, s1)" by fastforce
  from read_blockD [OF x] assms show "only A s s'" "\<forall>x. r = Some x \<longrightarrow> x = extents_of s inode"
    by (auto simp: extent_load_all_def indirect_read_extents_def extents_of_def Let_def x split: if_splits option.splits)
qed

lemma read_blocksD:
  "read_blocks bs left s = (r, s') \<Longrightarrow> only A s s' \<and> (\<forall>xs. r = Some xs \<longrightarrow> xs = bytes_of s bs left)"
proof (induction bs arbitrary: left s r s')
  case (Cons b bs)
  show ?case
  proof (cases "left = 0")
    case True
    with Cons.prems show ?thesis by (auto simp: bytes_of_def)
  next
    case False
    obtain x s1 where x: "read_block b s = (x, s1)" by fastforce
    note xd = read_blockD [OF x]
    show ?thesis
    proof (cases x)
      case None
      with Cons.prems x xd False show ?thesis by auto
    next
      case (Some tmp)
      obtain y s2 where y: "read_blocks bs (left - min 512 left) s1 = (y, s2)" by fastforce
      from Cons.IH [OF y] have o: "only A s1 s2" and ys: "\<forall>ys. y = Some ys \<longrightarrow> ys = bytes_of s1 bs (left - min 512 left)" by auto
      have s1: "sectors s1 l = sectors s l" "data_sec s1 b' = data_sec s b'" for l b'
        using xd [of "{}"] only_sectors [of "{}" s s1 l] only_data_sec [of "{}" s s1 b'] by auto
      have "s' = s2" using Cons.prems x Some y False by (auto split: option.splits)
      then have "only A s s'" using only_trans [of A s s1 s2] xd o by blast
      moreover have "xs = bytes_of s (b # bs) left" if "r = Some xs" for xs
      proof -
        from that Cons.prems x Some y False obtain ys where e: "y = Some ys" "xs = map tmp [0..<min 512 left] @ ys"
          by (auto split: option.splits)
        have "tmp = sectors s (data_sec s b)" using xd [of "{}"] Some by auto
        moreover have "ys = bytes_of s bs (left - min 512 left)" using ys e(1) by (simp add: bytes_of_def s1)
        ultimately show ?thesis
          using e(2) by (auto simp: bytes_of_def min_def take_map take_upt)
      qed
      ultimately show ?thesis by blast
    qed
  qed
qed (auto simp: bytes_of_def)

lemma extent_readD:
  assumes "extent_read inode mx s = (r, s')"
  shows "only A s s'" and "\<forall>xs. r = Some xs \<longrightarrow> xs = take (unat mx) (contents s inode)"
proof -
  obtain x s1 where x: "extent_load_all inode EXTENT_CACHE_MAX s = (x, s1)" by fastforce
  note xd = extent_load_allD [OF x]
  have m: "unat (min (isize inode) mx) = min (unat mx) (unat (isize inode))"
    by (simp add: min_def word_le_nat_alt)
  have "only A s s' \<and> (\<forall>xs. r = Some xs \<longrightarrow> xs = take (unat mx) (contents s inode))"
  proof (cases x)
    case None
    with assms x xd(1) show ?thesis by (auto simp: extent_read_def)
  next
    case (Some cache)
    with assms x have rd: "read_blocks (blocks_of cache) (unat (min (isize inode) mx)) s1 = (r, s')"
      by (simp add: extent_read_def)
    have s1: "sectors s1 l = sectors s l" "data_sec s1 b' = data_sec s b'" for l b'
      using xd(1) [of "{}"] only_sectors [of "{}" s s1 l] only_data_sec [of "{}" s s1 b'] by auto
    have "bytes_of s1 (blocks_of cache) (unat (min (isize inode) mx)) = take (unat mx) (contents s inode)"
      using xd(2) Some by (simp add: contents_def file_blocks_def bytes_of_def s1 m)
    then show ?thesis using read_blocksD [OF rd] only_trans [of A s s1 s'] xd(1) by auto
  qed
  then show "only A s s'" "\<forall>xs. r = Some xs \<longrightarrow> xs = take (unat mx) (contents s inode)" by blast+
qed

text \<open>Contents depend on the blocks of the file only.\<close>

lemma contents_cong:
  assumes "only A s s'" and "unat (extent_count inode) > 13 \<longrightarrow> lba28 (data_sec s (ext_start (extents inode ! 13))) \<notin> A"
    and "\<And>b. b \<in> set (file_blocks s inode) \<Longrightarrow> lba28 (data_sec s b) \<notin> A"
  shows "contents s' inode = contents s inode" and "file_blocks s' inode = file_blocks s inode"
proof -
  note o = only_data_sec [OF assms(1)]
  have "extents_of s' inode = extents_of s inode"
    using assms(2) only_sectors [OF assms(1)] by (simp add: extents_of_def Let_def o)
  then show b: "file_blocks s' inode = file_blocks s inode" by (simp add: file_blocks_def)
  have "map (\<lambda>b. map (sectors s' (data_sec s' b)) [0..<512]) (file_blocks s inode) =
        map (\<lambda>b. map (sectors s (data_sec s b)) [0..<512]) (file_blocks s inode)"
    using assms(3) only_sectors [OF assms(1)] by (auto simp: o)
  then show "contents s' inode = contents s inode" unfolding contents_def bytes_of_def b by (rule arg_cong)
qed

lemma only_layout: "only A s s' \<Longrightarrow> total_blocks s' = total_blocks s \<and> bitmap_area s' = bitmap_area s \<and>
    inode_area s' = inode_area s \<and> data_area s' = data_area s"
  by (simp add: total_blocks_def bitmap_area_def inode_area_def data_area_def only_fields)

lemma only_geometry: "only A s s' \<Longrightarrow> geometry s' = geometry s"
  by (simp add: geometry_def total_blocks_def only_fields)

section \<open>Writing blocks\<close>

lemma bitmap_set_only:
  assumes "geometry s" and "unat b < total_blocks s"
  shows "only (bitmap_area s) s (snd (bitmap_set b u s))"
proof (cases "bitmap_set b u s")
  case (Pair r s')
  have "{lba28 (bitmap_sec s b)} \<subseteq> bitmap_area s" using bitmap_sec_area(2,3) [OF assms] by simp
  with bitmap_setD(1) [OF Pair] Pair show ?thesis using only_mono by auto
qed

lemma free_blocks_only:
  "geometry s \<Longrightarrow> \<forall>b \<in> set bs. unat b < total_blocks s \<Longrightarrow> only (bitmap_area s) s (free_blocks bs s)"
proof (induction bs arbitrary: s)
  case (Cons b bs)
  let ?s = "snd (bitmap_set b False s)"
  have o: "only (bitmap_area s) s ?s" using Cons.prems by (intro bitmap_set_only) auto
  have "only (bitmap_area ?s) ?s (free_blocks bs ?s)"
    using Cons.prems o only_geometry [OF o] only_layout [OF o] by (intro Cons.IH) auto
  with o show ?case using only_trans only_layout [OF o] by (auto simp: free_blocks_def)
qed (simp add: free_blocks_def)

text \<open>The bytes that the loop puts into a block whose first byte is at position \<open>p\<close> of the data.\<close>

definition block_of :: "nat \<Rightarrow> (nat \<Rightarrow> u8) \<Rightarrow> nat \<Rightarrow> sector" where
  "block_of remain data p k = (if k < min 512 remain then data (p + k) else 0)"

definition run_area :: "fs \<Rightarrow> u32 \<Rightarrow> nat \<Rightarrow> u32 set" where
  "run_area s b n = (\<lambda>k. data_sec s (b + of_nat k)) ` {0..<n}"

lemma unat_add_small: "unat b + k < 4294967296 \<Longrightarrow> unat (b + of_nat k) = unat b + k" for b :: u32
  by (simp add: unat_word_ariths unat_of_nat)

lemma run_area_Suc: "run_area s b (Suc n) = insert (data_sec s b) (run_area s (b + 1) n)"
proof -
  have "{0..<Suc n} = insert 0 (Suc ` {0..<n})" by (simp add: atLeast0_lessThan_Suc_eq_insert_0)
  then show ?thesis unfolding run_area_def by (simp add: image_image add.assoc del: image_Suc_atLeastLessThan)
qed

lemma run_area_data:
  assumes "geometry s" and "unat b + n \<le> total_blocks s"
  shows "run_area s b n \<subseteq> data_area s"
proof -
  have t: "total_blocks s \<le> 268435456" using geometryD(3) [OF assms(1)] by simp
  show ?thesis
    using assms(2) t by (auto simp: run_area_def unat_add_small intro!: data_sec_area(3) [OF assms(1)])
qed

lemma run_area_head:
  assumes "n < 4294967295"
  shows "data_sec s b \<notin> run_area s (b + 1) n"
proof -
  have "b + 1 + of_nat k \<noteq> b" if "k < n" for k
  proof
    assume "b + 1 + of_nat k = b"
    then have "(of_nat (Suc k) :: u32) = 0" by (simp add: add.assoc)
    then have "unat (of_nat (Suc k) :: u32) = 0" by simp
    then show False using that assms by (simp only: unat_of_nat) simp
  qed
  then show ?thesis by (auto simp: run_area_def data_sec_inj)
qed

lemma write_blocksD:
  assumes "write_blocks n b pos remain data s = (j, s')" and "geometry s" and "unat b + n \<le> total_blocks s"
  shows "only (bitmap_area s \<union> run_area s b n) s s'" and "j \<le> n"
    and "\<forall>k<j. sectors s' (data_sec s (b + of_nat k)) = block_of remain data (pos + k * min 512 remain)"
proof -
  have "only (bitmap_area s \<union> run_area s b n) s s' \<and> j \<le> n \<and>
      (\<forall>k<j. sectors s' (data_sec s (b + of_nat k)) = block_of remain data (pos + k * min 512 remain))"
    using assms
  proof (induction n arbitrary: b pos s j s')
    case (Suc n)
    let ?copy = "min 512 remain" and ?A = "bitmap_area s \<union> run_area s b (Suc n)"
    have t: "total_blocks s \<le> 268435456" using geometryD(3) [OF Suc.prems(2)] by simp
    have b: "unat b < total_blocks s" "unat (b + 1) = unat b + 1"
      using Suc.prems(3) t unat_add_small [of b 1] by auto
    note ds = data_sec_area [OF Suc.prems(2) b(1)]
    obtain r s1 where w: "write_block b (block_of remain data pos) s = (r, s1)" by fastforce
    let ?s2 = "snd (bitmap_set b True s1)"
    have o1: "only {data_sec s b} s s1" using write_blockD(1) [OF w] ds(2) by simp
    have g1: "geometry s1" "total_blocks s1 = total_blocks s" "bitmap_area s1 = bitmap_area s"
      using only_geometry [OF o1] only_layout [OF o1] Suc.prems(2) by auto
    have o2: "only (bitmap_area s) s1 ?s2" using bitmap_set_only [of s1 b True] g1 b(1) by simp
    have "only ?A s s1" "only ?A s1 ?s2" using o1 o2 only_mono by (auto simp: run_area_Suc elim!: only_mono)
    then have o12: "only ?A s ?s2" and oA: "only ?A s s1" using only_trans by blast+
    have bf: "(\<lambda>k. if k < 512 \<and> k < remain then data (pos + k) else 0) = block_of remain data pos"
      by (simp add: block_of_def fun_eq_iff)
    show ?case
    proof (cases "r = 0")
      case False
      with Suc.prems(1) w have "j = 0" "s' = s1" by (simp_all add: Let_def bf)
      with oA show ?thesis by simp
    next
      case True
      obtain j' s3 where rest: "write_blocks n (b + 1) (pos + ?copy) remain data ?s2 = (j', s3)" by fastforce
      with Suc.prems(1) w True have j: "j = Suc j'" "s' = s3" by (simp_all add: Let_def bf)
      note g = only_geometry [OF o12] only_layout [OF o12] only_data_sec [OF o12]
      have ra: "run_area ?s2 (b + 1) n = run_area s (b + 1) n" by (simp add: run_area_def g)
      have ih: "only (bitmap_area s \<union> run_area s (b + 1) n) ?s2 s'" "j' \<le> n"
        "\<forall>k<j'. sectors s' (data_sec s (b + 1 + of_nat k)) = block_of remain data (pos + ?copy + k * ?copy)"
        using Suc.IH [OF rest] Suc.prems g b j ra by auto
      have "only ?A s s'" using o12 only_mono [OF ih(1), of ?A] only_trans by (auto simp: run_area_Suc)
      moreover have "sectors s' (data_sec s b) = block_of remain data pos"
      proof -
        have ba: "data_sec s b \<notin> bitmap_area s" using ds(3) areas_disjoint(2) [OF Suc.prems(2)] by blast
        have "n < 4294967295" using Suc.prems(3) t by simp
        then have nr: "data_sec s b \<notin> run_area s (b + 1) n" by (rule run_area_head)
        have "sectors s1 (data_sec s b) = block_of remain data pos" using write_blockD(2) [OF w] True by simp
        moreover have "sectors ?s2 (data_sec s b) = sectors s1 (data_sec s b)"
          using only_sectors [OF o2] ds(2) ba by simp
        moreover have "sectors s' (data_sec s b) = sectors ?s2 (data_sec s b)"
          using only_sectors [OF ih(1)] ds(2) ba nr by simp
        ultimately show ?thesis by simp
      qed
      moreover have "sectors s' (data_sec s (b + of_nat k)) = block_of remain data (pos + k * ?copy)" if "k < j" for k
      proof (cases k)
        case 0
        with calculation(2) show ?thesis by simp
      next
        case (Suc k')
        have "b + of_nat k = b + 1 + of_nat k'" using Suc by simp
        moreover have "pos + k * ?copy = pos + ?copy + k' * ?copy" using Suc by simp
        ultimately show ?thesis using ih(3) that j(1) Suc by (simp add: add.assoc)
      qed
      ultimately show ?thesis using ih(2) j(1) by simp
    qed
  qed simp
  then show "only (bitmap_area s \<union> run_area s b n) s s'" "j \<le> n"
    "\<forall>k<j. sectors s' (data_sec s (b + of_nat k)) = block_of remain data (pos + k * min 512 remain)" by blast+
qed

text \<open>What the blocks of a run hold after the loop are the caller's bytes.\<close>

lemma concat_chunks: "concat (map (\<lambda>k. map f [512 * k..<512 * k + 512]) [0..<n]) = map f [0..<512 * n]"
proof (induction n)
  case (Suc n)
  have "[0..<512 * Suc n] = [0..<512 * n] @ [512 * n..<512 * n + 512]"
    using upt_add_eq_append [of 0 "512 * n" 512] by (simp add: add.commute)
  with Suc show ?case by simp
qed simp

lemma bytes_of_run:
  assumes "0 < sz" and "\<forall>k<n. sectors s (data_sec s (b + of_nat k)) = block_of sz data (k * min 512 sz)"
    and "n = (sz + 511) div 512"
  shows "bytes_of s (map (\<lambda>k. b + of_nat k) [0..<n]) sz = map data [0..<sz]"
proof (cases "sz < 512")
  case True
  then have "n = 1" using assms(1,3) by simp
  then show ?thesis using True assms(2) by (simp add: bytes_of_def block_of_def take_map take_upt)
next
  case False
  have "map (\<lambda>k. map (sectors s (data_sec s (b + of_nat k))) [0..<512]) [0..<n] =
        map (\<lambda>k. map data [512 * k..<512 * k + 512]) [0..<n]"
    (is "?l = ?r")
  proof (rule map_cong [OF refl])
    fix k assume "k \<in> set [0..<n]"
    then have "sectors s (data_sec s (b + of_nat k)) = block_of sz data (k * 512)" using assms(2) False by (simp add: min_def)
    then show "map (sectors s (data_sec s (b + of_nat k))) [0..<512] = map data [512 * k..<512 * k + 512]"
      using False by (intro nth_equalityI) (auto simp: block_of_def mult.commute)
  qed
  then have "concat ?l = map data [0..<512 * n]" using concat_chunks [of data n] by (rule subst [OF sym])
  moreover have "sz \<le> 512 * n" using assms(3) by simp
  ultimately show ?thesis by (simp add: bytes_of_def comp_def take_map take_upt)
qed

definition free_area :: "fs \<Rightarrow> u32 set" where
  "free_area s = bitmap_area s \<union> data_sec s ` {b. unat b < total_blocks s \<and> \<not> used s b}"

lemma free_area_cong: "only {} s s' \<Longrightarrow> free_area s' = free_area s"
  using only_layout [of "{}" s s'] used_cong [of s s'] only_data_sec [of "{}" s s']
  by (simp add: free_area_def image_def)

lemma needed_blocks:
  assumes "unat sz + 511 < 4294967296"
  shows "unat ((sz + 512 - 1) div 512 :: u32) = (unat sz + 511) div 512"
proof -
  have "sz + 512 - 1 = sz + of_nat 511" by simp
  moreover have "unat (sz + of_nat 511) = unat sz + 511" by (rule unat_add_small [OF assms])
  ultimately show ?thesis by (simp only: unat_div) simp
qed

lemma extent_writeD:
  assumes "extent_write inode data sz s = (r, inode', s')" and l: "layout s" and sz: "unat sz + 511 < 4294967296"
  shows "only (free_area s) s s'"
    and "r = -1 \<and> inode' = inode \<or>
         r = 0 \<and> contents s' inode' = map data [0..<unat sz] \<and>
         unat (extent_count inode') \<le> 1 \<and> (\<forall>b \<in> set (file_blocks s' inode'). unat b < total_blocks s \<and> \<not> used s b) \<and>
         (inode_wf inode \<longrightarrow> inode_wf inode') \<and> itype inode' = itype inode"
proof -
  let ?n = "(sz + NVFS_SECTOR_SIZE - 1) div NVFS_SECTOR_SIZE"
  let ?Q = "only (free_area s) s s' \<and> (r = -1 \<and> inode' = inode \<or>
         r = 0 \<and> contents s' inode' = map data [0..<unat sz] \<and>
         unat (extent_count inode') \<le> 1 \<and> (\<forall>b \<in> set (file_blocks s' inode'). unat b < total_blocks s \<and> \<not> used s b) \<and>
         (inode_wf inode \<longrightarrow> inode_wf inode') \<and> itype inode' = itype inode)"
  have g: "geometry s" using l by (simp add: layout_def)
  have t: "total_blocks s \<le> 268435456" using geometryD(3) [OF g] by simp
  have ?Q
  proof (cases "sz = 0")
    case True
    with assms(1) show ?thesis
      by (auto simp: extent_write_def contents_def file_blocks_def extents_of_def bytes_of_def blocks_of_def inode_wf_def)
  next
    case False
    have n: "unat ?n = (unat sz + 511) div 512" using needed_blocks [OF sz] by simp
    have pos: "0 < unat sz" using False by (simp add: unat_gt_0)
    then have n0: "0 < unat ?n" unfolding n by simp
    obtain f s1 where f: "bitmap_find ?n s = (f, s1)" by fastforce
    note fd = bitmap_findD [OF f l n0]
    show ?thesis
    proof (cases "f = -1")
      case True
      with assms(1) f False fd(1) show ?thesis by (auto simp: extent_write_def elim: only_mono)
    next
      case nf: False
      then obtain b where b: "f = int (unat b)" "unat b + unat ?n \<le> total_blocks s"
        "\<forall>k < unat ?n. \<not> used s (b + of_nat k)" using fd(2) by blast
      have bf: "of_int f = b" using b(1) by simp
      obtain j s2 where w: "write_blocks (unat ?n) b 0 (unat sz) data s1 = (j, s2)" by fastforce
      note o1 = fd(1)
      have g1: "geometry s1" "total_blocks s1 = total_blocks s" "bitmap_area s1 = bitmap_area s"
        "run_area s1 b m = run_area s b m" "data_sec s1 x = data_sec s x" for m x
        using only_geometry [OF o1] only_layout [OF o1] only_data_sec [OF o1] g by (auto simp: run_area_def)
      have wd: "only (bitmap_area s \<union> run_area s b (unat ?n)) s1 s2" "j \<le> unat ?n"
        "\<forall>k<j. sectors s2 (data_sec s (b + of_nat k)) = block_of (unat sz) data (k * min 512 (unat sz))"
        using write_blocksD [OF w g1(1)] b(2) by (simp_all add: g1)
      have ra: "run_area s b (unat ?n) \<subseteq> data_sec s ` {b. unat b < total_blocks s \<and> \<not> used s b}"
        using b(2,3) t by (auto simp: run_area_def unat_add_small)
      have "bitmap_area s \<union> run_area s b (unat ?n) \<subseteq> free_area s" using ra by (auto simp: free_area_def)
      then have o2: "only (free_area s) s s2"
        using only_mono [OF wd(1)] only_mono [OF o1, of "free_area s"] only_trans by blast
      have g2: "geometry s2" "total_blocks s2 = total_blocks s" "bitmap_area s2 = bitmap_area s" "data_sec s2 x = data_sec s x" for x
        using only_geometry [OF o2] only_layout [OF o2] only_data_sec [OF o2] g by auto
      show ?thesis
      proof (cases "j < unat ?n")
        case True
        let ?s3 = "free_blocks (map (\<lambda>k. b + of_nat k) [0..<j]) s2"
        have "only (bitmap_area s2) s2 ?s3"
          using b(2) True t g2 by (intro free_blocks_only) (auto simp: unat_add_small)
        then have "only (free_area s) s ?s3"
          using o2 only_trans only_mono [of "bitmap_area s" s2 ?s3 "free_area s"] g2 by (auto simp: free_area_def)
        moreover have "r = -1" "inode' = inode" "s' = ?s3"
          using assms(1) f False b(1) bf w True by (simp_all add: extent_write_def Let_def)
        ultimately show ?thesis by simp
      next
        case j: False
        have e: "r = 0" "s' = s2" "inode' = inode\<lparr>isize := sz, extent_count := 1,
                 extents := \<lparr>ext_start = b, ext_count = ?n\<rparr> # replicate 13 \<lparr>ext_start = 0, ext_count = 0\<rparr>\<rparr>"
          using assms(1) f False b(1) bf w j by (simp_all add: extent_write_def Let_def)
        have fb: "file_blocks s' inode' = map (\<lambda>k. b + of_nat k) [0..<unat ?n]"
          by (simp add: e file_blocks_def extents_of_def blocks_of_def)
        have "j = unat ?n" using j wd(2) by simp
        then have "contents s' inode' = map data [0..<unat sz]"
          using bytes_of_run [OF pos _ n, of s' b data] wd(3) e(2) fb g2 by (simp add: contents_def e(3))
        moreover have "\<forall>b \<in> set (file_blocks s' inode'). unat b < total_blocks s \<and> \<not> used s b"
          using b(2,3) t unfolding fb by (auto simp: unat_add_small)
        ultimately show ?thesis using o2 e by (auto simp: inode_wf_def)
      qed
    qed
  qed
  then show "only (free_area s) s s'"
    "r = -1 \<and> inode' = inode \<or>
         r = 0 \<and> contents s' inode' = map data [0..<unat sz] \<and>
         unat (extent_count inode') \<le> 1 \<and> (\<forall>b \<in> set (file_blocks s' inode'). unat b < total_blocks s \<and> \<not> used s b) \<and>
         (inode_wf inode \<longrightarrow> inode_wf inode') \<and> itype inode' = itype inode" by blast+
qed

section \<open>Writing inodes\<close>

lemma inode_writeD:
  assumes "inode_write i inode s = (r, s')" and "geometry s" and "i < sb_inode_count s"
  shows "only {inode_sec s i} s s'"
    and "r = 0 \<and> sectors s' (inode_sec s i) = put_inode inode (inode_off i) (sectors s (inode_sec s i)) \<or> r = -1 \<and> only {} s s'"
proof -
  obtain x s1 where x: "read_sector (inode_sec s i) s = (x, s1)" by fastforce
  note xd = read_sectorD [OF x]
  note lb = inode_sec_area(2) [OF assms(2,3)]
  have i: "inode_sec s1 i = inode_sec s i" using only_fields(15) [of "{}" s s1] xd by blast
  have "only {inode_sec s i} s s' \<and>
    (r = 0 \<and> sectors s' (inode_sec s i) = put_inode inode (inode_off i) (sectors s (inode_sec s i)) \<or> r = -1 \<and> only {} s s')"
  proof (cases x)
    case None
    with assms(1,3) x have "s' = s1" "r = -1" by (simp_all add: inode_write_def not_le [symmetric])
    with xd show ?thesis by simp
  next
    case (Some buf)
    with assms(1,3) x i have w: "write_sector (inode_sec s i) (put_inode inode (inode_off i) buf) s1 = (r, s')"
      by (simp add: inode_write_def not_le [symmetric])
    have "buf = sectors s (inode_sec s i)" using xd Some by simp
    then show ?thesis
      using write_sectorD [OF w] xd only_trans [of "{inode_sec s i}" s s1 s'] only_trans [of "{}" s s1 s'] lb by auto
  qed
  then show "only {inode_sec s i} s s'"
    "r = 0 \<and> sectors s' (inode_sec s i) = put_inode inode (inode_off i) (sectors s (inode_sec s i)) \<or> r = -1 \<and> only {} s s'"
    by blast+
qed

lemma inode_of_cong:
  assumes "only A s s'" and "lba28 (inode_sec s i) \<notin> A"
  shows "inode_of s' i = inode_of s i"
  using only_sectors [OF assms] by (simp add: inode_of_def only_fields(15) [OF assms(1)])

lemma inode_of_wf [simp]: "inode_wf (inode_of s i)"
  by (simp add: inode_of_def)

lemma inode_slots_apart:
  assumes "geometry s" and "i < sb_inode_count s" and "j < sb_inode_count s" and "i \<noteq> j"
  shows "inode_sec s i \<noteq> inode_sec s j \<or> inode_off j + 128 \<le> inode_off i \<or> inode_off i + 128 \<le> inode_off j"
proof (cases "unat i div 4 = unat j div 4")
  case True
  moreover have "unat i \<noteq> unat j" using assms(4) by (simp add: word_unat_eq_iff)
  ultimately have "unat i mod 4 \<noteq> unat j mod 4" by (metis div_mult_mod_eq)
  then show ?thesis using inode_sec_area(4) [OF assms(1,2)] inode_sec_area(4) [OF assms(1,3)] by auto
next
  case False
  then show ?thesis using inode_sec_area(1) [OF assms(1,2)] inode_sec_area(1) [OF assms(1,3)] by (metis add_left_cancel)
qed

lemma inode_write_inode_of:
  assumes "inode_write i inode s = (0, s')" and "geometry s" and "i < sb_inode_count s" and "inode_wf inode"
  shows "inode_of s' i = inode"
  using inode_writeD [OF assms(1-3)] only_fields(15) [of "{inode_sec s i}" s s' i]
  by (auto simp: inode_of_def get_put_inode [OF assms(4)])

lemma inode_write_other:
  assumes "inode_write i inode s = (r, s')" and "geometry s" and "i < sb_inode_count s" and "inode_wf inode"
    and "j < sb_inode_count s" and "j \<noteq> i"
  shows "inode_of s' j = inode_of s j"
proof -
  note w = inode_writeD [OF assms(1-3)]
  note lb = inode_sec_area(2) [OF assms(2,5)]
  from w(2) consider "r = 0" "sectors s' (inode_sec s i) = put_inode inode (inode_off i) (sectors s (inode_sec s i))" | "only {} s s'"
    by blast
  then show ?thesis
  proof cases
    case 1
    show ?thesis
    proof (cases "inode_sec s j = inode_sec s i")
      case True
      then have "inode_off j + 128 \<le> inode_off i \<or> inode_off i + 128 \<le> inode_off j"
        using inode_slots_apart [OF assms(2,3,5)] assms(6) by auto
      then have "get_inode (put_inode inode (inode_off i) (sectors s (inode_sec s i))) (inode_off j) =
        get_inode (sectors s (inode_sec s i)) (inode_off j)"
        by (intro get_inode_cong put_inode_outside [OF assms(4)]) auto
      then show ?thesis using 1 True only_fields(15) [OF w(1)] by (simp add: inode_of_def)
    next
      case False
      then show ?thesis using inode_of_cong [OF w(1)] lb by simp
    qed
  next
    case 2
    then show ?thesis by (rule inode_of_cong) simp
  qed
qed

section \<open>Replacing the contents of a file\<close>

text \<open>Blocks in use are not in the area that a write may change, and neither is the inode table.\<close>

lemma file_ok_apart:
  assumes "geometry s" and "file_ok s inode"
  shows "\<And>b. b \<in> set (file_blocks s inode) \<Longrightarrow> lba28 (data_sec s b) \<notin> free_area s \<union> inode_area s"
    and "unat (extent_count inode) > 13 \<longrightarrow> lba28 (data_sec s (ext_start (extents inode ! 13))) \<notin> free_area s \<union> inode_area s"
proof -
  have n: "lba28 (data_sec s b) \<notin> free_area s \<union> inode_area s" if "unat b < total_blocks s" "used s b" for b
    using data_sec_area(2,3) [OF assms(1) that(1)] that(2) areas_disjoint(2,3) [OF assms(1)]
    by (auto simp: free_area_def data_sec_inj)
  then show "\<And>b. b \<in> set (file_blocks s inode) \<Longrightarrow> lba28 (data_sec s b) \<notin> free_area s \<union> inode_area s"
    "unat (extent_count inode) > 13 \<longrightarrow> lba28 (data_sec s (ext_start (extents inode ! 13))) \<notin> free_area s \<union> inode_area s"
    using assms(2) by (auto simp: file_ok_def)
qed

lemma file_kept:
  assumes "only (free_area s \<union> inode_area s) s s'" and "geometry s" and "file_ok s inode"
  shows "contents s' inode = contents s inode"
  using contents_cong(1) [OF assms(1)] file_ok_apart [OF assms(2,3)] by blast

lemma inode_not_free:
  assumes "geometry s" and "i < sb_inode_count s"
  shows "lba28 (inode_sec s i) \<notin> free_area s"
  using inode_sec_area(2,3) [OF assms] areas_disjoint(1,3) [OF assms(1)] data_sec_area(3) [OF assms(1)]
  by (auto simp: free_area_def)

lemma contents_mtime [simp]: "contents s (inode\<lparr>mtime := t\<rparr>) = contents s inode"
  by (simp add: contents_def file_blocks_def extents_of_def Let_def)

lemma layout_cong: "only {} s s' \<Longrightarrow> layout s' = layout s"
  by (simp add: layout_def only_geometry only_layout used_cong)

text \<open>The last step of a replacement: the old blocks, with the indirect block, leave the bitmap.\<close>

lemma free_old_only:
  assumes "geometry s" and "\<forall>b \<in> set bs. unat b < total_blocks s" and "ind \<noteq> 0 \<longrightarrow> unat ind < total_blocks s"
  shows "only (bitmap_area s) s (if ind \<noteq> 0 then snd (bitmap_set ind False (free_blocks bs s)) else free_blocks bs s)"
proof -
  let ?s = "free_blocks bs s"
  have o: "only (bitmap_area s) s ?s" using assms(1,2) by (rule free_blocks_only)
  have "only (bitmap_area s) ?s (snd (bitmap_set ind False ?s))" if "ind \<noteq> 0"
    using bitmap_set_only [of ?s ind False] assms that only_geometry [OF o] only_layout [OF o] by simp
  then show ?thesis using o only_trans by auto
qed

lemma new_contents_kept:
  assumes "only (bitmap_area s \<union> inode_area s) s s'" and "geometry s" and "unat (extent_count inode) \<le> 1"
    and "\<forall>b \<in> set (file_blocks s inode). unat b < total_blocks s"
  shows "contents s' inode = contents s inode"
proof (rule contents_cong(1) [OF assms(1)])
  show "lba28 (data_sec s b) \<notin> bitmap_area s \<union> inode_area s" if "b \<in> set (file_blocks s inode)" for b
    using data_sec_area(2,3) [OF assms(2)] assms(4) that areas_disjoint(2,3) [OF assms(2)] by auto
qed (use assms(3) in simp)

lemma replace_contentsD:
  assumes run: "replace_contents i (inode_of s i) data sz s = (r, s')" and l: "layout s" and ok: "file_ok s (inode_of s i)"
    and i: "i < sb_inode_count s" and sz: "unat sz + 511 < 4294967296"
  shows "only (free_area s \<union> inode_area s) s s'"
    and "r = 0 \<and> contents s' (inode_of s' i) = map data [0..<unat sz] \<and> itype (inode_of s' i) = itype (inode_of s i) \<or>
         r = -1 \<and> inode_of s' i = inode_of s i"
    and "j < sb_inode_count s \<Longrightarrow> j \<noteq> i \<Longrightarrow> inode_of s' j = inode_of s j"
proof -
  let ?F = "free_area s \<union> inode_area s" and ?I = "inode_of s i"
  let ?Q = "only ?F s s' \<and> (r = 0 \<and> contents s' (inode_of s' i) = map data [0..<unat sz] \<and> itype (inode_of s' i) = itype ?I \<or>
         r = -1 \<and> inode_of s' i = ?I) \<and> (\<forall>j. j < sb_inode_count s \<longrightarrow> j \<noteq> i \<longrightarrow> inode_of s' j = inode_of s j)"
  have g: "geometry s" using l by (simp add: layout_def)
  obtain x s1 where x: "extent_load_all ?I EXTENT_CACHE_MAX s = (x, s1)" by fastforce
  note xd = extent_load_allD [OF x]
  note o1 = xd(1) [of "{}"]
  have F: "only ?F s t \<Longrightarrow> only ?F s (fail_with e t)" for t e using only_trans only_fail_with by blast
  have keep: "only A s t \<Longrightarrow> A \<subseteq> free_area s \<Longrightarrow> k < sb_inode_count s \<Longrightarrow> inode_of (fail_with e t) k = inode_of s k \<and> inode_of t k = inode_of s k" for A t e k
  proof -
    assume a: "only A s t" "A \<subseteq> free_area s" "k < sb_inode_count s"
    have o: "only A t (fail_with e t)" by simp
    have "lba28 (inode_sec s k) \<notin> A" using inode_not_free [OF g a(3)] a(2) by blast
    then show ?thesis using inode_of_cong [OF a(1)] inode_of_cong [OF only_trans [OF a(1) o]] by blast
  qed
  have ?Q
  proof (cases x)
    case None
    with run x have e: "r = -1" "s' = fail_with NVFS_ERR_IO s1" by (simp_all add: replace_contents_def)
    then show ?thesis using F [OF xd(1)] keep [OF o1] i by simp
  next
    case (Some old)
    obtain r2 inode s2 where w: "extent_write ?I data sz s1 = (r2, inode, s2)" by (metis prod_cases3)
    have l1: "layout s1" using layout_cong [OF o1] l by simp
    note wd = extent_writeD [OF w l1 sz]
    have o2: "only (free_area s) s s2" using only_trans [OF xd(1) [of "free_area s"]] wd(1) free_area_cong [OF o1] by simp
    have o2': "only ?F s s2" using o2 by (rule only_mono) simp
    show ?thesis
    proof (cases "r2 = 0")
      case False
      with run x Some w have e: "r = -1" "s' = fail_with NVFS_ERR_NO_SPACE s2" by (simp_all add: replace_contents_def Let_def)
      then show ?thesis using F [OF o2'] keep [OF o2] i by simp
    next
      case True
      have new: "contents s2 inode = map data [0..<unat sz]" "unat (extent_count inode) \<le> 1" "inode_wf inode"
          "\<forall>b \<in> set (file_blocks s2 inode). unat b < total_blocks s" "itype inode = itype ?I"
        using wd(2) True only_layout [OF o1] by auto
      let ?inode = "inode\<lparr>mtime := now_sec s2\<rparr>"
      obtain r3 s3 where iw: "inode_write i ?inode s2 = (r3, s3)" by fastforce
      have g2: "geometry s2" "total_blocks s2 = total_blocks s" "bitmap_area s2 = bitmap_area s" "inode_area s2 = inode_area s"
        "sb_inode_count s2 = sb_inode_count s"
        using only_geometry [OF o2] only_layout [OF o2] only_fields(9) [OF o2] g by auto
      have wf: "inode_wf ?inode" using new(3) by (simp add: inode_wf_def)
      have i2: "i < sb_inode_count s2" using i g2 by simp
      note iwd = inode_writeD [OF iw g2(1) i2]
      have sec: "inode_sec s2 i \<in> inode_area s" using inode_sec_area(3) [OF g2(1) i2] g2(4) by simp
      have o3: "only ?F s s3" using only_trans [OF o2' only_mono [OF iwd(1)]] sec by simp
      have oth: "j < sb_inode_count s \<Longrightarrow> j \<noteq> i \<Longrightarrow> inode_of s3 j = inode_of s j" for j
        using inode_write_other [OF iw g2(1) i2 wf] g2(5) keep [OF o2] by simp
      have fw: "inode_of (fail_with e t) k = inode_of t k" for e t k
        by (rule inode_of_cong [of "{}"]) simp_all
      show ?thesis
      proof (cases "r3 = 0")
        case False
        with run x Some w True iw have e: "r = -1" "s' = fail_with NVFS_ERR_IO s3" by (simp_all add: replace_contents_def Let_def)
        have "only {} s2 s3" using iwd(2) False by blast
        then have "inode_of s3 i = inode_of s2 i" by (rule inode_of_cong) simp
        then show ?thesis using e F [OF o3] oth keep [OF o2 _ i] fw by simp
      next
        case r3: True
        let ?ind = "if unat (extent_count ?I) > 13 then ext_start (extents ?I ! 13) else 0"
        have e: "r = 0" "s' = (if ?ind \<noteq> 0 then snd (bitmap_set ?ind False (free_blocks (blocks_of old) s3)) else free_blocks (blocks_of old) s3)"
          using run x Some w True iw r3 by (auto simp: replace_contents_def Let_def split: if_splits)
        have g3: "geometry s3" "total_blocks s3 = total_blocks s" "bitmap_area s3 = bitmap_area s"
          using only_geometry [OF o3] only_layout [OF o3] g by auto
        have "blocks_of old = file_blocks s ?I" using xd(2) Some by (simp add: file_blocks_def)
        then have o4: "only (bitmap_area s) s3 s'"
          using free_old_only [OF g3(1), of "blocks_of old" ?ind] ok g3 unfolding e(2) by (auto simp: file_ok_def)
        have "only ?F s s'" using only_trans [OF o3 only_mono [OF o4]] by (auto simp: free_area_def)
        moreover have same: "inode_of s' k = inode_of s3 k" if "k < sb_inode_count s" for k
        proof (rule inode_of_cong [OF o4])
          have "k < sb_inode_count s3" using that only_fields(9) [OF o3] by simp
          then show "lba28 (inode_sec s3 k) \<notin> bitmap_area s"
            using inode_sec_area(2,3) [OF g3(1)] areas_disjoint(1) [OF g3(1)] g3(3) by auto
        qed
        moreover have "inode_of s' i = ?inode" using same [OF i] inode_write_inode_of [of i ?inode s2 s3] iw r3 g2(1) i2 wf by simp
        moreover have "contents s' inode = contents s2 inode"
        proof (rule new_contents_kept)
          show "only (bitmap_area s2 \<union> inode_area s2) s2 s'"
            using only_trans [OF only_mono [OF iwd(1)] only_mono [OF o4]] sec g2 by auto
        qed (use new g2 in simp_all)
        ultimately show ?thesis using e(1) oth new by simp
      qed
    qed
  qed
  then show "only ?F s s'" "r = 0 \<and> contents s' (inode_of s' i) = map data [0..<unat sz] \<and> itype (inode_of s' i) = itype (inode_of s i) \<or>
         r = -1 \<and> inode_of s' i = inode_of s i"
    "j < sb_inode_count s \<Longrightarrow> j \<noteq> i \<Longrightarrow> inode_of s' j = inode_of s j" by blast+
qed

section \<open>Lookups change nothing on the disk\<close>

lemma find_entry_only: "find_entry name bs s = (r, s') \<Longrightarrow> only {} s s'"
proof (induction bs arbitrary: s)
  case (Cons b bs)
  obtain x s1 where x: "read_block b s = (x, s1)" by fastforce
  have o: "only {} s s1" using read_blockD [OF x] by blast
  then show ?case
    using Cons.prems Cons.IH [of s1] x only_trans [OF o, of s'] only_trans [OF o only_fail_with]
    by (auto split: option.splits)
qed auto

lemma dir_find_only:
  assumes "dir_find d name s = (r, s')"
  shows "only {} s s'"
proof -
  obtain x s1 where x: "inode_read d s = (x, s1)" by fastforce
  have o1: "only {} s s1" using inode_readD [OF x] by blast
  show ?thesis
  proof (cases x)
    case None
    with assms x show ?thesis using only_trans [OF o1 only_fail_with] by (auto simp: dir_find_def)
  next
    case (Some inode)
    obtain y s2 where y: "extent_load_all inode EXTENT_CACHE_MAX s1 = (y, s2)" by fastforce
    have o2: "only {} s s2" using only_trans [OF o1] extent_load_allD(1) [OF y] by blast
    show ?thesis
      using assms x y Some only_trans [OF o1 only_fail_with] only_trans [OF o2 only_fail_with] only_trans [OF o2 find_entry_only]
      by (auto simp: dir_find_def split: if_splits option.splits)
  qed
qed

lemma names_child_only: "names_child i bs s = (r, s') \<Longrightarrow> only {} s s'"
proof (induction bs arbitrary: s)
  case (Cons b bs)
  obtain x s1 where x: "read_block b s = (x, s1)" by fastforce
  have o: "only {} s s1" using read_blockD [OF x] by blast
  then show ?case
    using Cons.prems Cons.IH [of s1] x only_trans [OF o, of s'] by (auto split: option.splits if_splits)
qed auto

lemma parent_scan_only: "parent_scan n k i s = (r, s') \<Longrightarrow> only {} s s'"
proof (induction n arbitrary: k s)
  case (Suc n)
  obtain x s1 where x: "inode_read k s = (x, s1)" by fastforce
  have o1: "only {} s s1" using inode_readD [OF x] by blast
  have ih: "only {} s t \<Longrightarrow> parent_scan n (k + 1) i t = (r, s') \<Longrightarrow> only {} s s'" for t using Suc.IH only_trans by blast
  show ?case
  proof (cases x)
    case None
    with Suc.prems x o1 ih show ?thesis by auto
  next
    case (Some inode)
    obtain y s2 where y: "extent_load_all inode EXTENT_CACHE_MAX s1 = (y, s2)" by fastforce
    have o2: "only {} s s2" using only_trans [OF o1] extent_load_allD(1) [OF y] by blast
    obtain z s3 where z: "names_child i (blocks_of (the y)) s2 = (z, s3)" by fastforce
    have o3: "only {} s s3" using only_trans [OF o2 names_child_only [OF z]] .
    show ?thesis
      using Suc.prems x y z Some ih [OF o1] ih [OF o2] ih [OF o3] o3
      by (cases y; cases z) (auto split: if_splits)
  qed
qed auto

lemma find_parent_only: "find_parent i s = (r, s') \<Longrightarrow> only {} s s'"
  using parent_scan_only by (auto simp: find_parent_def split: if_splits)

lemma enter_only:
  assumes "enter part cur s = (r, s')"
  shows "only {} s s'"
proof -
  obtain p s1 where p: "find_parent cur s = (p, s1)" by fastforce
  obtain n s2 where n: "dir_find cur (to_upper part) s = (n, s2)" by fastforce
  obtain x s3 where x: "inode_read (of_int n) s2 = (x, s3)" by fastforce
  note o1 = find_parent_only [OF p] and o2 = dir_find_only [OF n]
  have o3: "only {} s s3" using only_trans [OF o2] inode_readD [OF x] by blast
  show ?thesis
    using assms p n x o1 o2 o3 only_trans [OF o1 only_fail_with] only_trans [OF o2 only_fail_with] only_trans [OF o3 only_fail_with]
    by (auto simp: enter_def split: if_splits option.splits)
qed

lemma resolve_loop_only: "resolve_loop n i last_slash seg cur buf s = (r, s') \<Longrightarrow> only {} s s'"
proof (induction n arbitrary: i seg cur s)
  case (Suc n)
  obtain x s1 where x: "enter (take (i - seg) (drop seg buf)) cur s = (x, s1)" by fastforce
  note o = enter_only [OF x]
  show ?case
    using Suc.prems x o only_trans [OF o Suc.IH] Suc.IH by (auto split: if_splits option.splits)
qed auto

lemma resolve_name_only: "resolve_name name cur s = (r, s') \<Longrightarrow> only {} s s'"
  using find_parent_only [of cur s] only_trans [OF _ only_fail_with, of "{}" s]
  by (auto simp: resolve_name_def split: if_splits prod.splits)

lemma resolve_path_only:
  assumes "resolve_path path s = (r, s')"
  shows "only {} s s'"
  using assms resolve_name_only only_trans [OF resolve_loop_only resolve_name_only] resolve_loop_only
  by (auto simp: resolve_path_def Let_def split: if_splits prod.splits option.splits)

lemma with_name_only: "with_name path s = (r, s') \<Longrightarrow> only {} s s'"
  using resolve_path_only [of path s] only_trans [OF _ only_fail_with, of "{}" s]
  by (auto simp: with_name_def split: if_splits prod.splits option.splits)

end
