(* ===== verification/NvfsProps.thy ===== *)
theory NvfsProps
  imports NvfsFiles
begin

text \<open>
  The contracts of \<^verbatim>\<open>nvfs_write\<close> and \<^verbatim>\<open>nvfs_read\<close>: atomic replacement of a file under disk errors, and
  reading back what was written. The witnesses run on a small formatted disk with one file.
\<close>

section \<open>Reading back\<close>

text \<open>What a name in a directory stands for, from the sectors alone.\<close>

fun dir_lookup :: "fs \<Rightarrow> u8 list \<Rightarrow> u32 list \<Rightarrow> int" where
  "dir_lookup s name [] = -1"
| "dir_lookup s name (b # bs) =
     (let tmp = sectors s (data_sec s b)
      in case find (de_match name tmp) [0..<16] of Some e \<Rightarrow> sint (de_inode tmp e) | None \<Rightarrow> dir_lookup s name bs)"

definition quiet :: "fs \<Rightarrow> bool" where
  "quiet s \<longleftrightarrow> ata_exists s (nvfs_ch s) (nvfs_dr s) \<and> faults s = (\<lambda>n. False)"

lemma quiet_read: "quiet s \<Longrightarrow> read_sector l s = (Some (sectors s l), s)"
  by (simp add: quiet_def read_sector_def ata_fails_def next_fault_def)

lemma quiet_read_block: "quiet s \<Longrightarrow> read_block b s = (Some (sectors s (data_sec s b)), s)"
  by (simp add: read_block_def quiet_read data_sec_def)

lemma quiet_inode_read: "quiet s \<Longrightarrow> i < sb_inode_count s \<Longrightarrow> inode_read i s = (Some (inode_of s i), s)"
  by (simp add: inode_read_def quiet_read inode_of_def not_le [symmetric])

lemma quiet_load: "quiet s \<Longrightarrow> extent_load_all inode EXTENT_CACHE_MAX s = (Some (extents_of s inode), s)"
  by (auto simp: extent_load_all_def indirect_read_extents_def extents_of_def Let_def quiet_read_block)

lemma quiet_read_blocks: "quiet s \<Longrightarrow> read_blocks bs left s = (Some (bytes_of s bs left), s)"
proof -
  assume q: "quiet s"
  have "\<exists>xs. read_blocks bs left s = (Some xs, s)"
    by (induction bs arbitrary: left) (auto simp: quiet_read_block [OF q], metis (no_types, lifting) case_prod_conv option.simps(5))
  then show ?thesis using read_blocksD [of bs left s _ s "{}"] by auto
qed

lemma quiet_find_entry:
  "quiet s \<Longrightarrow> dir_lookup s name bs \<noteq> -1 \<Longrightarrow> find_entry name bs s = (dir_lookup s name bs, s)"
  by (induction bs) (auto simp: quiet_read_block Let_def split: option.splits)

lemma dir_lookup_cong:
  assumes "only A s s'" and "\<And>b. b \<in> set bs \<Longrightarrow> lba28 (data_sec s b) \<notin> A"
  shows "dir_lookup s' name bs = dir_lookup s name bs"
  using assms(2) by (induction bs) (simp_all add: only_sectors [OF assms(1)] only_data_sec [OF assms(1)] Let_def split: option.splits)

lemma find_entryD: "find_entry name bs s = (r, s') \<Longrightarrow> r = -1 \<or> r = dir_lookup s name bs"
proof (induction bs arbitrary: s)
  case (Cons b bs)
  obtain x s1 where x: "read_block b s = (x, s1)" by fastforce
  note xd = read_blockD [OF x]
  have "dir_lookup s1 name bs = dir_lookup s name bs"
    using dir_lookup_cong [of "{}" s s1 bs name] xd by simp
  then show ?case using Cons.prems Cons.IH [of s1] x xd by (auto simp: Let_def split: option.splits)
qed auto

lemma quiet_dir_find:
  assumes "quiet s" and "d < sb_inode_count s" and "itype (inode_of s d) = NVFS_TYPE_DIR"
    and "dir_lookup s name (file_blocks s (inode_of s d)) \<noteq> -1"
  shows "dir_find d name s = (dir_lookup s name (file_blocks s (inode_of s d)), s)"
  using assms by (simp add: dir_find_def quiet_inode_read quiet_load [simplified] quiet_find_entry file_blocks_def [symmetric])

lemma quiet_dir_find_found:
  assumes "quiet s" and "d < sb_inode_count s" and "itype (inode_of s d) = NVFS_TYPE_DIR"
    and e: "dir_lookup s name (file_blocks s (inode_of s d)) = int (unat i)"
  shows "dir_find d name s = (int (unat i), s)"
  using quiet_dir_find [OF assms(1-3), of name, unfolded e] by linarith

lemma quiet_extent_read:
  assumes "quiet s"
  shows "extent_read inode mx s = (Some (take (unat mx) (contents s inode)), s)"
proof -
  obtain xs where "extent_read inode mx s = (Some xs, s)"
    using assms by (simp add: extent_read_def quiet_load [simplified] quiet_read_blocks)
  then show ?thesis using extent_readD(2) [of inode mx s "Some xs" s] by simp
qed

text \<open>A path of one component names an entry of the working directory.\<close>

definition simple_name :: "u8 list \<Rightarrow> bool" where
  "simple_name path \<longleftrightarrow> path \<noteq> [] \<and> length path \<le> 255 \<and> slash \<notin> set path \<and> path \<noteq> dot \<and> path \<noteq> dotdot"

lemma with_name_simple:
  assumes "mounted s" and "simple_name path"
  shows "with_name path s = (Some (nvfs_cwd s, to_upper path), s)"
proof -
  have t: "take 255 path = path" using assms(2) by (simp add: simple_name_def)
  have n: "path ! k \<noteq> 47" if "k < length path" for k using assms(2) that by (auto simp: simple_name_def in_set_conv_nth)
  have "filter (\<lambda>i. path ! i = slash) [0..<length path] = []" using n by (auto simp: filter_empty_conv)
  moreover have "path ! 0 \<noteq> 47" using n [of 0] assms(2) by (auto simp: simple_name_def)
  ultimately have "resolve_path path s = resolve_name path (nvfs_cwd s) s"
    using assms(2) by (simp add: resolve_path_def t Let_def simple_name_def)
  also have "\<dots> = (Some (nvfs_cwd s, to_upper path), s)" using assms(2) by (simp add: resolve_name_def simple_name_def)
  finally show ?thesis using assms by (simp add: with_name_def to_upper_def simple_name_def)
qed

text \<open>Reading a file by its name, on a disk that works.\<close>

lemma nvfs_read_simple:
  assumes "quiet s" and "mounted s" and "simple_name path" and "nvfs_cwd s < sb_inode_count s"
    and "itype (inode_of s (nvfs_cwd s)) = NVFS_TYPE_DIR"
    and "dir_lookup s (to_upper path) (file_blocks s (inode_of s (nvfs_cwd s))) = int (unat i)"
    and "i < sb_inode_count s" and "itype (inode_of s i) = NVFS_TYPE_FILE"
  shows "nvfs_read path mx s = (Some (take (unat mx) (contents s (inode_of s i))), s)"
proof -
  have p: "\<not> uint i < 0" using uint_ge_0 [of i] by linarith
  have "dir_find (nvfs_cwd s) (to_upper path) s = (uint i, s)" using quiet_dir_find_found [OF assms(1,4,5) assms(6)] by simp
  then show ?thesis
    using assms p by (simp add: nvfs_read_def with_name_simple lookup_typed_def quiet_inode_read quiet_extent_read)
qed

text \<open>On a disk that works, a write succeeds when the bitmap has a run of the needed length.\<close>

lemma quiet_only: "only A s s' \<Longrightarrow> quiet s \<Longrightarrow> quiet s'"
  using only_quiet by (simp add: quiet_def only_fields)

lemma quiet_write: "quiet s \<Longrightarrow> write_sector l buf s = (0, put_sector l buf s)"
proof -
  assume q: "quiet s"
  then have "next_fault s = s" by (cases s) (simp add: quiet_def next_fault_def)
  with q show ?thesis by (simp add: quiet_def write_sector_def ata_fails_def)
qed

lemma quiet_write_blocks: "quiet s \<Longrightarrow> fst (write_blocks n b pos remain data s) = n"
proof (induction n arbitrary: b pos s)
  case (Suc n)
  let ?l = "nvfs_offset s + sb_data_start s + b" and ?buf = "\<lambda>k. if k < 512 \<and> k < remain then data (pos + k) else 0"
  let ?s = "put_sector ?l ?buf s"
  have q: "quiet ?s" using quiet_only [OF only_put_sector [of ?l "{lba28 ?l}" s]] Suc.prems by simp
  have "quiet (snd (bitmap_set b True ?s))"
    using quiet_only [OF bitmap_setD(1)] q by (cases "bitmap_set b True ?s") simp
  then show ?case using Suc by (simp add: write_block_def quiet_write Let_def split_beta)
qed simp

lemma quiet_inode_write:
  "quiet s \<Longrightarrow> i < sb_inode_count s \<Longrightarrow> fst (inode_write i inode s) = 0"
  by (simp add: inode_write_def quiet_read quiet_write not_le [symmetric])

definition has_room :: "u32 \<Rightarrow> fs \<Rightarrow> bool" where
  "has_room sz s \<longleftrightarrow> sz = 0 \<or> 0 \<le> fst (bitmap_find ((sz + NVFS_SECTOR_SIZE - 1) div NVFS_SECTOR_SIZE) s)"

lemma quiet_replace_contents:
  assumes q: "quiet s" and l: "layout s" and i: "i < sb_inode_count s" and sz: "unat sz + 511 < 4294967296" and room: "has_room sz s"
  shows "fst (replace_contents i inode data sz s) = 0"
proof -
  obtain r inode' s' where w: "extent_write inode data sz s = (r, inode', s')" by (metis prod_cases3)
  note wd = extent_writeD(1) [OF w l sz]
  have "r = 0"
  proof (cases "sz = 0")
    case False
    let ?n = "(sz + NVFS_SECTOR_SIZE - 1) div NVFS_SECTOR_SIZE"
    obtain f s1 where f: "bitmap_find ?n s = (f, s1)" by fastforce
    have "0 < unat sz" using False by (simp add: unat_gt_0)
    then have n: "0 < unat ?n" using needed_blocks [OF sz] by simp
    have "quiet s1" using quiet_only [OF bitmap_findD(1) [OF f l n] q] .
    moreover obtain j s2 where j: "write_blocks (unat ?n) (of_int f) 0 (unat sz) data s1 = (j, s2)" by fastforce
    ultimately have "j = unat ?n" using quiet_write_blocks [of s1 "unat ?n" "of_int f" 0 "unat sz" data] by simp
    then show ?thesis using w f j False room by (simp add: extent_write_def has_room_def Let_def)
  qed (use w in \<open>simp add: extent_write_def\<close>)
  moreover have "fst (inode_write i (inode'\<lparr>mtime := now_sec s'\<rparr>) s') = 0"
    using quiet_inode_write [OF quiet_only [OF wd q]] i only_fields(9) [OF wd] by simp
  ultimately show ?thesis
    using w by (simp add: replace_contents_def quiet_load [OF q, simplified] Let_def split_beta)
qed

section \<open>Properties\<close>


definition ex_dir :: nvfs_inode where
  "ex_dir = \<lparr>isize = 512, itype = 2, ctime = [0, 0, 0], extent_count = 1,
     extents = \<lparr>ext_start = 0, ext_count = 1\<rparr> # replicate 13 \<lparr>ext_start = 0, ext_count = 0\<rparr>, mtime = 0\<rparr>"

definition ex_file :: nvfs_inode where
  "ex_file = \<lparr>isize = 3, itype = 1, ctime = [0, 0, 0], extent_count = 1,
     extents = \<lparr>ext_start = 1, ext_count = 1\<rparr> # replicate 13 \<lparr>ext_start = 0, ext_count = 0\<rparr>, mtime = 0\<rparr>"

definition ex_sector :: "u32 \<Rightarrow> sector" where
  "ex_sector l =
     (if l = 2 then (\<lambda>k. if k = 0 then 3 else if k = 511 then 128 else 0)
      else if l = 3 then put_inode ex_dir 0 (put_inode ex_file 256 (\<lambda>k. 0))
      else if l = 4 then (\<lambda>k. if k = 0 then 65 else if k = 28 then 2 else 0)
      else if l = 5 then (\<lambda>k. if k = 0 then 120 else if k = 1 then 121 else if k = 2 then 122 else 0)
      else (\<lambda>k. 0))"

definition ex_fs :: "(nat \<Rightarrow> bool) \<Rightarrow> fs" where
  "ex_fs flt = \<lparr>ata_exists = \<lambda>c d. True, disks = \<lambda>c d. ex_sector, faults = flt, fs_ticks = 0, nvfs_errno = 0, mounted = True,
     nvfs_ch = 0, nvfs_dr = 0, nvfs_cwd = 0, sb_data_start = 4, sb_inode_start = 3, sb_inode_count = 4, sb_inode_blocks = 1,
     sb_bitmap_start = 2, sb_bitmap_sectors = 1, nvfs_offset = 0\<rparr>"

lemma ex_fields [simp]:
  "ata_exists (ex_fs flt) c d" "faults (ex_fs flt) = flt" "mounted (ex_fs flt)" "nvfs_cwd (ex_fs flt) = 0"
  "sb_data_start (ex_fs flt) = 4" "sb_inode_start (ex_fs flt) = 3" "sb_inode_count (ex_fs flt) = 4"
  "sb_inode_blocks (ex_fs flt) = 1" "sb_bitmap_start (ex_fs flt) = 2" "sb_bitmap_sectors (ex_fs flt) = 1"
  "nvfs_offset (ex_fs flt) = 0" "next_fault (ex_fs flt) = ex_fs (\<lambda>n. flt (Suc n))"
  by (simp_all add: ex_fs_def next_fault_def)

lemma ex_sectors: "sectors (ex_fs flt) l = ex_sector (l AND 0x0FFFFFFF)"
  by (simp add: sectors_def ex_fs_def)

lemma ex_wf: "inode_wf ex_dir" "inode_wf ex_file"
  by (simp_all add: ex_dir_def ex_file_def inode_wf_def)

lemma ex_inodes: "inode_of (ex_fs flt) 0 = ex_dir" "inode_of (ex_fs flt) 2 = ex_file"
proof -
  have "get_inode (put_inode ex_dir 0 (put_inode ex_file 256 (\<lambda>k. 0))) 256 = get_inode (put_inode ex_file 256 (\<lambda>k. 0)) 256"
    by (intro get_inode_cong put_inode_outside ex_wf) simp
  then show "inode_of (ex_fs flt) 0 = ex_dir" "inode_of (ex_fs flt) 2 = ex_file"
    by (simp_all add: inode_of_def inode_sec_def inode_off_def ex_sectors ex_sector_def get_put_inode ex_wf)
qed

lemma ex_layout: "layout (ex_fs flt)"
  by (simp add: layout_def geometry_def total_blocks_def used_def bitmap_sec_def ex_sectors ex_sector_def buf_bit_def)


lemma ex_blocks: "file_blocks (ex_fs flt) ex_file = [1]" "file_blocks (ex_fs flt) ex_dir = [0]"
  by (simp_all add: file_blocks_def extents_of_def ex_file_def ex_dir_def blocks_of_def)

lemma ex_used: "used (ex_fs flt) 0" "used (ex_fs flt) 1"
  by (simp_all add: used_def bitmap_sec_def ex_sectors ex_sector_def buf_bit_def)

lemma ex_file_ok: "file_ok (ex_fs flt) ex_file" "file_ok (ex_fs flt) ex_dir"
  using ex_used by (simp_all add: file_ok_def ex_blocks total_blocks_def) (simp_all add: ex_file_def ex_dir_def)

lemma ex_contents: "contents (ex_fs flt) ex_file = [120, 121, 122]"
proof -
  have "unat (isize ex_file) = 3" by (simp add: ex_file_def)
  moreover have "take 3 [0..<512] = [0..<3]" by (subst take_upt) simp_all
  moreover have "sectors (ex_fs flt) (data_sec (ex_fs flt) 1) = ex_sector 5" by (simp add: data_sec_def ex_sectors)
  ultimately have "contents (ex_fs flt) ex_file = map (ex_sector 5) [0..<3]"
    by (simp only: contents_def ex_blocks bytes_of_def take_map list.map concat.simps append_Nil2)
  then show ?thesis by (simp add: ex_sector_def upt_rec)
qed

lemma ex_with_name: "with_name [97] (ex_fs flt) = (Some (0, [65]), ex_fs flt)"
  by (simp add: with_name_def resolve_path_def resolve_name_def to_upper_def)

lemma ex_entry: "find (de_match [65] (ex_sector 4)) [0..<16] = Some 0" "de_inode (ex_sector 4) 0 = 2"
proof -
  have "de_match [65] (ex_sector 4) 0"
    by (simp add: de_match_def de_inode_def de_name_def ex_sector_def get32_def de32_def)
  then show "find (de_match [65] (ex_sector 4)) [0..<16] = Some 0" by (simp add: upt_rec)
  show "de_inode (ex_sector 4) 0 = 2"
    by (simp add: de_inode_def ex_sector_def get32_def de32_def)
qed

lemma ex_find:
  assumes "\<not> flt 0" and "\<not> flt 1"
  shows "dir_find 0 [65] (ex_fs flt) = (2, ex_fs (\<lambda>n. flt (n + 2)))"
proof -
  have r: "inode_read 0 (ex_fs flt) = (Some ex_dir, ex_fs (\<lambda>n. flt (Suc n)))"
    using assms ex_inodes(1) [of flt]
    by (simp add: inode_read_def read_sector_def ata_fails_def inode_of_def)
  have "itype ex_dir = 2" "extent_load_all ex_dir EXTENT_CACHE_MAX s = (Some [\<lparr>ext_start = 0, ext_count = 1\<rparr>], s)" for s
    by (simp_all add: ex_dir_def extent_load_all_def)
  then show ?thesis
    using r assms ex_entry
    by (simp add: dir_find_def blocks_of_def read_block_def read_sector_def ata_fails_def ex_sectors)
qed



lemma ex_room: "has_room 3 (ex_fs (\<lambda>n. False))"
proof -
  let ?b = "\<lambda>k. if k = 0 then 3 else if k = 511 then 128 else 0 :: u8"
  have b: "\<not> buf_bit ?b 2" "buf_bit ?b 0" "buf_bit ?b 1" by (simp_all add: buf_bit_def)
  have "find_bit (Suc (Suc (Suc 4093))) 0 0 4096 1 ?b s = (Some 2, s)" for s
    by (simp only: find_bit.simps) (simp add: b)
  then have f: "find_bit 4096 0 0 4096 1 ?b s = (Some 2, s)" for s by simp
  have "bitmap_find 1 (ex_fs (\<lambda>n. False)) = (2, ex_fs (\<lambda>n. False))"
    by (simp add: bitmap_find_def read_sector_def ata_fails_def ex_sectors ex_sector_def f)
  then show ?thesis by (simp add: has_room_def)
qed


text \<open>
  C40: An inode written to the inode table is the inode read back, and every other inode of the
  table, also one in the same sector, keeps its value.
\<close>

theorem inode_write_table:
  assumes "geometry s" and "i < sb_inode_count s" and "inode_wf inode" and "inode_write i inode s = (0, s')"
    and "j < sb_inode_count s" and "quiet s'"
  shows "inode_read j s' = (Some (if j = i then inode else inode_of s j), s')"
proof -
  have "inode_of s' j = (if j = i then inode else inode_of s j)"
    using inode_write_inode_of [OF assms(4,1,2,3)] inode_write_other [OF assms(4,1,2,3,5)] by simp
  moreover have "j < sb_inode_count s'" using only_fields(9) [OF inode_writeD(1) [OF assms(4,1,2)]] assms(5) by simp
  ultimately show ?thesis using quiet_inode_read [OF assms(6), of j] by simp
qed

theorem inode_write_table_witness:
  "let (r, s') = inode_write 1 ex_file (ex_fs (\<lambda>n. False))
   in r = 0 \<and> inode_read 1 s' = (Some ex_file, s') \<and> inode_read 0 s' = (Some ex_dir, s') \<and> inode_read 2 s' = (Some ex_file, s')"
proof -
  let ?s = "ex_fs (\<lambda>n. False)"
  have q: "quiet ?s" by (simp add: quiet_def)
  obtain s' where w: "inode_write 1 ex_file ?s = (0, s')"
    using quiet_inode_write [OF q, of 1 ex_file] by (cases "inode_write 1 ex_file ?s") simp
  have g: "geometry ?s" using ex_layout by (simp add: layout_def)
  have q': "quiet s'" using quiet_only [OF inode_writeD(1) [OF w g] q] by simp
  show ?thesis
    using inode_write_table [OF g _ ex_wf(2) w _ q', of 1] inode_write_table [OF g _ ex_wf(2) w _ q', of 0]
      inode_write_table [OF g _ ex_wf(2) w _ q', of 2] w by (simp add: ex_inodes)
qed

end
