(* ===== verification/Ports.thy ===== *)
theory Ports
  imports Pfa
begin

text \<open>
  Port I/O and the clock as the drivers see them (\<^verbatim>\<open>kernel/cpu/ports.h\<close>,
  \<^verbatim>\<open>kernel/cpu/timer.c\<close>), and PCI configuration access (\<^verbatim>\<open>kernel/drivers/pci.c\<close>). The
  devices are not part of the program: what the successive reads of a port deliver, and what
  the successive reads of the tick counter find, are arbitrary sequences of the state. What
  is written to the ports is a log.
\<close>

record io =
  port_in :: "u16 \<Rightarrow> nat \<Rightarrow> u32"
  port_out :: "(u16 \<times> u32) list"
  tick_in :: "nat \<Rightarrow> u32"

section \<open>Port instructions\<close>

definition inl :: "u16 \<Rightarrow> 'a io_scheme \<Rightarrow> u32 \<times> 'a io_scheme" where
  "inl port s = (port_in s port 0, s\<lparr>port_in := (port_in s)(port := \<lambda>n. port_in s port (Suc n))\<rparr>)"

definition inw :: "u16 \<Rightarrow> 'a io_scheme \<Rightarrow> u16 \<times> 'a io_scheme" where
  "inw port s = (case inl port s of (v, s) \<Rightarrow> (ucast v, s))"

definition inb :: "u16 \<Rightarrow> 'a io_scheme \<Rightarrow> u8 \<times> 'a io_scheme" where
  "inb port s = (case inl port s of (v, s) \<Rightarrow> (ucast v, s))"

definition outl :: "u16 \<Rightarrow> u32 \<Rightarrow> 'a io_scheme \<Rightarrow> 'a io_scheme" where
  "outl port data s = s\<lparr>port_out := port_out s @ [(port, data)]\<rparr>"

definition outw :: "u16 \<Rightarrow> u16 \<Rightarrow> 'a io_scheme \<Rightarrow> 'a io_scheme" where
  "outw port data s = outl port (ucast data) s"

definition outb :: "u16 \<Rightarrow> u8 \<Rightarrow> 'a io_scheme \<Rightarrow> 'a io_scheme" where
  "outb port data s = outl port (ucast data) s"

definition get_ticks :: "'a io_scheme \<Rightarrow> u32 \<times> 'a io_scheme" where
  "get_ticks s = (tick_in s 0, s\<lparr>tick_in := \<lambda>n. tick_in s (Suc n)\<rparr>)"

lemma io_more [simp]:
  "io.more (snd (inl p s)) = io.more s" "io.more (snd (inw p s)) = io.more s" "io.more (snd (inb p s)) = io.more s"
  "io.more (outl p v s) = io.more s" "io.more (outw p v' s) = io.more s" "io.more (outb p v'' s) = io.more s"
  "io.more (snd (get_ticks s)) = io.more s"
  by (simp_all add: inl_def inw_def inb_def outl_def outw_def outb_def get_ticks_def)

section \<open>Polling with a timeout\<close>

text \<open>
  The polling loops of the network code: while fewer than \<open>timeout\<close> ticks have passed since \<open>start\<close>,
  one round, which either ends the loop with a result or continues it. \<open>None\<close> stands for a loop
  that does not end.
\<close>

partial_function (option) poll_while ::
  "u32 \<Rightarrow> u32 \<Rightarrow> ('a io_scheme \<Rightarrow> ('r \<times> 'a io_scheme + 'a io_scheme) option) \<Rightarrow> 'r \<Rightarrow> 'a io_scheme \<Rightarrow> ('r \<times> 'a io_scheme) option" where
  "poll_while start timeout round late s =
     (case get_ticks s of (now, s) \<Rightarrow>
      if now - start < timeout
      then Option.bind (round s) (\<lambda>x. case x of Inl rs \<Rightarrow> Some rs | Inr s \<Rightarrow> poll_while start timeout round late s)
      else Some (late, s))"

text \<open>What reading the clock and every round keep, the loop keeps.\<close>

lemma poll_while_inv:
  assumes run: "poll_while start timeout round late s = Some (r, s')" and s: "I s"
    and ticks: "\<And>s. I s \<Longrightarrow> I (snd (get_ticks s))"
    and round: "\<And>s x. I s \<Longrightarrow> round s = Some x \<Longrightarrow> case x of Inl rs \<Rightarrow> I (snd rs) | Inr s \<Rightarrow> I s"
  shows "I s'"
proof -
  have "round = round' \<longrightarrow> I s \<longrightarrow> I (snd y)" if "poll_while start timeout round' late s = Some y" for round' y
  proof (rule poll_while.raw_induct [where P = "\<lambda>start timeout round' late s y. round = round' \<longrightarrow> I s \<longrightarrow> I (snd y)", OF _ that], goal_cases)
    case (1 f start timeout round' late s y)
    obtain t s1 where t: "get_ticks s = (t, s1)" by fastforce
    show ?case
    proof (intro impI)
      assume e: "round = round'" and "I s"
      then have s1: "I s1" using ticks [of s] t by simp
      show "I (snd y)"
      proof (cases "t - start < timeout")
        case True
        with 1(2) t obtain x where x: "round' s1 = Some x"
          and y: "(case x of Inl rs \<Rightarrow> Some rs | Inr s \<Rightarrow> f start timeout round' late s) = Some y"
          by (auto simp: bind_eq_Some_conv)
        then show ?thesis using round [OF s1] e 1(1) [of start timeout round' late _ y] by (cases x) auto
      qed (use 1(2) t s1 in auto)
    qed
  qed
  then show ?thesis using run s by fastforce
qed

section \<open>Widening\<close>

lemma unat_ucast_widen [simp]:
  "unat (ucast (a :: u8) :: u16) = unat a" "unat (ucast (a :: u8) :: u32) = unat a" "unat (ucast (b :: u16) :: u32) = unat b"
proof -
  have "unat a < 2 ^ 16" "unat a < 2 ^ 32" "unat b < 2 ^ 32"
    using less_le_trans [OF unat_lt_2p8 [of a], of "2 ^ 16"] less_le_trans [OF unat_lt_2p8 [of a], of "2 ^ 32"]
      less_le_trans [OF unat_lt_2p16 [of b], of "2 ^ 32"] by simp_all
  then show "unat (ucast a :: u16) = unat a" "unat (ucast a :: u32) = unat a" "unat (ucast b :: u32) = unat b"
    by (simp_all add: unsigned_ucast_eq take_bit_nat_eq_self)
qed

section \<open>PCI configuration space\<close>

definition PCI_ADDR_PORT :: u16 where "PCI_ADDR_PORT = 0xCF8"
definition PCI_DATA_PORT :: u16 where "PCI_DATA_PORT = 0xCFC"

definition pci_addr :: "u8 \<Rightarrow> u8 \<Rightarrow> u8 \<Rightarrow> u8 \<Rightarrow> u32" where
  "pci_addr bus slot func offset =
     0x80000000 OR push_bit 16 (ucast bus) OR push_bit 11 (ucast (slot AND 0x1F)) OR
     push_bit 8 (ucast (func AND 0x07)) OR ucast (offset AND 0xFC)"

definition pci_config_read :: "u8 \<Rightarrow> u8 \<Rightarrow> u8 \<Rightarrow> u8 \<Rightarrow> 'a io_scheme \<Rightarrow> u32 \<times> 'a io_scheme" where
  "pci_config_read bus slot func offset s =
     inl PCI_DATA_PORT (outl PCI_ADDR_PORT (pci_addr bus slot func offset) s)"

definition pci_config_write :: "u8 \<Rightarrow> u8 \<Rightarrow> u8 \<Rightarrow> u8 \<Rightarrow> u32 \<Rightarrow> 'a io_scheme \<Rightarrow> 'a io_scheme" where
  "pci_config_write bus slot func offset val s =
     outl PCI_DATA_PORT val (outl PCI_ADDR_PORT (pci_addr bus slot func offset) s)"

text \<open>The three loops of \<open>pci_find_device\<close>; \<open>None\<close> when a loop ends without returning.\<close>

fun find_func :: "nat \<Rightarrow> nat \<Rightarrow> nat \<Rightarrow> nat \<Rightarrow> u16 \<Rightarrow> u16 \<Rightarrow> 'a io_scheme \<Rightarrow> u16 option \<times> 'a io_scheme" where
  "find_func 0 bus slot func vendor device s = (None, s)"
| "find_func (Suc n) bus slot func vendor device s =
     (case pci_config_read (of_nat bus) (of_nat slot) (of_nat func) 0 s of (vd, s) \<Rightarrow>
      if vd AND 0xFFFF = ucast vendor \<and> drop_bit 16 vd AND 0xFFFF = ucast device
      then (Some (push_bit 8 (of_nat bus) OR push_bit 3 (of_nat slot) OR of_nat func), s)
      else if func = 0
      then case pci_config_read (of_nat bus) (of_nat slot) (of_nat func) 0x0C s of (hdr, s) \<Rightarrow>
           if hdr AND 0x800000 = 0 then (None, s) else find_func n bus slot (Suc func) vendor device s
      else find_func n bus slot (Suc func) vendor device s)"

fun find_slot :: "nat \<Rightarrow> nat \<Rightarrow> nat \<Rightarrow> u16 \<Rightarrow> u16 \<Rightarrow> 'a io_scheme \<Rightarrow> u16 option \<times> 'a io_scheme" where
  "find_slot 0 bus slot vendor device s = (None, s)"
| "find_slot (Suc n) bus slot vendor device s =
     (case find_func 8 bus slot 0 vendor device s of
        (Some d, s) \<Rightarrow> (Some d, s)
      | (None, s) \<Rightarrow> find_slot n bus (Suc slot) vendor device s)"

fun find_bus :: "nat \<Rightarrow> nat \<Rightarrow> u16 \<Rightarrow> u16 \<Rightarrow> 'a io_scheme \<Rightarrow> u16 option \<times> 'a io_scheme" where
  "find_bus 0 bus vendor device s = (None, s)"
| "find_bus (Suc n) bus vendor device s =
     (case find_slot 32 bus 0 vendor device s of
        (Some d, s) \<Rightarrow> (Some d, s)
      | (None, s) \<Rightarrow> find_bus n (Suc bus) vendor device s)"

definition pci_find_device :: "u16 \<Rightarrow> u16 \<Rightarrow> 'a io_scheme \<Rightarrow> u16 \<times> 'a io_scheme" where
  "pci_find_device vendor device s =
     (case find_bus 256 0 vendor device s of (Some d, s) \<Rightarrow> (d, s) | (None, s) \<Rightarrow> (0xFFFF, s))"

definition pci_read_bar :: "u8 \<Rightarrow> u8 \<Rightarrow> u8 \<Rightarrow> nat \<Rightarrow> 'a io_scheme \<Rightarrow> u32 \<times> 'a io_scheme" where
  "pci_read_bar bus slot func bar s = pci_config_read bus slot func (0x10 + of_nat bar * 4) s"

definition pci_read_int_line :: "u8 \<Rightarrow> u8 \<Rightarrow> u8 \<Rightarrow> 'a io_scheme \<Rightarrow> u8 \<times> 'a io_scheme" where
  "pci_read_int_line bus slot func s =
     (case pci_config_read bus slot func 0x3C s of (v, s) \<Rightarrow> (ucast (drop_bit 8 v), s))"

definition pci_unpack :: "u16 \<Rightarrow> u8 \<times> u8 \<times> u8" where
  "pci_unpack dev = (ucast (drop_bit 8 dev AND 0xFF), ucast (drop_bit 3 dev AND 0x1F), ucast (dev AND 0x07))"

section \<open>The interval timer\<close>

text \<open>
  \<open>init_timer\<close> divides by its argument; the other part of the timer, its interrupt handler, is
  in the theory of tasks. It returns the milliseconds per tick that \<open>sleep_ms\<close> uses.
\<close>

definition PIT_CONTROL :: u16 where "PIT_CONTROL = 0x43"
definition PIT_CHANNEL0 :: u16 where "PIT_CHANNEL0 = 0x40"
definition PIT_FREQ :: u32 where "PIT_FREQ = 1193182"

definition init_timer :: "u32 \<Rightarrow> 'a io_scheme \<Rightarrow> u32 \<times> 'a io_scheme" where
  "init_timer freq s =
     (let tick_ms = 1000 div freq; divisor = PIT_FREQ div freq;
          s = outb PIT_CONTROL 0x36 s;
          s = outb PIT_CHANNEL0 (ucast (divisor AND 0xFF)) s;
          s = outb PIT_CHANNEL0 (ucast (drop_bit 8 divisor AND 0xFF)) s
      in (tick_ms, s))"

text \<open>The wait of \<open>sleep_ms\<close>; it may not end when the tick counter stands still.\<close>

partial_function (option) wait_ticks :: "u32 \<Rightarrow> u32 \<Rightarrow> 'a io_scheme \<Rightarrow> 'a io_scheme option" where
  "wait_ticks start ticks s =
     (case get_ticks s of (t, s) \<Rightarrow> if t - start < ticks then wait_ticks start ticks s else Some s)"

definition sleep_ticks :: "u32 \<Rightarrow> u32 \<Rightarrow> u32" where
  "sleep_ticks tick_ms ms =
     (if ms > 0xFFFFFFFF - (tick_ms - 1) then 0xFFFFFFFF else (ms + tick_ms - 1) div tick_ms)"

definition sleep_ms :: "u32 \<Rightarrow> u32 \<Rightarrow> 'a io_scheme \<Rightarrow> 'a io_scheme option" where
  "sleep_ms tick_ms ms s = (case get_ticks s of (start, s) \<Rightarrow> wait_ticks start (sleep_ticks tick_ms ms) s)"

end
