(* ===== verification/Rtl8139.thy ===== *)
theory Rtl8139
  imports Ports
begin

text \<open>
  The network card driver of \<^verbatim>\<open>kernel/drivers/rtl8139.c\<close>. The receive ring and the transmit buffers
  lie in physical memory; during one call of \<open>rtl8139_recv\<close> the ring does not change.
\<close>

section \<open>State\<close>

definition RT_IDR0 :: u16 where "RT_IDR0 = 0x00"
definition RT_TX_STATUS :: u16 where "RT_TX_STATUS = 0x10"
definition RT_TX_ADDR :: u16 where "RT_TX_ADDR = 0x20"
definition RT_RBSTART :: u16 where "RT_RBSTART = 0x30"
definition RT_CR :: u16 where "RT_CR = 0x37"
definition RT_CAPR :: u16 where "RT_CAPR = 0x38"
definition RT_CBR :: u16 where "RT_CBR = 0x3A"
definition RT_IMR :: u16 where "RT_IMR = 0x3C"
definition RT_ISR :: u16 where "RT_ISR = 0x3E"
definition RT_TX_CONFIG :: u16 where "RT_TX_CONFIG = 0x40"
definition RT_RX_CONFIG :: u16 where "RT_RX_CONFIG = 0x44"
definition RT_CONFIG1 :: u16 where "RT_CONFIG1 = 0x52"
definition CR_RST :: u8 where "CR_RST = 0x10"
definition CR_RE :: u8 where "CR_RE = 0x08"
definition CR_TE :: u8 where "CR_TE = 0x04"
definition RCR_APM :: u32 where "RCR_APM = 0x02"
definition RCR_AB :: u32 where "RCR_AB = 0x08"
definition TX_HOST_OWNS :: u32 where "TX_HOST_OWNS = 0x2000"
definition TX_STAT_OK :: u32 where "TX_STAT_OK = 0x8000"
definition RX_STAT_OK :: u16 where "RX_STAT_OK = 0x0001"
definition TX_CONFIG_VALUE :: u32 where "TX_CONFIG_VALUE = push_bit 24 3 OR push_bit 8 6 OR push_bit 4 15"
definition RX_CONFIG_VALUE :: u32 where
  "RX_CONFIG_VALUE = 0 OR push_bit 7 1 OR push_bit 13 7 OR push_bit 8 7 OR RCR_AB OR RCR_APM"
definition RX_BUF_SIZE :: u32 where "RX_BUF_SIZE = 8192"
definition TX_NUM :: nat where "TX_NUM = 4"
definition TX_BUF_SIZE :: u32 where "TX_BUF_SIZE = 2048"
definition RTL_VENDOR :: u16 where "RTL_VENDOR = 0x10EC"
definition RTL_DEVICE :: u16 where "RTL_DEVICE = 0x8139"

record nic = io +
  nic_mem :: mem
  nic_pfa :: pfa
  io_base :: u16
  mac :: "u8 list"
  rx_buf :: u32
  tx_buf_virt :: "u32 list"
  rx_offset :: u32
  tx_in_use :: "bool list"
  tx_next_idx :: nat

section \<open>Initialisation\<close>

fun reset_wait :: "nat \<Rightarrow> 'a nic_scheme \<Rightarrow> 'a nic_scheme" where
  "reset_wait 0 s = s"
| "reset_wait (Suc n) s =
     (case inb (io_base s + RT_CR) s of (v, s) \<Rightarrow> if v AND CR_RST \<noteq> 0 then reset_wait n s else s)"

text \<open>The loop ends with a break after 10001 reads.\<close>

definition rtl8139_reset :: "'a nic_scheme \<Rightarrow> 'a nic_scheme" where
  "rtl8139_reset s = reset_wait 10001 (outb (io_base s + RT_CR) CR_RST s)"

fun read_mac :: "nat \<Rightarrow> u16 \<Rightarrow> 'a nic_scheme \<Rightarrow> u8 list \<times> 'a nic_scheme" where
  "read_mac 0 port s = ([], s)"
| "read_mac (Suc n) port s =
     (case inb port s of (v, s) \<Rightarrow> case read_mac n (port + 1) s of (vs, s) \<Rightarrow> (v # vs, s))"

fun setup_tx :: "nat \<Rightarrow> nat \<Rightarrow> 'a nic_scheme \<Rightarrow> bool \<times> 'a nic_scheme" where
  "setup_tx 0 i s = (True, s)"
| "setup_tx (Suc n) i s =
     (case alloc_frame (nic_pfa s) of (a, p) \<Rightarrow>
      let s = s\<lparr>nic_pfa := p, tx_buf_virt := (tx_buf_virt s)[i := a]\<rparr>
      in if a = 0 then (False, s)
         else let s = s\<lparr>nic_mem := lib_memset a 0 TX_BUF_SIZE (nic_mem s)\<rparr>;
                  s = outl (io_base s + RT_TX_ADDR + of_nat i * 4) a s;
                  s = outl (io_base s + RT_TX_STATUS + of_nat i * 4) TX_HOST_OWNS s
              in setup_tx n (Suc i) (s\<lparr>tx_in_use := (tx_in_use s)[i := False]\<rparr>))"

definition rtl8139_init :: "'a nic_scheme \<Rightarrow> int \<times> 'a nic_scheme" where
  "rtl8139_init s =
     (case pci_find_device RTL_VENDOR RTL_DEVICE s of (dev, s) \<Rightarrow>
      if dev = 0xFFFF then (-1, s)
      else case pci_unpack dev of (bus, slot, func) \<Rightarrow>
      case pci_read_bar bus slot func 0 s of (bar, s) \<Rightarrow>
      let s = s\<lparr>io_base := ucast (bar AND 0xFFFC)\<rparr>
      in case pci_config_read bus slot func 0x04 s of (cmd, s) \<Rightarrow>
      let s = pci_config_write bus slot func 0x04 (cmd OR 0x07) s;
          s = outb (io_base s + RT_CONFIG1) 0x00 s;
          s = rtl8139_reset s
      in case read_mac 6 (io_base s + RT_IDR0) s of (m, s) \<Rightarrow>
      let s = s\<lparr>mac := m\<rparr>
      in case alloc_frames 3 (nic_pfa s) of (a, p) \<Rightarrow>
      let s = s\<lparr>nic_pfa := p, rx_buf := a\<rparr>
      in if a = 0 then (-1, s)
      else let s = s\<lparr>nic_mem := lib_memset a 0 RX_BUF_SIZE (nic_mem s)\<rparr>;
               s = outl (io_base s + RT_RBSTART) a s
      in case setup_tx TX_NUM 0 s of (ok, s) \<Rightarrow>
      if \<not> ok then (-1, s)
      else let s = s\<lparr>tx_next_idx := 0\<rparr>;
               s = outl (io_base s + RT_RX_CONFIG) RX_CONFIG_VALUE s;
               s = outl (io_base s + RT_TX_CONFIG) TX_CONFIG_VALUE s;
               s = outw (io_base s + RT_IMR) 0x0005 s;
               s = outb (io_base s + RT_CR) (CR_RE OR CR_TE) s
      in case inb (io_base s + RT_CR) s of (_, s) \<Rightarrow>
      case inw (io_base s + RT_ISR) s of (_, s) \<Rightarrow>
      case inw (io_base s + RT_CBR) s of (cbr, s) \<Rightarrow>
      let s = s\<lparr>rx_offset := ucast cbr\<rparr>
      in case inl (io_base s + RT_RBSTART) s of (_, s) \<Rightarrow> (0, s))"

definition rtl8139_get_mac :: "'a nic_scheme \<Rightarrow> u8 list" where
  "rtl8139_get_mac s = mac s"

section \<open>Sending\<close>

text \<open>
  Polling a status register for a bit, at most \<open>n\<close> times: the wait for the descriptor and the
  wait for completion of \<open>rtl8139_send\<close>.
\<close>

fun poll_bit :: "nat \<Rightarrow> u16 \<Rightarrow> u32 \<Rightarrow> 'a nic_scheme \<Rightarrow> bool \<times> 'a nic_scheme" where
  "poll_bit 0 port b s = (False, s)"
| "poll_bit (Suc n) port b s =
     (case inl port s of (v, s) \<Rightarrow> if v AND b \<noteq> 0 then (True, s) else poll_bit n port b s)"

text \<open>The packet and its zero padding in the transmit buffer at address \<open>a\<close>.\<close>

definition fill_tx :: "u32 \<Rightarrow> u8 list \<Rightarrow> mem \<Rightarrow> mem" where
  "fill_tx a pkt m =
     (let m = (\<lambda>x. if unat (x - a) < length pkt then pkt ! unat (x - a) else m x)
      in if length pkt < 60 then lib_memset (a + of_nat (length pkt)) 0 (60 - of_nat (length pkt)) m else m)"

definition rtl8139_send :: "u8 list \<Rightarrow> 'a nic_scheme \<Rightarrow> int \<times> 'a nic_scheme" where
  "rtl8139_send pkt s =
     (let len = length pkt; idx = tx_next_idx s; port = io_base s + RT_TX_STATUS + of_nat idx * 4
      in if len < 14 \<or> len > 1514 then (-1, s)
      else case poll_bit 5000000 port TX_HOST_OWNS s of (owned, s) \<Rightarrow>
      if \<not> owned then (-1, s)
      else let s = s\<lparr>tx_in_use := (tx_in_use s)[idx := True]\<rparr>;
               s = s\<lparr>nic_mem := fill_tx (tx_buf_virt s ! idx) pkt (nic_mem s)\<rparr>;
               s = outl port (of_nat (if len < 60 then 60 else len)) s
      in case poll_bit 5000000 port TX_STAT_OK s of (sent, s) \<Rightarrow>
      if sent
      then (0, s\<lparr>tx_in_use := (tx_in_use s)[idx := False], tx_next_idx := (idx + 1) mod TX_NUM\<rparr>)
      else case inl (io_base s + RT_TX_ADDR + of_nat idx * 4) s of (_, s) \<Rightarrow>
           (-2, s\<lparr>tx_in_use := (tx_in_use s)[idx := False]\<rparr>))"

section \<open>Receiving\<close>

definition rd16 :: "mem \<Rightarrow> u32 \<Rightarrow> u16" where
  "rd16 m a = ucast (m a) OR push_bit 8 (ucast (m (a + 1)))"

definition next_rx :: "u32 \<Rightarrow> u16 \<Rightarrow> u32" where
  "next_rx off n = ((off + 4 + ucast n + 3) AND NOT 3) AND (RX_BUF_SIZE - 1)"

text \<open>The bytes of the packet behind the header at \<open>rx_offset\<close>, copied around the end of the ring.\<close>

definition copy_rx :: "u32 \<Rightarrow> u16 \<Rightarrow> 'a nic_scheme \<Rightarrow> (nat \<Rightarrow> u8) \<Rightarrow> (nat \<Rightarrow> u8)" where
  "copy_rx data_off data_len s buf =
     (if data_off + ucast data_len \<le> RX_BUF_SIZE
      then (\<lambda>k. if k < unat data_len then nic_mem s (rx_buf s + data_off + of_nat k) else buf k)
      else let n1 = unat (ucast (RX_BUF_SIZE - data_off) :: u16)
           in (\<lambda>k. if k < n1 then nic_mem s (rx_buf s + data_off + of_nat k)
                   else if k < unat data_len then nic_mem s (rx_buf s + of_nat (k - n1)) else buf k))"

text \<open>
  One entry of the ring: the offset of the next entry, and the caller's buffer and length,
  which keep their values when the entry holds no valid packet.
\<close>

definition take_entry :: "'a nic_scheme \<Rightarrow> (nat \<Rightarrow> u8) \<Rightarrow> u16 \<Rightarrow> (nat \<Rightarrow> u8) \<times> u16 \<times> 'a nic_scheme" where
  "take_entry s buf len =
     (let status = rd16 (nic_mem s) (rx_buf s + rx_offset s); pkt_len = rd16 (nic_mem s) (rx_buf s + rx_offset s + 2)
      in if pkt_len < 4 \<or> pkt_len > 0x2000 then (buf, len, s\<lparr>rx_offset := next_rx (rx_offset s) 4\<rparr>)
      else if status AND RX_STAT_OK = 0 then (buf, len, s\<lparr>rx_offset := next_rx (rx_offset s) pkt_len\<rparr>)
      else let data_len = (if pkt_len - 4 > 1514 then 1514 else pkt_len - 4);
               data_off = (rx_offset s + 4) AND (RX_BUF_SIZE - 1)
           in (copy_rx data_off data_len s buf, data_len, s\<lparr>rx_offset := next_rx (rx_offset s) pkt_len\<rparr>))"

partial_function (option) recv_loop ::
  "u16 \<Rightarrow> (nat \<Rightarrow> u8) \<Rightarrow> u16 \<Rightarrow> 'a nic_scheme \<Rightarrow> (int \<times> (nat \<Rightarrow> u8) \<times> u16 \<times> 'a nic_scheme) option" where
  "recv_loop cbr buf len s =
     (if rx_offset s = ucast cbr then Some (-1, buf, len, s)
      else case take_entry s buf len of (buf, len, s) \<Rightarrow>
           let s = outw (io_base s + RT_CAPR) (ucast ((rx_offset s - 16) AND (RX_BUF_SIZE - 1))) s;
               s = outw (io_base s + RT_ISR) 0x0005 s
           in case inw (io_base s + RT_CBR) s of (cbr, s) \<Rightarrow>
              if len > 0 then Some (0, buf, len, s) else recv_loop cbr buf len s)"

text \<open>\<open>rtl8139_recv\<close> on the caller's buffer and length variable.\<close>

definition rtl8139_recv ::
  "(nat \<Rightarrow> u8) \<Rightarrow> u16 \<Rightarrow> 'a nic_scheme \<Rightarrow> (int \<times> (nat \<Rightarrow> u8) \<times> u16 \<times> 'a nic_scheme) option" where
  "rtl8139_recv buf len s = (case inw (io_base s + RT_CBR) s of (cbr, s) \<Rightarrow> recv_loop cbr buf len s)"

section \<open>What the driver leaves alone\<close>

lemma nic_io_more [simp]:
  "nic.more (snd (inl p s)) = nic.more s" "nic.more (outl p v s) = nic.more s" "nic.more (outw p v' s) = nic.more s"
  "nic.more (snd (inw p s)) = nic.more s" "nic.more (snd (get_ticks s)) = nic.more s"
  by (simp_all add: inl_def inw_def outl_def outw_def get_ticks_def)

lemma poll_bit_more: "nic.more (snd (poll_bit n port b s)) = nic.more s"
proof (induction n arbitrary: s)
  case (Suc n)
  obtain v s1 where i: "inl port s = (v, s1)" by fastforce
  then have "nic.more s1 = nic.more s" using nic_io_more(1) [of port s] by simp
  then show ?case using Suc i by simp
qed simp

lemma rtl8139_send_more: "rtl8139_send pkt s = (r, s') \<Longrightarrow> nic.more s' = nic.more s"
proof -
  assume run: "rtl8139_send pkt s = (r, s')"
  let ?port = "io_base s + RT_TX_STATUS + of_nat (tx_next_idx s) * 4" and ?i = "tx_next_idx s"
  obtain o1 s1 where p1: "poll_bit 5000000 ?port TX_HOST_OWNS s = (o1, s1)" by fastforce
  have m1: "nic.more s1 = nic.more s" using poll_bit_more [of 5000000 ?port TX_HOST_OWNS s] p1 by simp
  define s2 where "s2 = outl ?port (of_nat (if length pkt < 60 then 60 else length pkt))
    (s1\<lparr>tx_in_use := (tx_in_use s1)[?i := True], nic_mem := fill_tx (tx_buf_virt s1 ! ?i) pkt (nic_mem s1)\<rparr>)"
  obtain o2 s3 where p2: "poll_bit 5000000 ?port TX_STAT_OK s2 = (o2, s3)" by fastforce
  have m3: "nic.more s3 = nic.more s"
    using poll_bit_more [of 5000000 ?port TX_STAT_OK s2] p2 m1 by (simp add: s2_def)
  obtain v s4 where i: "inl (io_base s3 + RT_TX_ADDR + of_nat ?i * 4) s3 = (v, s4)" by fastforce
  have m4: "nic.more s4 = nic.more s" using nic_io_more(1) [of "io_base s3 + RT_TX_ADDR + of_nat ?i * 4" s3] i m3 by simp
  show ?thesis
    using run p1 p2 i m1 m3 m4 by (auto simp: rtl8139_send_def Let_def s2_def [symmetric] split: if_splits)
qed

section \<open>Receiving a frame\<close>

text \<open>The ring as a sequence of bytes that repeats after its end.\<close>

definition rx_ring :: "'a nic_scheme \<Rightarrow> nat \<Rightarrow> u8" where
  "rx_ring s k = nic_mem s (rx_buf s + of_nat (k mod 8192))"

definition rx_ring16 :: "'a nic_scheme \<Rightarrow> nat \<Rightarrow> nat" where
  "rx_ring16 s k = unat (rx_ring s k) + 256 * unat (rx_ring s (k + 1))"

lemma unat_and_8191: "unat (x AND 8191) = unat x mod 8192" for x :: u32
proof -
  have "x AND 8191 = take_bit 13 x" using take_bit_eq_mask [of 13 x] by (simp add: mask_eq_exp_minus_1)
  moreover have "unat (take_bit 13 x) = take_bit 13 (unat x)" by (rule unsigned_take_bit_eq)
  ultimately show ?thesis by (simp only:) (simp add: take_bit_eq_mod)
qed

lemma unat_align4: "unat (x AND NOT 3) = unat x div 4 * 4" for x :: u32
proof -
  have m: "(3 :: u32) = mask 2" by (simp add: mask_eq_exp_minus_1)
  have "x AND NOT 3 = push_bit 2 (drop_bit 2 x)"
    unfolding m by (rule bit_word_eqI) (auto simp: bit_simps not_less, (metis add_2_eq_Suc le_add_diff_inverse)+)
  moreover have "unat (drop_bit 2 x) = unat x div 4" by (simp add: drop_bit_eq_div unat_div)
  moreover have "unat x div 4 * 4 < 4294967296"
    using unat_lt_2p32 [of x] by (metis div_times_less_eq_dividend le_less_trans)
  ultimately show ?thesis
    by (simp add: push_bit_eq_mult unat_word_ariths mult.commute)
qed

lemma unat_next_rx:
  assumes "unat off < 65536"
  shows "unat (next_rx off n) = (unat off + 4 + unat n + 3) div 4 * 4 mod 8192"
proof -
  have "7 + (unat off + unat n) < 4294967296" using assms unat_lt_2p16 [of n] by linarith
  then have "unat (off + 4 + ucast n + 3) = unat off + 4 + unat n + 3" by (simp add: unat_word_ariths)
  then show ?thesis by (simp add: next_rx_def RX_BUF_SIZE_def unat_and_8191 unat_align4 [simplified])
qed

lemma unat_rd16: "unat (rd16 m a) = unat (m a) + 256 * unat (m (a + 1))"
proof -
  have "rd16 m a = ucast (m a) + push_bit 8 (ucast (m (a + 1)))"
    unfolding rd16_def by (rule disjunctive_add [symmetric]) (auto simp: bit_simps dest: bit_imp_le_length)
  moreover have "unat (m a) + unat (m (a + 1)) * 256 < 65536"
    using unat_lt_2p8 [of "m a"] unat_lt_2p8 [of "m (a + 1)"] by linarith
  ultimately show ?thesis by (simp add: push_bit_eq_mult unat_word_ariths)
qed

text \<open>Copying out of the ring, around its end when necessary.\<close>

lemma copy_rx_ring:
  assumes "unat off < 8192" and "unat n \<le> 1514"
  shows "copy_rx ((off + 4) AND (RX_BUF_SIZE - 1)) n s buf =
         (\<lambda>k. if k < unat n then rx_ring s (unat off + 4 + k) else buf k)"
proof
  fix k
  define d where "d = (off + 4) AND (RX_BUF_SIZE - 1)"
  have o4: "unat (off + 4) = unat off + 4" using assms(1) by (simp add: unat_word_ariths)
  have ud: "unat d = (unat off + 4) mod 8192" by (simp add: d_def RX_BUF_SIZE_def unat_and_8191 o4)
  then have dl: "unat d < 8192" by simp
  have dn: "unat (d + ucast n) = unat d + unat n" using dl assms(2) by (simp add: unat_word_ariths)
  have idx: "(unat off + 4 + k) mod 8192 = (unat d + k) mod 8192" unfolding ud by (simp add: mod_add_left_eq)
  show "copy_rx ((off + 4) AND (RX_BUF_SIZE - 1)) n s buf k = (if k < unat n then rx_ring s (unat off + 4 + k) else buf k)"
    unfolding d_def [symmetric]
  proof (cases "d + ucast n \<le> RX_BUF_SIZE")
    case True
    then have le: "unat d + unat n \<le> 8192" using dn by (simp add: RX_BUF_SIZE_def word_le_nat_alt)
    have "rx_buf s + d + of_nat k = rx_buf s + of_nat ((unat off + 4 + k) mod 8192)" if "k < unat n"
      unfolding idx using that le by (simp add: add.assoc)
    then show "copy_rx d n s buf k = (if k < unat n then rx_ring s (unat off + 4 + k) else buf k)"
      using True by (simp add: copy_rx_def rx_ring_def add.assoc)
  next
    case False
    then have gt: "8192 < unat d + unat n" using dn by (simp add: RX_BUF_SIZE_def word_le_nat_alt)
    have n1: "unat (ucast (RX_BUF_SIZE - d) :: u16) = 8192 - unat d"
    proof -
      have "unat (RX_BUF_SIZE - d) = 8192 - unat d"
        using dl by (subst unat_sub) (simp_all add: RX_BUF_SIZE_def word_le_nat_alt)
      then show ?thesis using dl by (simp add: unsigned_ucast_eq take_bit_nat_eq_self)
    qed
    have a: "rx_buf s + d + of_nat k = rx_buf s + of_nat ((unat off + 4 + k) mod 8192)" if "k < 8192 - unat d"
      unfolding idx using that by (simp add: add.assoc)
    have b: "(unat off + 4 + k) mod 8192 = k - (8192 - unat d)" if "\<not> k < 8192 - unat d" "k < unat n"
    proof -
      have "8192 \<le> unat d + k" "unat d + k < 16384" using that dl assms(2) by linarith+
      then show ?thesis unfolding idx using dl by (simp add: le_mod_geq)
    qed
    show "copy_rx d n s buf k = (if k < unat n then rx_ring s (unat off + 4 + k) else buf k)"
      using False n1 a b gt by (auto simp: copy_rx_def rx_ring_def Let_def add.assoc)
  qed
qed

lemma rx_ring_at:
  assumes "unat off \<le> 8188" and "k \<le> 3"
  shows "nic_mem s (rx_buf s + off + of_nat k) = rx_ring s (unat off + k)"
  using assms by (simp add: rx_ring_def add.assoc)

lemma header_ring:
  assumes "unat off \<le> 8188"
  shows "unat (rd16 (nic_mem s) (rx_buf s + off)) = rx_ring16 s (unat off)"
    and "unat (rd16 (nic_mem s) (rx_buf s + off + 2)) = rx_ring16 s (unat off + 2)"
proof -
  have e: "rx_buf s + off + 2 + 1 = rx_buf s + off + of_nat 3" "unat off + 2 + 1 = unat off + 3" by simp_all
  have r: "nic_mem s (rx_buf s + off) = rx_ring s (unat off)" "nic_mem s (rx_buf s + off + 1) = rx_ring s (unat off + 1)"
    "nic_mem s (rx_buf s + off + 2) = rx_ring s (unat off + 2)"
    using rx_ring_at [OF assms, of 0 s] rx_ring_at [OF assms, of 1 s] rx_ring_at [OF assms, of 2 s] by simp_all
  have "nic_mem s (rx_buf s + off + 2 + 1) = rx_ring s (unat off + 2 + 1)"
    unfolding e by (rule rx_ring_at [OF assms]) simp
  with r show "unat (rd16 (nic_mem s) (rx_buf s + off)) = rx_ring16 s (unat off)"
    "unat (rd16 (nic_mem s) (rx_buf s + off + 2)) = rx_ring16 s (unat off + 2)"
    by (simp_all only: unat_rd16 rx_ring16_def)
qed

lemma take_entry_frame:
  assumes off: "unat (rx_offset s) \<le> 8188" and ok: "odd (rx_ring16 s (unat (rx_offset s)))"
    and len: "n = rx_ring16 s (unat (rx_offset s) + 2)" "5 \<le> n" "n \<le> 1518"
  shows "take_entry s buf l =
    (\<lambda>k. if k < n - 4 then rx_ring s (unat (rx_offset s) + 4 + k) else buf k, of_nat (n - 4),
     s\<lparr>rx_offset := next_rx (rx_offset s) (of_nat n)\<rparr>)"
proof -
  let ?st = "rd16 (nic_mem s) (rx_buf s + rx_offset s)" and ?n = "rd16 (nic_mem s) (rx_buf s + rx_offset s + 2)"
  note h = header_ring [OF off, of s]
  have n: "unat ?n = n" using h(2) len(1) by simp
  then have e: "?n = of_nat n" using len by (simp add: word_unat_eq_iff unat_of_nat16)
  have m: "unat (?n - 4) = n - 4" using n len by (subst unat_sub) (simp_all add: word_le_nat_alt)
  then have c: "\<not> ?n < 4" "\<not> ?n > 0x2000" "\<not> ?n - 4 > 1514"
    using n len by (simp_all add: word_less_nat_alt)
  have s: "?st AND RX_STAT_OK \<noteq> 0"
  proof -
    have "odd (unat ?st)" unfolding h(1) by (rule ok)
    then have "bit ?st 0" by (metis bit_0 bit_unsigned_iff)
    then have "bit (?st AND RX_STAT_OK) 0" by (simp add: RX_STAT_OK_def bit_simps)
    then show ?thesis by auto
  qed
  have um: "unat (of_nat (n - 4) :: u16) = n - 4" by (rule unat_of_nat16) (use len(3) in linarith)
  then have "?n - 4 = of_nat (n - 4)" using m by (simp only: word_unat_eq_iff)
  with um show ?thesis
    using c s copy_rx_ring [of "rx_offset s" "?n - 4" s buf] off len(3) m
    unfolding take_entry_def Let_def by (simp add: e)
qed



definition ex_nic :: nic where
  "ex_nic = \<lparr>port_in = \<lambda>p n. 0x20, port_out = [], tick_in = \<lambda>n. 0,
     nic_mem = \<lambda>a. if a = 8184 then 1 else if a = 8185 then 0 else if a = 8186 then 10 else if a = 8187 then 0 else ucast a,
     nic_pfa = \<lparr>bitmap = \<lambda>i. 0, total_frames = 0\<rparr>, io_base = 0xC000, mac = [], rx_buf = 0, tx_buf_virt = [],
     rx_offset = 8184, tx_in_use = [], tx_next_idx = 0\<rparr>"


end
