(* ===== verification/Net.thy ===== *)
theory Net
  imports Rtl8139
begin

text \<open>
  ARP, IP and ICMP (\<^verbatim>\<open>kernel/net/net.c\<close>, \<^verbatim>\<open>kernel/net/net.h\<close>). A packed structure is a record
  with the function that lays out its bytes and the function that reads it from a buffer;
  fields are kept as the structure holds them, in the byte order of the network. The handler
  of TCP segments, which the packet dispatch calls and which itself sends segments through
  this component, is an argument here; the TCP component supplies it.
\<close>

type_synonym buf = "nat \<Rightarrow> u8"

section \<open>Constants, byte order and structures\<close>

definition ETH_ARP :: u16 where "ETH_ARP = 0x0806"
definition ETH_IP :: u16 where "ETH_IP = 0x0800"
definition IP_ICMP :: u8 where "IP_ICMP = 1"
definition IP_TCP :: u8 where "IP_TCP = 6"
definition ICMP_ECHO_REQ :: u8 where "ICMP_ECHO_REQ = 8"
definition ICMP_ECHO_REP :: u8 where "ICMP_ECHO_REP = 0"
definition NET_GW_IP :: u32 where "NET_GW_IP = 0x0A000202"
definition NET_HOST_IP :: u32 where "NET_HOST_IP = 0x0A00020F"
definition NET_NETMASK :: u32 where "NET_NETMASK = 0xFFFFFF00"

definition net_htons :: "u16 \<Rightarrow> u16" where
  "net_htons x = push_bit 8 x OR drop_bit 8 x"

definition net_htonl :: "u32 \<Rightarrow> u32" where
  "net_htonl x = de32 (byte_of 24 x) (byte_of 16 x) (byte_of 8 x) (byte_of 0 x)"

definition le16 :: "u16 \<Rightarrow> u8 list" where "le16 v = [ucast v, ucast (drop_bit 8 v)]"
definition le32 :: "u32 \<Rightarrow> u8 list" where "le32 v = [byte_of 0 v, byte_of 8 v, byte_of 16 v, byte_of 24 v]"
definition at16 :: "buf \<Rightarrow> nat \<Rightarrow> u16" where "at16 pkt i = ucast (pkt i) OR push_bit 8 (ucast (pkt (i + 1)))"
definition at32 :: "buf \<Rightarrow> nat \<Rightarrow> u32" where "at32 pkt i = de32 (pkt i) (pkt (i + 1)) (pkt (i + 2)) (pkt (i + 3))"
definition bytes_at :: "buf \<Rightarrow> nat \<Rightarrow> nat \<Rightarrow> u8 list" where "bytes_at pkt i n = map (\<lambda>k. pkt (i + k)) [0..<n]"

record eth_hdr =
  eth_dst :: "u8 list"
  eth_src :: "u8 list"
  eth_type :: u16

definition eth_bytes :: "eth_hdr \<Rightarrow> u8 list" where
  "eth_bytes h = eth_dst h @ eth_src h @ le16 (eth_type h)"

record arp_pkt =
  htype :: u16
  ptype :: u16
  hlen :: u8
  plen :: u8
  oper :: u16
  sha :: "u8 list"
  spa :: u32
  tha :: "u8 list"
  tpa :: u32

definition arp_bytes :: "arp_pkt \<Rightarrow> u8 list" where
  "arp_bytes p = le16 (htype p) @ le16 (ptype p) @ [hlen p, plen p] @ le16 (oper p) @ sha p @ le32 (spa p) @ tha p @ le32 (tpa p)"

definition get_arp :: "buf \<Rightarrow> nat \<Rightarrow> arp_pkt" where
  "get_arp pkt i = \<lparr>htype = at16 pkt i, ptype = at16 pkt (i + 2), hlen = pkt (i + 4), plen = pkt (i + 5),
     oper = at16 pkt (i + 6), sha = bytes_at pkt (i + 8) 6, spa = at32 pkt (i + 14), tha = bytes_at pkt (i + 18) 6,
     tpa = at32 pkt (i + 24)\<rparr>"

record ip_hdr =
  ver_ihl :: u8
  dscp_ecn :: u8
  total_len :: u16
  ip_id :: u16
  flags_frag :: u16
  ttl :: u8
  protocol :: u8
  ip_checksum :: u16
  src_ip :: u32
  dst_ip :: u32

definition ip_bytes :: "ip_hdr \<Rightarrow> u8 list" where
  "ip_bytes h = [ver_ihl h, dscp_ecn h] @ le16 (total_len h) @ le16 (ip_id h) @ le16 (flags_frag h) @
     [ttl h, protocol h] @ le16 (ip_checksum h) @ le32 (src_ip h) @ le32 (dst_ip h)"

definition get_ip :: "buf \<Rightarrow> nat \<Rightarrow> ip_hdr" where
  "get_ip pkt i = \<lparr>ver_ihl = pkt i, dscp_ecn = pkt (i + 1), total_len = at16 pkt (i + 2), ip_id = at16 pkt (i + 4),
     flags_frag = at16 pkt (i + 6), ttl = pkt (i + 8), protocol = pkt (i + 9), ip_checksum = at16 pkt (i + 10),
     src_ip = at32 pkt (i + 12), dst_ip = at32 pkt (i + 16)\<rparr>"

record icmp_hdr =
  icmp_type :: u8
  icmp_code :: u8
  icmp_checksum :: u16
  icmp_id :: u16
  icmp_seq :: u16

definition icmp_bytes :: "icmp_hdr \<Rightarrow> u8 list" where
  "icmp_bytes h = [icmp_type h, icmp_code h] @ le16 (icmp_checksum h) @ le16 (icmp_id h) @ le16 (icmp_seq h)"

definition get_icmp :: "buf \<Rightarrow> nat \<Rightarrow> icmp_hdr" where
  "get_icmp pkt i = \<lparr>icmp_type = pkt i, icmp_code = pkt (i + 1), icmp_checksum = at16 pkt (i + 2),
     icmp_id = at16 pkt (i + 4), icmp_seq = at16 pkt (i + 6)\<rparr>"

text \<open>
  The static variables of the component. The length variables that the polling loops pass to
  \<open>rtl8139_recv\<close> are not initialised; \<open>stack_len\<close> is what they hold.
\<close>

record net = nic +
  own_mac :: "u8 list"
  arp_cache_ip :: u32
  arp_cache_mac :: "u8 list"
  arp_cache_valid :: bool
  ping_reply_received :: bool
  ping_reply_id :: u16
  ping_reply_seq :: u16
  pkt_buf :: buf
  stack_len :: "nat \<Rightarrow> u16"

section \<open>Checksum and addresses\<close>

fun add_words :: "u8 list \<Rightarrow> u32 \<Rightarrow> u32" where
  "add_words [] acc = acc"
| "add_words [b] acc = acc + ucast b"
| "add_words (a # b # bs) acc = add_words bs (acc + (ucast a OR push_bit 8 (ucast b)))"

lemma fold_dec: "drop_bit 16 acc \<noteq> 0 \<Longrightarrow> unat ((acc AND 0xFFFF) + drop_bit 16 acc) < unat acc" for acc :: u32
proof -
  assume nz: "drop_bit 16 acc \<noteq> 0"
  have d: "unat (drop_bit 16 acc) = unat acc div 65536" by (simp add: drop_bit_eq_div unat_div)
  have "acc AND 0xFFFF = take_bit 16 acc" using take_bit_eq_mask [of 16 acc] by (simp add: mask_eq_exp_minus_1)
  then have m: "unat (acc AND 0xFFFF) = unat acc mod 65536" by (simp add: take_bit_eq_mod unat_mod)
  have "unat acc div 65536 \<noteq> 0" using nz d by (metis unat_0_iff)
  moreover have "unat acc = unat acc div 65536 * 65536 + unat acc mod 65536" by simp
  moreover have "unat ((acc AND 0xFFFF) + drop_bit 16 acc) \<le> unat acc mod 65536 + unat acc div 65536"
    using m d by (simp add: unat_word_ariths)
  ultimately show ?thesis by linarith
qed

function fold_sum :: "u32 \<Rightarrow> u32" where
  "fold_sum acc = (if drop_bit 16 acc \<noteq> 0 then fold_sum ((acc AND 0xFFFF) + drop_bit 16 acc) else acc)"
  by pat_completeness auto
termination by (relation "measure unat") (simp_all add: fold_dec)

declare fold_sum.simps [simp del]

definition net_checksum :: "u8 list \<Rightarrow> u16" where
  "net_checksum data = NOT (ucast (fold_sum (add_words data 0)))"

text \<open>Characters are bytes; \<open>val\<close> is a signed integer, of which only the low byte is used.\<close>

fun aton_loop :: "u8 list \<Rightarrow> u32 \<Rightarrow> int \<Rightarrow> u32 \<times> int" where
  "aton_loop [] ip val = (ip, val)"
| "aton_loop (c # cs) ip val =
     (if c = 46 then aton_loop cs (push_bit 8 ip OR (of_int val AND 0xFF)) 0
      else if 48 \<le> c \<and> c \<le> 57 then aton_loop cs ip (val * 10 + (uint c - 48))
      else aton_loop cs ip val)"

definition net_ip_aton :: "u8 list \<Rightarrow> u32" where
  "net_ip_aton str = (case aton_loop str 0 0 of (ip, val) \<Rightarrow> push_bit 8 ip OR (of_int val AND 0xFF))"

definition net_init :: "'a net_scheme \<Rightarrow> int \<times> 'a net_scheme" where
  "net_init s =
     (case rtl8139_init s of (r, s) \<Rightarrow>
      if r < 0 then (-1, s)
      else (0, s\<lparr>own_mac := rtl8139_get_mac s, arp_cache_valid := False, ping_reply_received := False\<rparr>))"

section \<open>ARP\<close>

definition arp_request_frame :: "u8 list \<Rightarrow> u32 \<Rightarrow> u8 list" where
  "arp_request_frame own ip =
     eth_bytes \<lparr>eth_dst = replicate 6 0xFF, eth_src = own, eth_type = net_htons ETH_ARP\<rparr> @
     arp_bytes \<lparr>htype = net_htons 1, ptype = net_htons ETH_IP, hlen = 6, plen = 4, oper = net_htons 1,
       sha = own, spa = net_htonl NET_HOST_IP, tha = replicate 6 0, tpa = net_htonl ip\<rparr>"

definition send_arp_request :: "u32 \<Rightarrow> 'a net_scheme \<Rightarrow> 'a net_scheme" where
  "send_arp_request ip s = snd (rtl8139_send (arp_request_frame (own_mac s) ip) s)"

definition arp_reply_frame :: "u8 list \<Rightarrow> arp_pkt \<Rightarrow> u8 list" where
  "arp_reply_frame own arp =
     eth_bytes \<lparr>eth_dst = sha arp, eth_src = own, eth_type = net_htons ETH_ARP\<rparr> @
     arp_bytes \<lparr>htype = net_htons 1, ptype = net_htons ETH_IP, hlen = 6, plen = 4, oper = net_htons 2,
       sha = own, spa = net_htonl NET_HOST_IP, tha = sha arp, tpa = spa arp\<rparr>"

definition handle_arp :: "buf \<Rightarrow> u16 \<Rightarrow> 'a net_scheme \<Rightarrow> 'a net_scheme" where
  "handle_arp pkt len s =
     (let arp = get_arp pkt 14; op = net_htons (oper arp);
          s = (if op = 2 \<and> tpa arp = net_htonl NET_HOST_IP
               then s\<lparr>arp_cache_ip := net_htonl (spa arp), arp_cache_mac := sha arp, arp_cache_valid := True\<rparr> else s)
      in if op = 1 \<and> tpa arp = net_htonl NET_HOST_IP
         then snd (rtl8139_send (arp_reply_frame (own_mac s) arp) s) else s)"

section \<open>ICMP\<close>

definition ip_header :: "u16 \<Rightarrow> u16 \<Rightarrow> u8 \<Rightarrow> u32 \<Rightarrow> ip_hdr" where
  "ip_header ip_total ident proto dst =
     (let h = \<lparr>ver_ihl = 0x45, dscp_ecn = 0, total_len = net_htons ip_total, ip_id = net_htons ident, flags_frag = 0,
               ttl = 64, protocol = proto, ip_checksum = 0, src_ip = net_htonl NET_HOST_IP, dst_ip = net_htonl dst\<rparr>
      in h\<lparr>ip_checksum := net_checksum (ip_bytes h)\<rparr>)"

definition icmp_echo_frame :: "u8 list \<Rightarrow> u8 list \<Rightarrow> u32 \<Rightarrow> u16 \<Rightarrow> u16 \<Rightarrow> u8 list" where
  "icmp_echo_frame gw own dst ident sq =
     (let data = map of_nat [0..<56];
          h = \<lparr>icmp_type = ICMP_ECHO_REQ, icmp_code = 0, icmp_checksum = 0, icmp_id = net_htons ident, icmp_seq = net_htons sq\<rparr>;
          h = h\<lparr>icmp_checksum := net_checksum (icmp_bytes h @ data)\<rparr>
      in eth_bytes \<lparr>eth_dst = gw, eth_src = own, eth_type = net_htons ETH_IP\<rparr> @
         ip_bytes (ip_header (20 + 8 + 56) 1 IP_ICMP dst) @ icmp_bytes h @ data)"

definition send_icmp_echo :: "u32 \<Rightarrow> u16 \<Rightarrow> u16 \<Rightarrow> 'a net_scheme \<Rightarrow> 'a net_scheme" where
  "send_icmp_echo dst ident sq s = snd (rtl8139_send (icmp_echo_frame (arp_cache_mac s) (own_mac s) dst ident sq) s)"

text \<open>The checksum of the message of length \<open>n\<close> at \<open>i\<close> with its checksum field, bytes 2 and 3, taken as zero.\<close>

definition check_icmp_checksum :: "buf \<Rightarrow> nat \<Rightarrow> nat \<Rightarrow> bool" where
  "check_icmp_checksum pkt i n \<longleftrightarrow>
     at16 pkt (i + 2) = net_checksum (bytes_at (pkt(i + 2 := 0, i + 3 := 0)) i n)"

definition handle_icmp :: "buf \<Rightarrow> u16 \<Rightarrow> 'a net_scheme \<Rightarrow> 'a net_scheme" where
  "handle_icmp pkt len s =
     (let ip_hlen = (ucast (pkt 14 AND 0x0F) :: u32) * 4; icmp_len = ucast len - 14 - ip_hlen;
          icmp = get_icmp pkt (14 + unat ip_hlen)
      in if ip_hlen < 20 then s
         else if icmp_len < 8 then s
         else if \<not> check_icmp_checksum pkt (14 + unat ip_hlen) (unat icmp_len) then s
         else if icmp_type icmp = ICMP_ECHO_REP
         then s\<lparr>ping_reply_id := net_htons (icmp_id icmp), ping_reply_seq := net_htons (icmp_seq icmp), ping_reply_received := True\<rparr>
         else s)"

section \<open>Dispatch\<close>

type_synonym 'a tcp_handler = "buf \<Rightarrow> u16 \<Rightarrow> 'a net_scheme \<Rightarrow> 'a net_scheme option"

definition net_parse_packet :: "'a tcp_handler \<Rightarrow> buf \<Rightarrow> u16 \<Rightarrow> 'a net_scheme \<Rightarrow> (int \<times> 'a net_scheme) option" where
  "net_parse_packet tcp_handle_packet pkt len s =
     (if len < 14 then Some (-1, s)
      else let ty = net_htons (at16 pkt 12)
      in if ty = ETH_ARP then Some (0, if len \<ge> 42 then handle_arp pkt len s else s)
      else if ty = ETH_IP
      then if len \<ge> 34
           then let ip = get_ip pkt 14; ip_hlen = unat (ver_ihl ip AND 0x0F) * 4; ip_total = unat (net_htons (total_len ip))
                in if drop_bit 4 (ver_ihl ip) \<noteq> 4 then Some (0, s)
                   else if ip_hlen < 20 then Some (0, s)
                   else if unat len < 14 + ip_hlen then Some (0, s)
                   else if ip_total < ip_hlen \<or> unat len < 14 + ip_total then Some (0, s)
                   else if flags_frag ip AND 0x3F \<noteq> 0 then Some (0, s)
                   else if net_checksum (bytes_at pkt 14 ip_hlen) \<noteq> 0 then Some (0, s)
                   else let s = (if protocol ip = IP_ICMP \<and> unat len \<ge> 14 + ip_hlen + 8 then handle_icmp pkt len s else s)
                        in if protocol ip = IP_TCP \<and> unat len \<ge> 14 + ip_hlen + 20
                           then map_option (\<lambda>s. (0, s)) (tcp_handle_packet pkt len s)
                           else Some (0, s)
           else Some (0, s)
      else Some (-1, s))"

section \<open>Polling\<close>

definition next_junk :: "'a net_scheme \<Rightarrow> u16 \<times> 'a net_scheme" where
  "next_junk s = (stack_len s 0, s\<lparr>stack_len := \<lambda>n. stack_len s (Suc n)\<rparr>)"

text \<open>Receiving one frame into the static buffer and dispatching it.\<close>

definition poll_packet :: "'a tcp_handler \<Rightarrow> 'a net_scheme \<Rightarrow> 'a net_scheme option" where
  "poll_packet tcp s =
     (case next_junk s of (l, s) \<Rightarrow>
      Option.bind (rtl8139_recv (pkt_buf s) l s) (\<lambda>(r, buf, len, s).
        let s = s\<lparr>pkt_buf := buf\<rparr>
        in if r = 0 then map_option snd (net_parse_packet tcp buf len s) else Some s))"

definition arp_wait :: "'a tcp_handler \<Rightarrow> u32 \<Rightarrow> u32 \<Rightarrow> 'a net_scheme \<Rightarrow> (u8 list option \<times> 'a net_scheme) option" where
  "arp_wait tcp ip start =
     poll_while start 50
       (\<lambda>s. map_option
          (\<lambda>s. if arp_cache_valid s \<and> arp_cache_ip s = ip then Inl (Some (arp_cache_mac s), s) else Inr s) (poll_packet tcp s))
       None"

text \<open>\<open>net_arp_resolve\<close>: the address found, or \<open>None\<close> for the timeout.\<close>

definition net_arp_resolve :: "'a tcp_handler \<Rightarrow> u32 \<Rightarrow> 'a net_scheme \<Rightarrow> (u8 list option \<times> 'a net_scheme) option" where
  "net_arp_resolve tcp ip s =
     (if arp_cache_valid s \<and> arp_cache_ip s = ip then Some (Some (arp_cache_mac s), s)
      else case get_ticks (send_arp_request ip s) of (start, s) \<Rightarrow> arp_wait tcp ip start s)"

definition ticks_of_ms :: "int \<Rightarrow> u32" where
  "ticks_of_ms ms = of_int (if ms + 9 \<ge> 0 then (ms + 9) div 10 else - ((- (ms + 9)) div 10))"

definition ping_wait :: "'a tcp_handler \<Rightarrow> u32 \<Rightarrow> u32 \<Rightarrow> 'a net_scheme \<Rightarrow> (u32 option \<times> 'a net_scheme) option" where
  "ping_wait tcp start_tick timeout =
     poll_while start_tick timeout
       (\<lambda>s. map_option
          (\<lambda>s. if ping_reply_received s
               then case get_ticks s of (now, s) \<Rightarrow> Inl (Some ((now - start_tick) * 10), s) else Inr s) (poll_packet tcp s))
       None"

text \<open>\<open>net_ping\<close>: the round-trip time in milliseconds, or \<open>None\<close>.\<close>

definition net_ping :: "'a tcp_handler \<Rightarrow> u32 \<Rightarrow> int \<Rightarrow> 'a net_scheme \<Rightarrow> (u32 option \<times> 'a net_scheme) option" where
  "net_ping tcp dst timeout_ms s =
     (let arp_target = (if dst AND NET_NETMASK \<noteq> NET_HOST_IP AND NET_NETMASK then NET_GW_IP else dst)
      in Option.bind (net_arp_resolve tcp arp_target s) (\<lambda>(m, s).
         Option.bind (case m of Some a \<Rightarrow> Some (Some a, s) | None \<Rightarrow> net_arp_resolve tcp arp_target s) (\<lambda>(m, s).
         case m of
           None \<Rightarrow> Some (None, s)
         | Some gw_mac \<Rightarrow>
             let s = s\<lparr>arp_cache_mac := gw_mac, arp_cache_ip := arp_target, arp_cache_valid := True, ping_reply_received := False\<rparr>
             in case get_ticks s of (start_tick, s) \<Rightarrow>
                ping_wait tcp start_tick (ticks_of_ms timeout_ms) (send_icmp_echo dst 0x1234 1 s))))"

end
