(* ===== verification/Tcp.thy ===== *)
theory Tcp
  imports Net
begin

text \<open>
  TCP (\<^verbatim>\<open>kernel/net/tcp.c\<close>). Handling a segment sends segments, sending resolves an address, and
  resolving an address handles whatever packets arrive meanwhile, segments included. The
  first argument of \<open>tcp_handle_packet\<close> bounds the depth of this recursion, which the kernel
  stack bounds in the program; \<open>None\<close> stands for running over it, or for a polling loop that
  does not end.
\<close>

section \<open>Constants, structures and state\<close>

definition TCP_CLOSED :: nat where [simp]: "TCP_CLOSED = 0"
definition TCP_SYN_SENT :: nat where [simp]: "TCP_SYN_SENT = 1"
definition TCP_ESTABLISHED :: nat where [simp]: "TCP_ESTABLISHED = 2"
definition TCP_FIN_WAIT_1 :: nat where [simp]: "TCP_FIN_WAIT_1 = 3"
definition TCP_FIN_WAIT_2 :: nat where [simp]: "TCP_FIN_WAIT_2 = 4"
definition TCP_TIME_WAIT :: nat where [simp]: "TCP_TIME_WAIT = 5"
definition TCP_CLOSE_WAIT :: nat where [simp]: "TCP_CLOSE_WAIT = 6"
definition TCP_LAST_ACK :: nat where [simp]: "TCP_LAST_ACK = 7"
definition TCP_FLAG_FIN :: u8 where "TCP_FLAG_FIN = 0x01"
definition TCP_FLAG_SYN :: u8 where "TCP_FLAG_SYN = 0x02"
definition TCP_FLAG_RST :: u8 where "TCP_FLAG_RST = 0x04"
definition TCP_FLAG_PSH :: u8 where "TCP_FLAG_PSH = 0x08"
definition TCP_FLAG_ACK :: u8 where "TCP_FLAG_ACK = 0x10"
definition TCP_MAX_SOCKS :: nat where [simp]: "TCP_MAX_SOCKS = 4"

record tcp_hdr =
  th_src_port :: u16
  th_dst_port :: u16
  th_seq :: u32
  th_ack :: u32
  offset_reserved :: u8
  th_flags :: u8
  window :: u16
  th_checksum :: u16
  urgent :: u16

definition tcp_bytes :: "tcp_hdr \<Rightarrow> u8 list" where
  "tcp_bytes h = le16 (th_src_port h) @ le16 (th_dst_port h) @ le32 (th_seq h) @ le32 (th_ack h) @
     [offset_reserved h, th_flags h] @ le16 (window h) @ le16 (th_checksum h) @ le16 (urgent h)"

definition get_tcp :: "buf \<Rightarrow> nat \<Rightarrow> tcp_hdr" where
  "get_tcp pkt i = \<lparr>th_src_port = at16 pkt i, th_dst_port = at16 pkt (i + 2), th_seq = at32 pkt (i + 4),
     th_ack = at32 pkt (i + 8), offset_reserved = pkt (i + 12), th_flags = pkt (i + 13), window = at16 pkt (i + 14),
     th_checksum = at16 pkt (i + 16), urgent = at16 pkt (i + 18)\<rparr>"

record tcp_sock =
  sk_used :: bool
  sk_state :: nat
  sk_dst_ip :: u32
  sk_dst_port :: u16
  sk_src_port :: u16
  snd_nxt :: u32
  rcv_nxt :: u32
  snd_una :: u32
  peer_window :: u16
  rcv_buf :: buf
  rcv_len :: nat
  isn :: u32

text \<open>The receive buffers on the stack of the polling functions are not initialised; \<open>stack_buf\<close> is what they hold.\<close>

record inet = net +
  sockets :: "tcp_sock list"
  next_ephemeral :: u16
  stack_buf :: "nat \<Rightarrow> buf"

definition zero_sock :: tcp_sock where
  "zero_sock = \<lparr>sk_used = False, sk_state = 0, sk_dst_ip = 0, sk_dst_port = 0, sk_src_port = 0, snd_nxt = 0, rcv_nxt = 0,
     snd_una = 0, peer_window = 0, rcv_buf = \<lambda>k. 0, rcv_len = 0, isn = 0\<rparr>"

definition upd_sock :: "nat \<Rightarrow> (tcp_sock \<Rightarrow> tcp_sock) \<Rightarrow> inet \<Rightarrow> inet" where
  "upd_sock i f s = s\<lparr>sockets := (sockets s)[i := f (sockets s ! i)]\<rparr>"

definition tcp_init :: "inet \<Rightarrow> int \<times> inet" where
  "tcp_init s = (0, s\<lparr>sockets := replicate TCP_MAX_SOCKS zero_sock\<rparr>)"

section \<open>Segments\<close>

definition tcp_checksum :: "u32 \<Rightarrow> u32 \<Rightarrow> u8 list \<Rightarrow> u16" where
  "tcp_checksum src dst tcp =
     (let pseudo = le32 src @ le32 dst @ [0, 6] @ le16 (net_htons (of_nat (length tcp)))
      in NOT (ucast (fold_sum (add_words tcp (add_words pseudo 0)))))"

definition find_sock_by_port :: "u16 \<Rightarrow> inet \<Rightarrow> nat option" where
  "find_sock_by_port port s = find (\<lambda>i. sk_used (sockets s ! i) \<and> sk_src_port (sockets s ! i) = port) [0..<TCP_MAX_SOCKS]"

text \<open>The frame that \<open>send_tcp_segment\<close> builds for the link address \<open>dst\<close>.\<close>

definition tcp_frame :: "u8 list \<Rightarrow> u8 list \<Rightarrow> tcp_sock \<Rightarrow> u8 \<Rightarrow> u8 list \<Rightarrow> u8 list" where
  "tcp_frame dst own sock flags data =
     (let tcp_len = (20 + of_nat (length data) :: u16); ip_total = 20 + tcp_len;
          h = \<lparr>th_src_port = net_htons (sk_src_port sock), th_dst_port = net_htons (sk_dst_port sock),
               th_seq = net_htonl (snd_nxt sock), th_ack = net_htonl (rcv_nxt sock), offset_reserved = push_bit 4 5,
               th_flags = flags, window = net_htons 1460, th_checksum = 0, urgent = 0\<rparr>;
          h = h\<lparr>th_checksum := tcp_checksum (net_htonl NET_HOST_IP) (net_htonl (sk_dst_ip sock)) (tcp_bytes h @ data)\<rparr>
      in eth_bytes \<lparr>eth_dst = dst, eth_src = own, eth_type = net_htons ETH_IP\<rparr> @
         ip_bytes (ip_header ip_total 2 IP_TCP (sk_dst_ip sock)) @ tcp_bytes h @ data)"

definition send_tcp_segment ::
  "unit inet_ext tcp_handler \<Rightarrow> nat \<Rightarrow> u8 \<Rightarrow> u8 list \<Rightarrow> inet \<Rightarrow> (int \<times> inet) option" where
  "send_tcp_segment handler i flags data s =
     (let sock = sockets s ! i; own = own_mac s
      in Option.bind (net_arp_resolve handler (sk_dst_ip sock) s) (\<lambda>(m, s).
         case m of None \<Rightarrow> Some (-1, s) | Some dst \<Rightarrow> Some (rtl8139_send (tcp_frame dst own sock flags data) s)))"

text \<open>The segment is sent, and its result ignored.\<close>

definition send_ack :: "unit inet_ext tcp_handler \<Rightarrow> nat \<Rightarrow> inet \<Rightarrow> inet option" where
  "send_ack handler i s = map_option snd (send_tcp_segment handler i TCP_FLAG_ACK [] s)"

section \<open>Receiving segments\<close>

definition has :: "u8 \<Rightarrow> u8 \<Rightarrow> bool" where "has flags f \<longleftrightarrow> flags AND f \<noteq> 0"

text \<open>The acknowledgement, the end and the data of a segment for the socket \<open>i\<close>.\<close>

definition note_ack :: "nat \<Rightarrow> tcp_hdr \<Rightarrow> inet \<Rightarrow> inet" where
  "note_ack i tcp s =
     (if has (th_flags tcp) TCP_FLAG_ACK
      then upd_sock i (\<lambda>k. k\<lparr>snd_una := net_htonl (th_ack tcp), peer_window := net_htons (window tcp)\<rparr>) s else s)"

definition tcp_fin :: "unit inet_ext tcp_handler \<Rightarrow> nat \<Rightarrow> u32 \<Rightarrow> inet \<Rightarrow> inet option" where
  "tcp_fin handler i sq s =
     Option.bind (send_ack handler i (upd_sock i (rcv_nxt_update (\<lambda>_. sq + 1)) s)) (\<lambda>s.
       if sk_state (sockets s ! i) = TCP_FIN_WAIT_2
       then send_ack handler i (upd_sock i (sk_state_update (\<lambda>_. TCP_TIME_WAIT)) s)
       else Some (upd_sock i (sk_state_update (\<lambda>_. TCP_CLOSE_WAIT)) s))"

definition tcp_data :: "unit inet_ext tcp_handler \<Rightarrow> nat \<Rightarrow> u32 \<Rightarrow> nat \<Rightarrow> buf \<Rightarrow> inet \<Rightarrow> inet option" where
  "tcp_data handler i sq data_len data s =
     (if data_len > 0 \<and> sq = rcv_nxt (sockets s ! i)
      then let n = min data_len 1460
           in send_ack handler i
                (upd_sock i (\<lambda>k. k\<lparr>rcv_buf := (\<lambda>j. if j < n then data j else rcv_buf k j), rcv_len := n,
                   rcv_nxt := sq + of_nat n\<rparr>) s)
      else Some s)"

text \<open>The part of \<open>tcp_handle_packet\<close> behind the checks: header and data of the segment.\<close>

definition tcp_segment ::
  "unit inet_ext tcp_handler \<Rightarrow> nat \<Rightarrow> tcp_hdr \<Rightarrow> nat \<Rightarrow> buf \<Rightarrow> inet \<Rightarrow> inet option" where
  "tcp_segment handler i tcp data_len data s =
     (let sq = net_htonl (th_seq tcp); ack = net_htonl (th_ack tcp); flags = th_flags tcp; sock = sockets s ! i
      in if has flags TCP_FLAG_RST then Some (upd_sock i (sk_state_update (\<lambda>_. TCP_CLOSED)) s)
      else if sk_state sock = TCP_SYN_SENT
      then if has flags TCP_FLAG_SYN \<and> has flags TCP_FLAG_ACK
           then if ack \<noteq> snd_nxt sock then Some s
                else send_ack handler i
                       (upd_sock i (\<lambda>k. k\<lparr>rcv_nxt := sq + 1, snd_una := ack, peer_window := net_htons (window tcp),
                          sk_state := TCP_ESTABLISHED\<rparr>) s)
           else Some s
      else if has flags TCP_FLAG_FIN then tcp_fin handler i sq (note_ack i tcp s)
      else tcp_data handler i sq data_len data (note_ack i tcp s))"

fun tcp_handle_packet :: "nat \<Rightarrow> buf \<Rightarrow> u16 \<Rightarrow> inet \<Rightarrow> inet option" where
  "tcp_handle_packet 0 pkt len s = None"
| "tcp_handle_packet (Suc depth) pkt len s =
     (let ip_hlen = unat (pkt 14 AND 0x0F) * 4; tcp_off = 14 + ip_hlen; ip_total = unat (net_htons (at16 pkt 16))
      in if ip_hlen < 20 then Some s
         else if unat len < tcp_off + 20 then Some s
         else if 14 + ip_total > unat len then Some s
         else let tcp = get_tcp pkt tcp_off
         in case find_sock_by_port (net_htons (th_dst_port tcp)) s of
              None \<Rightarrow> Some s
            | Some i \<Rightarrow>
                let tcp_hlen = unat (drop_bit 4 (offset_reserved tcp) AND 0x0F) * 4
                in if tcp_hlen < 20 \<or> 14 + ip_total < tcp_off + tcp_hlen then Some s
                   else tcp_segment (tcp_handle_packet depth) i tcp (14 + ip_total - tcp_off - tcp_hlen)
                          (\<lambda>k. pkt (tcp_off + tcp_hlen + k)) s)"

section \<open>Polling and the public functions\<close>

definition tcp_poll :: "nat \<Rightarrow> inet \<Rightarrow> inet option" where
  "tcp_poll depth s =
     (case next_junk s of (l, s) \<Rightarrow>
      let b = stack_buf s 0; s = s\<lparr>stack_buf := \<lambda>n. stack_buf s (Suc n)\<rparr>
      in Option.bind (rtl8139_recv b l s) (\<lambda>(r, b, len, s).
           if r = 0 then tcp_handle_packet depth b len s else Some s))"

definition poll_until :: "nat \<Rightarrow> nat \<Rightarrow> nat \<Rightarrow> u32 \<Rightarrow> u32 \<Rightarrow> inet \<Rightarrow> (int \<times> inet) option" where
  "poll_until depth i target start timeout =
     poll_while start timeout
       (\<lambda>s. map_option
          (\<lambda>s. if sk_state (sockets s ! i) = target then Inl (0, s)
               else if sk_state (sockets s ! i) \<ge> TCP_CLOSE_WAIT \<and> target \<noteq> TCP_CLOSED then Inl (-1, s) else Inr s)
          (tcp_poll depth s))
       (-1)"

definition tcp_poll_until :: "nat \<Rightarrow> nat \<Rightarrow> nat \<Rightarrow> int \<Rightarrow> inet \<Rightarrow> (int \<times> inet) option" where
  "tcp_poll_until depth i target timeout_ms s =
     (if \<not> sk_used (sockets s ! i) then Some (-1, s)
      else case get_ticks s of (start, s) \<Rightarrow> poll_until depth i target start (ticks_of_ms timeout_ms) s)"

text \<open>\<open>tcp_connect\<close>: the socket it prepares, and its part behind the SYN.\<close>

definition new_sock :: "u32 \<Rightarrow> u16 \<Rightarrow> u16 \<Rightarrow> u32 \<Rightarrow> tcp_sock" where
  "new_sock ip port src n =
     zero_sock\<lparr>sk_used := True, sk_dst_ip := ip, sk_dst_port := port, sk_src_port := src, isn := n, snd_nxt := n,
       snd_una := n, sk_state := TCP_SYN_SENT\<rparr>"

definition finish_connect :: "nat \<Rightarrow> nat \<Rightarrow> int \<Rightarrow> inet \<Rightarrow> (int \<times> inet) option" where
  "finish_connect depth i timeout_ms s =
     Option.bind (tcp_poll_until depth i TCP_ESTABLISHED timeout_ms (upd_sock i (\<lambda>k. k\<lparr>snd_nxt := isn k + 1\<rparr>) s)) (\<lambda>(r, s).
       if r < 0 then Some (-1, upd_sock i (sk_used_update (\<lambda>_. False)) s) else Some (int i, s))"

definition tcp_connect :: "nat \<Rightarrow> u32 \<Rightarrow> u16 \<Rightarrow> int \<Rightarrow> inet \<Rightarrow> (int \<times> inet) option" where
  "tcp_connect depth ip port timeout_ms s =
     (case find (\<lambda>i. \<not> sk_used (sockets s ! i)) [0..<TCP_MAX_SOCKS] of
        None \<Rightarrow> Some (-1, s)
      | Some i \<Rightarrow>
          (case get_ticks s of (t, s) \<Rightarrow>
           let s = upd_sock i (\<lambda>k. new_sock ip port (next_ephemeral s) (push_bit 4 t)) s;
               s = s\<lparr>next_ephemeral := next_ephemeral s + 1\<rparr>
           in Option.bind (send_tcp_segment (tcp_handle_packet depth) i TCP_FLAG_SYN [] s) (\<lambda>(r, s).
              if r < 0 then Some (-1, upd_sock i (sk_used_update (\<lambda>_. False)) s)
              else finish_connect depth i timeout_ms s)))"

definition send_wait :: "nat \<Rightarrow> nat \<Rightarrow> u32 \<Rightarrow> u32 \<Rightarrow> inet \<Rightarrow> (int \<times> inet) option" where
  "send_wait depth i start timeout =
     poll_while start timeout
       (\<lambda>s. map_option (\<lambda>s. if snd_una (sockets s ! i) \<ge> snd_nxt (sockets s ! i) then Inl (0, s) else Inr s) (tcp_poll depth s))
       (-1)"

definition tcp_send :: "nat \<Rightarrow> nat \<Rightarrow> u8 list \<Rightarrow> int \<Rightarrow> inet \<Rightarrow> (int \<times> inet) option" where
  "tcp_send depth i data timeout_ms s =
     (if \<not> sk_used (sockets s ! i) \<or> sk_state (sockets s ! i) \<noteq> TCP_ESTABLISHED then Some (-1, s)
      else let data = take 1460 data;
               s = upd_sock i (\<lambda>k. k\<lparr>snd_nxt := snd_una k\<rparr>) s
      in Option.bind (send_tcp_segment (tcp_handle_packet depth) i (TCP_FLAG_PSH OR TCP_FLAG_ACK) data s) (\<lambda>(r, s).
         if r < 0 then Some (-1, s)
         else case get_ticks (upd_sock i (\<lambda>k. k\<lparr>snd_nxt := snd_una k + of_nat (length data)\<rparr>) s) of (start, s) \<Rightarrow>
              send_wait depth i start (ticks_of_ms timeout_ms) s))"

text \<open>Taking received bytes out of the buffer: the bytes copied to the caller, and the rest moved to the front.\<close>

definition take_data :: "nat \<Rightarrow> tcp_sock \<Rightarrow> u8 list \<times> tcp_sock" where
  "take_data max_len k =
     (let copy = min (rcv_len k) max_len;
          b = (if copy < rcv_len k then (\<lambda>j. if j < rcv_len k - copy then rcv_buf k (copy + j) else rcv_buf k j) else rcv_buf k)
      in (map (rcv_buf k) [0..<copy], k\<lparr>rcv_buf := b, rcv_len := rcv_len k - copy\<rparr>))"

definition recv_wait :: "nat \<Rightarrow> nat \<Rightarrow> nat \<Rightarrow> u32 \<Rightarrow> u32 \<Rightarrow> inet \<Rightarrow> (u8 list \<times> inet) option" where
  "recv_wait depth i max_len start timeout =
     poll_while start timeout
       (\<lambda>s. if rcv_len (sockets s ! i) > 0
            then case take_data max_len (sockets s ! i) of (xs, k) \<Rightarrow> Some (Inl (xs, upd_sock i (\<lambda>_. k) s))
            else map_option (\<lambda>s. if sk_state (sockets s ! i) \<ge> TCP_CLOSE_WAIT then Inl ([], s) else Inr s) (tcp_poll depth s))
       []"

text \<open>\<open>tcp_recv\<close>: the bytes copied, whose number is the result, or \<open>None\<close> for the result -1.\<close>

definition tcp_recv :: "nat \<Rightarrow> nat \<Rightarrow> u16 \<Rightarrow> int \<Rightarrow> inet \<Rightarrow> (u8 list option \<times> inet) option" where
  "tcp_recv depth i max_len timeout_ms s =
     (if \<not> sk_used (sockets s ! i) then Some (None, s)
      else case get_ticks s of (start, s) \<Rightarrow>
           map_option (\<lambda>(xs, s). (Some xs, s)) (recv_wait depth i (unat max_len) start (ticks_of_ms timeout_ms) s))"

definition close_wait :: "nat \<Rightarrow> nat \<Rightarrow> u32 \<Rightarrow> inet \<Rightarrow> inet option" where
  "close_wait depth i start s =
     map_option snd
       (poll_while start 50
          (\<lambda>s. map_option
             (\<lambda>s. if sk_state (sockets s ! i) \<ge> TCP_TIME_WAIT \<or> sk_state (sockets s ! i) = TCP_CLOSE_WAIT then Inl ((), s) else Inr s)
             (tcp_poll depth s))
          () s)"

definition tcp_close :: "nat \<Rightarrow> nat \<Rightarrow> inet \<Rightarrow> inet option" where
  "tcp_close depth i s =
     (if \<not> sk_used (sockets s ! i) then Some s
      else Option.bind
        (if sk_state (sockets s ! i) = TCP_ESTABLISHED
         then Option.bind (send_tcp_segment (tcp_handle_packet depth) i (TCP_FLAG_FIN OR TCP_FLAG_ACK) [] s) (\<lambda>(r, s).
                case get_ticks (upd_sock i (\<lambda>k. k\<lparr>snd_nxt := snd_nxt k + 1, sk_state := TCP_FIN_WAIT_1\<rparr>) s) of (start, s) \<Rightarrow>
                close_wait depth i start s)
         else Some s)
        (\<lambda>s. Some (upd_sock i (sk_used_update (\<lambda>_. False)) s)))"

end
