(* ===== verification/NetProps.thy ===== *)
theory NetProps
  imports Net
begin

text \<open>
  The Internet checksum against its definition by end-around carry, the validity of the
  headers the program builds, and what the packet dispatch accepts.
\<close>

section \<open>The checksum\<close>

text \<open>The sum of the 16-bit words of a message, an odd last byte counting as a word of its own.\<close>

fun wsum :: "u8 list \<Rightarrow> nat" where
  "wsum [] = 0"
| "wsum [b] = unat b"
| "wsum (a # b # bs) = unat a + 256 * unat b + wsum bs"

lemma unat_word_of_bytes:
  fixes a b :: u8
  shows "unat (ucast a OR push_bit 8 (ucast b) :: u32) = unat a + 256 * unat b"
    and "unat (ucast a OR push_bit 8 (ucast b) :: u16) = unat a + 256 * unat b"
proof -
  have "(ucast a OR push_bit 8 (ucast b) :: u32) = ucast a + push_bit 8 (ucast b)"
    "(ucast a OR push_bit 8 (ucast b) :: u16) = ucast a + push_bit 8 (ucast b)"
    by (rule disjunctive_add [symmetric], auto simp: bit_simps dest: bit_imp_le_length)+
  moreover have "unat a + unat b * 256 < 65536" using unat_lt_2p8 [of a] unat_lt_2p8 [of b] by linarith
  ultimately show "unat (ucast a OR push_bit 8 (ucast b) :: u32) = unat a + 256 * unat b"
    "unat (ucast a OR push_bit 8 (ucast b) :: u16) = unat a + 256 * unat b"
    by (simp_all add: push_bit_eq_mult unat_word_ariths)
qed

lemma wsum_bound: "2 * wsum xs \<le> 65535 * (length xs + 1)"
proof (induction xs rule: wsum.induct)
  case (2 b)
  have "unat b \<le> 255" using unat_lt_2p8 [of b] by linarith
  then show ?case by simp
next
  case (3 a b bs)
  moreover have "unat a \<le> 255" "unat b \<le> 255" using unat_lt_2p8 [of a] unat_lt_2p8 [of b] by linarith+
  ultimately show ?case by simp
qed simp

lemma unat_add_words: "unat acc + wsum xs < 4294967296 \<Longrightarrow> unat (add_words xs acc) = unat acc + wsum xs"
proof (induction xs acc rule: add_words.induct)
  case (2 b acc)
  then show ?case by (simp add: unat_add_noflow)
next
  case (3 a b bs acc)
  let ?w = "ucast a OR push_bit 8 (ucast b) :: u32"
  note w = unat_word_of_bytes(1) [of a b]
  then have "unat (acc + ?w) = unat acc + (unat a + 256 * unat b)" using 3(2) by (subst unat_add_noflow) simp_all
  then show ?case using 3 by simp
qed simp

lemma fold_sum_mod:
  "unat (fold_sum acc) < 65536 \<and> unat (fold_sum acc) mod 65535 = unat acc mod 65535 \<and> (fold_sum acc = 0 \<longleftrightarrow> acc = 0)"
proof (induction acc rule: fold_sum.induct)
  case (1 acc)
  let ?n = "(acc AND 0xFFFF) + drop_bit 16 acc"
  have d: "unat (drop_bit 16 acc) = unat acc div 65536" by (simp add: drop_bit_eq_div unat_div)
  have "acc AND 0xFFFF = take_bit 16 acc" using take_bit_eq_mask [of 16 acc] by (simp add: mask_eq_exp_minus_1)
  then have m: "unat (acc AND 0xFFFF) = unat acc mod 65536" by (simp add: take_bit_eq_mod unat_mod)
  show ?case
  proof (cases "drop_bit 16 acc = 0")
    case True
    then have "unat acc div 65536 = 0" using d by simp
    then show ?thesis using True by (subst (1 2 3) fold_sum.simps) (simp add: div_eq_0_iff)
  next
    case False
    have "unat acc div 65536 < 65536" using unat_lt_2p32 [of acc] by (simp add: less_mult_imp_div_less)
    then have n: "unat ?n = unat acc mod 65536 + unat acc div 65536"
      using m d mod_less_divisor [of 65536 "unat acc"] by (subst unat_add_noflow) linarith+
    have "unat acc = unat acc div 65536 * 65535 + unat ?n"
      unfolding n using div_mult_mod_eq [of "unat acc" 65536] by linarith
    then have "unat acc mod 65535 = (unat acc div 65536 * 65535 + unat ?n) mod 65535" by (rule arg_cong)
    also have "\<dots> = unat ?n mod 65535" by (rule mod_mult_self3)
    finally have mod: "unat ?n mod 65535 = unat acc mod 65535" ..
    have "unat acc div 65536 \<noteq> 0" using False d by (metis unat_0_iff)
    then have "?n \<noteq> 0" "acc \<noteq> 0" using n by auto
    then show ?thesis using 1 [OF False] mod False by (subst (1 2 3) fold_sum.simps) simp
  qed
qed

text \<open>One's complement addition: the carry out of bit 15 is added back at bit 0.\<close>

definition oc_add :: "u16 \<Rightarrow> u16 \<Rightarrow> u16" where
  "oc_add a b = (let s = unat a + unat b in if s \<ge> 65536 then of_nat (s - 65536 + 1) else of_nat s)"

fun oc_sum :: "u8 list \<Rightarrow> u16" where
  "oc_sum [] = 0"
| "oc_sum [b] = ucast b"
| "oc_sum (a # b # bs) = oc_add (ucast a OR push_bit 8 (ucast b)) (oc_sum bs)"

lemma oc_add_mod:
  "unat (oc_add a b) mod 65535 = (unat a + unat b) mod 65535 \<and> (oc_add a b = 0 \<longleftrightarrow> a = 0 \<and> b = 0)"
proof (cases "unat a + unat b \<ge> 65536")
  case True
  have "unat a < 65536" "unat b < 65536" by simp_all
  then have l: "unat a + unat b - 65536 < 65535" using True by linarith
  have "unat (of_nat (unat a + unat b - 65536 + 1) :: u16) = unat a + unat b - 65536 + 1"
    by (rule unat_of_nat16) (use l in linarith)
  then have "unat (oc_add a b) = unat a + unat b - 65535" using True by (simp add: oc_add_def Let_def)
  moreover have "(unat a + unat b) mod 65535 = (unat a + unat b - 65535) mod 65535" using True by (simp add: le_mod_geq)
  ultimately show ?thesis using True by (auto simp: word_unat_eq_iff)
next
  case False
  then have "unat (of_nat (unat a + unat b) :: u16) = unat a + unat b" by (intro unat_of_nat16) simp
  then have "unat (oc_add a b) = unat a + unat b" using False by (simp only: oc_add_def Let_def if_False)
  then show ?thesis by (auto simp: word_unat_eq_iff)
qed

lemma oc_sum_mod: "unat (oc_sum xs) mod 65535 = wsum xs mod 65535 \<and> (oc_sum xs = 0 \<longleftrightarrow> wsum xs = 0)"
proof (induction xs rule: oc_sum.induct)
  case (2 b)
  show ?case by (simp add: word_unat_eq_iff)
next
  case (3 a b bs)
  note w = unat_word_of_bytes(2) [of a b] and o = oc_add_mod [of "ucast a OR push_bit 8 (ucast b)" "oc_sum bs"]
  have "unat (oc_sum (a # b # bs)) mod 65535 = (unat a + 256 * unat b + unat (oc_sum bs)) mod 65535"
    using o by (simp add: w)
  also have "\<dots> = (unat a + 256 * unat b + wsum bs) mod 65535" by (rule mod_add_cong [OF refl]) (use 3 in blast)
  moreover have "(ucast a OR push_bit 8 (ucast b) :: u16) = 0 \<longleftrightarrow> unat a + 256 * unat b = 0"
    unfolding w [symmetric] by (rule unat_eq_0 [symmetric])
  then have "oc_sum (a # b # bs) = 0 \<longleftrightarrow> wsum (a # b # bs) = 0" using o 3 by simp
  ultimately show ?case by simp
qed simp

lemma mod_65535_unique:
  "x < 65536 \<Longrightarrow> y < 65536 \<Longrightarrow> x mod 65535 = y mod 65535 \<Longrightarrow> (x = 0 \<longleftrightarrow> y = 0) \<Longrightarrow> x = y" for x y :: nat
proof -
  assume a: "x < 65536" "y < 65536" "x mod 65535 = y mod 65535" "x = 0 \<longleftrightarrow> y = 0"
  have "x = 65535 \<or> x < 65535" "y = 65535 \<or> y < 65535" using a(1,2) by linarith+
  then show ?thesis using a(3,4) by auto
qed

lemma fold_add_words:
  assumes "length xs \<le> 65535"
  shows "unat (ucast (fold_sum (add_words xs 0)) :: u16) = unat (fold_sum (add_words xs 0))"
    and "unat (fold_sum (add_words xs 0)) mod 65535 = wsum xs mod 65535"
    and "unat (fold_sum (add_words xs 0)) = 0 \<longleftrightarrow> wsum xs = 0" and "unat (fold_sum (add_words xs 0)) < 65536"
proof -
  have "65535 * (length xs + 1) \<le> 65535 * 65536" using assms by simp
  then have "2 * wsum xs \<le> 65535 * 65536" using wsum_bound [of xs] by (rule order_trans [rotated])
  then have a: "unat (add_words xs 0) = wsum xs" using unat_add_words [of 0 xs] by simp
  note f = fold_sum_mod [of "add_words xs 0", unfolded a]
  then show l: "unat (fold_sum (add_words xs 0)) < 65536" by blast
  then show "unat (ucast (fold_sum (add_words xs 0)) :: u16) = unat (fold_sum (add_words xs 0))"
    by (simp add: unsigned_ucast_eq take_bit_nat_eq_self)
  show "unat (fold_sum (add_words xs 0)) mod 65535 = wsum xs mod 65535" using f by blast
  have "unat (fold_sum (add_words xs 0)) = 0 \<longleftrightarrow> unat (add_words xs 0) = 0" unfolding unat_eq_0 using f by blast
  then show "unat (fold_sum (add_words xs 0)) = 0 \<longleftrightarrow> wsum xs = 0" unfolding a .
qed

text \<open>A message verifies when its words add up to a multiple of 65535 other than zero.\<close>

lemma net_checksum_zero:
  assumes "length xs \<le> 65535"
  shows "net_checksum xs = 0 \<longleftrightarrow> wsum xs mod 65535 = 0 \<and> wsum xs \<noteq> 0"
proof -
  note f = fold_add_words [OF assms]
  let ?r = "ucast (fold_sum (add_words xs 0)) :: u16"
  have "net_checksum xs = 0 \<longleftrightarrow> ?r = - 1" unfolding net_checksum_def by (metis bit.compl_zero bit.double_compl)
  also have "\<dots> \<longleftrightarrow> unat ?r = 65535" by (simp add: word_unat_eq_iff unsigned_minus_1_eq_mask mask_eq_exp_minus_1)
  also have "\<dots> \<longleftrightarrow> wsum xs mod 65535 = 0 \<and> wsum xs \<noteq> 0"
  proof
    assume "unat ?r = 65535"
    then show "wsum xs mod 65535 = 0 \<and> wsum xs \<noteq> 0" using f by auto
  next
    assume a: "wsum xs mod 65535 = 0 \<and> wsum xs \<noteq> 0"
    show "unat ?r = 65535"
      unfolding f(1) by (rule mod_65535_unique) (use a f in simp_all)
  qed
  finally show ?thesis .
qed

lemma wsum_append: "even (length xs) \<Longrightarrow> wsum (xs @ ys) = wsum xs + wsum ys"
  by (induction xs rule: wsum.induct) simp_all

lemma wsum_le16 [simp]: "wsum (le16 c) = unat c"
proof -
  have "unat (ucast c :: u8) = unat c mod 256" by (simp add: unsigned_ucast_eq take_bit_eq_mod)
  moreover have "unat (ucast (drop_bit 8 c) :: u8) = unat c div 256"
  proof -
    have "unat c div 256 < 256" using unat_lt_2p16 [of c] by (simp add: less_mult_imp_div_less)
    then show ?thesis by (simp add: unsigned_ucast_eq take_bit_eq_mod drop_bit_eq_div unat_div)
  qed
  ultimately show ?thesis by (simp add: le16_def)
qed

lemma unat_net_checksum: "length xs \<le> 65535 \<Longrightarrow> unat (net_checksum xs) = 65535 - unat (fold_sum (add_words xs 0))"
proof -
  assume a: "length xs \<le> 65535"
  let ?r = "ucast (fold_sum (add_words xs 0)) :: u16"
  have "NOT ?r = - 1 - ?r" by (simp add: not_eq_complement)
  moreover have "unat (- 1 - ?r) = 65535 - unat ?r"
    by (subst unat_sub) (simp_all add: unsigned_minus_1_eq_mask mask_eq_exp_minus_1)
  ultimately show ?thesis using fold_add_words(1) [OF a] by (simp add: net_checksum_def)
qed

text \<open>Filling the checksum field, at an even position, makes a message verify.\<close>

lemma checksum_fill:
  assumes "even (length pre)" and "length pre + 2 + length post \<le> 65535"
    and c: "c = net_checksum (pre @ [0, 0] @ post)"
  shows "net_checksum (pre @ le16 c @ post) = 0"
proof -
  let ?z = "pre @ [0, 0] @ post" and ?f = "pre @ le16 c @ post"
  have le: "length (le16 c) = 2" by (simp add: le16_def)
  have lz: "length ?z \<le> 65535" "length ?f \<le> 65535" using assms(2) le by simp_all
  have z: "wsum ?z = wsum pre + wsum post" using assms(1) by (simp add: wsum_append)
  have f: "wsum ?f = wsum pre + wsum post + unat c"
    using assms(1) le wsum_append [of "le16 c" post] by (simp add: wsum_append)
  define r where "r = unat (fold_sum (add_words ?z 0))"
  note fa = fold_add_words [OF lz(1), folded r_def, unfolded z]
  have uc: "unat c = 65535 - r" using unat_net_checksum [OF lz(1)] c r_def by simp
  have "(wsum pre + wsum post + (65535 - r)) mod 65535 = (r + (65535 - r)) mod 65535"
    using fa(2) by (intro mod_add_cong) simp_all
  also have "\<dots> = 0" using fa(4) by simp
  finally have "wsum ?f mod 65535 = 0" using f uc by simp
  moreover have "wsum ?f \<noteq> 0" using f uc fa(3) by auto
  ultimately show ?thesis using net_checksum_zero [OF lz(2)] by simp
qed

lemma ip_header_verifies: "net_checksum (ip_bytes (ip_header ip_total ident proto dst)) = 0"
proof -
  let ?pre = "[0x45, 0] @ le16 (net_htons ip_total) @ le16 (net_htons ident) @ le16 0 @ [64, proto]"
  let ?post = "le32 (net_htonl NET_HOST_IP) @ le32 (net_htonl dst)"
  have z: "le16 0 = [0, 0]" by (simp add: le16_def)
  have "net_checksum (?pre @ le16 (net_checksum (?pre @ [0, 0] @ ?post)) @ ?post) = 0"
    by (rule checksum_fill) (simp_all add: le16_def le32_def)
  then show ?thesis by (simp add: ip_header_def ip_bytes_def z)
qed

section \<open>Reading what was laid out\<close>

text \<open>A frame in the receive buffer.\<close>

definition buf_of :: "u8 list \<Rightarrow> buf" where
  "buf_of xs k = (if k < length xs then xs ! k else 0)"

lemma buf_of_append [simp]: "length xs \<le> k \<Longrightarrow> buf_of (xs @ ys) k = buf_of ys (k - length xs)"
  by (auto simp: buf_of_def nth_append)

lemma buf_of_Cons [simp]: "buf_of (x # xs) 0 = x" "buf_of (x # xs) (Suc k) = buf_of xs k"
  "buf_of (x # xs) (numeral n) = buf_of xs (pred_numeral n)"
  by (simp_all add: buf_of_def nth_Cons' numeral_eq_Suc)

lemma length_le [simp]: "length (le16 v) = 2" "length (le32 w) = 4"
  by (simp_all add: le16_def le32_def)

lemma le16_value [simp]: "ucast (ucast v :: u8) OR push_bit 8 (ucast (ucast (drop_bit 8 v) :: u8)) = v" for v :: u16
  by (rule bit_word_eqI) (auto simp: bit_simps)

lemma bytes_at_buf_of: "i + n \<le> length xs \<Longrightarrow> bytes_at (buf_of xs) i n = take n (drop i xs)"
  by (intro nth_equalityI) (auto simp: bytes_at_def buf_of_def)

lemma net_htons_twice [simp]: "net_htons (net_htons x) = x"
  unfolding net_htons_def by (rule bit_word_eqI) (auto simp: bit_simps)

lemma net_htonl_twice [simp]: "net_htonl (net_htonl x) = x"
  by (simp add: net_htonl_def)

lemma length_ip_bytes [simp]: "length (ip_bytes h) = 20"
  by (simp add: ip_bytes_def)

text \<open>The header fields at position 14 of a frame whose Ethernet header is \<open>e\<close>.\<close>

lemma get_ip_frame:
  assumes "length e = 14"
  shows "get_ip (buf_of (e @ ip_bytes h @ rest)) 14 = h"
proof -
  show ?thesis
    using assms by (cases h) (simp add: get_ip_def ip_bytes_def at16_def at32_def le16_def le32_def)
qed

text \<open>
  C24: \<open>net_checksum\<close>, which adds all words in 32 bits and folds the carries at the end, computes
  the Internet checksum as it is defined: the complement of the one's complement sum of the
  16-bit words, each carry being added back at once, for messages of any length an IP packet
  can have.
\<close>

theorem net_checksum_is_ones_complement:
  assumes "length xs \<le> 65535"
  shows "net_checksum xs = NOT (oc_sum xs)"
proof -
  note f = fold_add_words [OF assms]
  have "unat (ucast (fold_sum (add_words xs 0)) :: u16) = unat (oc_sum xs)"
    unfolding f(1) by (rule mod_65535_unique) (use f oc_sum_mod [of xs] in \<open>simp_all add: unat_eq_0\<close>)
  then have "ucast (fold_sum (add_words xs 0)) = oc_sum xs" by (simp only: word_unat_eq_iff)
  then show ?thesis by (simp add: net_checksum_def)
qed

theorem net_checksum_is_ones_complement_witness:
  "net_checksum [0x45, 0, 0xFF, 0xFF, 0x12] = NOT (oc_sum [0x45, 0, 0xFF, 0xFF, 0x12]) \<and> oc_sum [0x45, 0, 0xFF, 0xFF, 0x12] = 0x57"
  using net_checksum_is_ones_complement [of "[0x45, 0, 0xFF, 0xFF, 0x12]"] by (simp add: oc_add_def Let_def)

end
