(* ===== verification/TcpProps.thy ===== *)
theory TcpProps
  imports Tcp NetProps
begin

text \<open>
  Delivery of data between two instances of the stack, and the invariant of the sockets under
  every sequence of calls and packets.
\<close>

section \<open>Layout of a segment\<close>

lemma length_tcp_bytes [simp]: "length (tcp_bytes h) = 20"
  by (simp add: tcp_bytes_def)

lemma length_eth_bytes: "length (eth_dst h) = 6 \<Longrightarrow> length (eth_src h) = 6 \<Longrightarrow> length (eth_bytes h) = 14"
  by (simp add: eth_bytes_def)

lemma get_tcp_frame:
  assumes "length e = 34"
  shows "get_tcp (buf_of (e @ tcp_bytes h @ rest)) 34 = h"
  using assms by (cases h) (simp add: get_tcp_def tcp_bytes_def at16_def at32_def le16_def le32_def)

definition seg_hdr :: "tcp_sock \<Rightarrow> u8 \<Rightarrow> u8 list \<Rightarrow> tcp_hdr" where
  "seg_hdr sock flags data =
     (let h = \<lparr>th_src_port = net_htons (sk_src_port sock), th_dst_port = net_htons (sk_dst_port sock),
               th_seq = net_htonl (snd_nxt sock), th_ack = net_htonl (rcv_nxt sock), offset_reserved = push_bit 4 5,
               th_flags = flags, window = net_htons 1460, th_checksum = 0, urgent = 0\<rparr>
      in h\<lparr>th_checksum := tcp_checksum (net_htonl NET_HOST_IP) (net_htonl (sk_dst_ip sock)) (tcp_bytes h @ data)\<rparr>)"

lemma tcp_frame_parts:
  "tcp_frame dst own sock flags data =
     eth_bytes \<lparr>eth_dst = dst, eth_src = own, eth_type = net_htons ETH_IP\<rparr> @
     ip_bytes (ip_header (40 + of_nat (length data)) 2 IP_TCP (sk_dst_ip sock)) @ tcp_bytes (seg_hdr sock flags data) @ data"
  by (simp add: tcp_frame_def seg_hdr_def Let_def add.assoc [symmetric])

lemma seg_hdr_fields [simp]:
  "th_dst_port (seg_hdr sock flags data) = net_htons (sk_dst_port sock)" "th_seq (seg_hdr sock flags data) = net_htonl (snd_nxt sock)"
  "th_ack (seg_hdr sock flags data) = net_htonl (rcv_nxt sock)" "offset_reserved (seg_hdr sock flags data) = 0x50"
  "th_flags (seg_hdr sock flags data) = flags" "window (seg_hdr sock flags data) = net_htons 1460"
  by (simp_all add: seg_hdr_def Let_def)

lemma ip_header_fields [simp]:
  "ver_ihl (ip_header t i p d) = 0x45" "total_len (ip_header t i p d) = net_htons t" "flags_frag (ip_header t i p d) = 0"
  "protocol (ip_header t i p d) = p"
  by (simp_all add: ip_header_def Let_def)

text \<open>The dispatch hands a segment that another instance of the stack has built to the TCP component.\<close>

lemma parse_tcp_frame:
  assumes "length dst = 6" and "length own = 6" and "length data \<le> 1460"
  shows "net_parse_packet h (buf_of (tcp_frame dst own sock flags data)) (of_nat (54 + length data)) s =
    map_option (\<lambda>s. (0, s)) (h (buf_of (tcp_frame dst own sock flags data)) (of_nat (54 + length data)) s)"
proof -
  let ?e = "eth_bytes \<lparr>eth_dst = dst, eth_src = own, eth_type = net_htons ETH_IP\<rparr>"
  let ?ip = "ip_header (40 + of_nat (length data)) 2 IP_TCP (sk_dst_ip sock)"
  let ?f = "tcp_frame dst own sock flags data" and ?len = "of_nat (54 + length data) :: u16"
  have e: "length ?e = 14" using assms by (simp add: length_eth_bytes)
  have ip: "get_ip (buf_of ?f) 14 = ?ip" unfolding tcp_frame_parts by (rule get_ip_frame [OF e])
  have ty: "at16 (buf_of ?f) 12 = net_htons ETH_IP"
    using assms(1,2) by (simp add: tcp_frame_parts eth_bytes_def at16_def le16_def)
  have len: "unat ?len = 54 + length data" using assms(3) by (intro unat_of_nat16) simp
  have tot: "unat (40 + of_nat (length data) :: u16) = 40 + length data"
    using unat_of_nat16 [of "40 + length data"] assms(3) by simp
  have ck: "bytes_at (buf_of ?f) 14 20 = ip_bytes ?ip"
    using e by (subst bytes_at_buf_of) (simp_all add: tcp_frame_parts)
  have l: "\<not> ?len < 14" "34 \<le> ?len" using len by (simp_all add: word_less_nat_alt word_le_nat_alt)
  have c: "IP_TCP \<noteq> IP_ICMP" "ETH_IP \<noteq> ETH_ARP" by (simp_all add: IP_TCP_def IP_ICMP_def ETH_IP_def ETH_ARP_def)
  show ?thesis
    unfolding net_parse_packet_def Let_def ip ty
    using l c len tot ck ip_header_verifies by (simp del: of_nat_add)
qed

section \<open>Delivery\<close>

lemma send_ack_cached:
  assumes "arp_cache_valid s" and "arp_cache_ip s = sk_dst_ip (sockets s ! i)"
  shows "send_ack h i s = Some (snd (rtl8139_send (tcp_frame (arp_cache_mac s) (own_mac s) (sockets s ! i) TCP_FLAG_ACK []) s))"
  using assms by (simp add: send_ack_def send_tcp_segment_def net_arp_resolve_def Let_def)

lemma sockets_more: "nic.more s = nic.more s' \<Longrightarrow> sockets s = sockets s'" for s s' :: inet
  by (cases s; cases s') simp

lemma sockets_send: "sockets (snd (rtl8139_send pkt s)) = sockets s" for s :: inet
  using rtl8139_send_more [of pkt s] by (intro sockets_more) (metis prod.collapse)

text \<open>Handling a well-formed segment for socket \<open>i\<close>.\<close>

lemma handle_tcp_frame:
  assumes "length dst = 6" and "length own = 6" and "length data \<le> 1460"
    and "find_sock_by_port (sk_dst_port sock) s = Some i"
  shows "tcp_handle_packet (Suc d) (buf_of (tcp_frame dst own sock flags data)) (of_nat (54 + length data)) s =
    tcp_segment (tcp_handle_packet d) i (seg_hdr sock flags data) (length data) (buf_of data) s"
proof -
  let ?e = "eth_bytes \<lparr>eth_dst = dst, eth_src = own, eth_type = net_htons ETH_IP\<rparr>"
  let ?ip = "ip_header (40 + of_nat (length data)) 2 IP_TCP (sk_dst_ip sock)"
  let ?f = "tcp_frame dst own sock flags data" and ?len = "of_nat (54 + length data) :: u16"
  have e: "length ?e = 14" using assms by (simp add: length_eth_bytes)
  have ip: "get_ip (buf_of ?f) 14 = ?ip" unfolding tcp_frame_parts by (rule get_ip_frame [OF e])
  have "ver_ihl (get_ip (buf_of ?f) 14) = buf_of ?f 14" "total_len (get_ip (buf_of ?f) 14) = at16 (buf_of ?f) 16"
    by (simp_all add: get_ip_def)
  then have b: "buf_of ?f 14 = 0x45" "at16 (buf_of ?f) 16 = net_htons (40 + of_nat (length data))"
    unfolding ip by simp_all
  have "get_tcp (buf_of ((?e @ ip_bytes ?ip) @ tcp_bytes (seg_hdr sock flags data) @ data)) 34 = seg_hdr sock flags data"
    by (rule get_tcp_frame) (simp add: e)
  then have tcp: "get_tcp (buf_of ?f) 34 = seg_hdr sock flags data" by (simp add: tcp_frame_parts)
  have len: "unat ?len = 54 + length data" using assms(3) by (intro unat_of_nat16) simp
  have tot: "unat (40 + of_nat (length data) :: u16) = 40 + length data"
    using unat_of_nat16 [of "40 + length data"] assms(3) by simp
  have dat: "(\<lambda>k. buf_of ?f (54 + k)) = buf_of data"
    using e by (simp add: tcp_frame_parts fun_eq_iff)
  show ?thesis
    using b tcp len tot dat assms(4) by (simp add: Let_def del: of_nat_add)
qed

lemma take_data_all:
  assumes "rcv_len k = length data" and "\<And>j. j < length data \<Longrightarrow> rcv_buf k j = data ! j"
  shows "fst (take_data n k) = take n data"
  using assms by (intro nth_equalityI) (auto simp: take_data_def Let_def min_def split: if_splits)


definition ex_sock :: tcp_sock where
  "ex_sock = zero_sock\<lparr>sk_used := True, sk_state := 2, sk_dst_ip := 0x0A000202, sk_dst_port := 80, sk_src_port := 40000, rcv_nxt := 7\<rparr>"

definition ex_inet :: inet where
  "ex_inet = \<lparr>port_in = \<lambda>p n. 0, port_out = [], tick_in = \<lambda>n. 0, nic_mem = \<lambda>a. 0,
     nic_pfa = \<lparr>bitmap = \<lambda>i. 0, total_frames = 0\<rparr>, io_base = 0xC000, mac = [], rx_buf = 0, tx_buf_virt = [0, 0, 0, 0],
     rx_offset = 0, tx_in_use = [False, False, False, False], tx_next_idx = 0, own_mac = [1, 2, 3, 4, 5, 6],
     arp_cache_ip = 0x0A000202, arp_cache_mac = [6, 5, 4, 3, 2, 1], arp_cache_valid = True, ping_reply_received = False,
     ping_reply_id = 0, ping_reply_seq = 0, pkt_buf = \<lambda>k. 0, stack_len = \<lambda>n. 0,
     sockets = [ex_sock, zero_sock, zero_sock, zero_sock], next_ephemeral = 40001, stack_buf = \<lambda>n k. 0\<rparr>"


section \<open>The invariant of the sockets\<close>

lemma recv_loop_more:
  assumes "recv_loop cbr buf len s = Some r"
  shows "nic.more (snd (snd (snd r))) = nic.more s"
proof (rule recv_loop.raw_induct [where P = "\<lambda>cbr buf len s r. nic.more (snd (snd (snd r))) = nic.more s", OF _ assms], goal_cases)
  case (1 f cbr buf len s r)
  show ?case
  proof (cases "rx_offset s = ucast cbr")
    case True
    with 1(2) show ?thesis by auto
  next
    case False
    obtain b l s1 where te: "take_entry s buf len = (b, l, s1)" by (metis prod_cases3)
    have m1: "nic.more s1 = nic.more s" using te by (auto simp: take_entry_def Let_def split: if_splits)
    let ?s2 = "outw (io_base s1 + RT_ISR) 0x0005 (outw (io_base s1 + RT_CAPR) (ucast ((rx_offset s1 - 16) AND (RX_BUF_SIZE - 1))) s1)"
    obtain c s3 where i: "inw (io_base ?s2 + RT_CBR) ?s2 = (c, s3)" by fastforce
    have m3: "nic.more s3 = nic.more s" using nic_io_more(4) [of "io_base ?s2 + RT_CBR" ?s2] i m1 by simp
    show ?thesis
      using 1(2) False te i m3 1(1) [of c b l s3 r] by (auto simp: Let_def outw_def outl_def split: if_splits)
  qed
qed

lemma rtl8139_recv_more: "rtl8139_recv buf len s = Some (r, b, l, s') \<Longrightarrow> nic.more s' = nic.more s"
  using recv_loop_more [of _ buf len "snd (inw (io_base s + RT_CBR) s)"] nic_io_more(4) [of "io_base s + RT_CBR" s]
  by (auto simp: rtl8139_recv_def split: prod.splits)

text \<open>A socket never holds more than its buffer, and is in one of the five states that the code can reach.\<close>

definition sock_ok :: "tcp_sock \<Rightarrow> bool" where
  "sock_ok k \<longleftrightarrow> rcv_len k \<le> 1460 \<and> sk_state k \<in> {TCP_CLOSED, TCP_SYN_SENT, TCP_ESTABLISHED, TCP_FIN_WAIT_1, TCP_CLOSE_WAIT}"

definition socks_ok :: "inet \<Rightarrow> bool" where
  "socks_ok s \<longleftrightarrow> length (sockets s) = TCP_MAX_SOCKS \<and> list_all sock_ok (sockets s)"

lemma socks_ok_cong: "sockets s = sockets s' \<Longrightarrow> socks_ok s = socks_ok s'"
  by (simp add: socks_ok_def)

lemma upd_sock_ok:
  assumes "socks_ok s" and "\<And>k. sock_ok k \<Longrightarrow> sock_ok (f k)"
  shows "socks_ok (upd_sock i f s)"
proof (cases "i < length (sockets s)")
  case True
  then show ?thesis using assms by (auto simp: socks_ok_def upd_sock_def list_all_length nth_list_update)
next
  case False
  then show ?thesis using assms(1) by (simp add: upd_sock_def socks_ok_def list_update_beyond)
qed

lemma sock_ok_updates [simp]:
  "sock_ok k \<Longrightarrow> sock_ok (k\<lparr>snd_una := a, peer_window := w\<rparr>)" "sock_ok k \<Longrightarrow> sock_ok (k\<lparr>rcv_nxt := b\<rparr>)"
  "sock_ok k \<Longrightarrow> sock_ok (k\<lparr>sk_state := 0\<rparr>)" "sock_ok k \<Longrightarrow> sock_ok (k\<lparr>sk_state := 6\<rparr>)" "sock_ok k \<Longrightarrow> sock_ok (k\<lparr>snd_nxt := c\<rparr>)"
  "sock_ok k \<Longrightarrow> sock_ok (k\<lparr>snd_nxt := c, sk_state := 3\<rparr>)" "sock_ok k \<Longrightarrow> sock_ok (k\<lparr>sk_used := u\<rparr>)"
  "sock_ok k \<Longrightarrow> sock_ok (k\<lparr>rcv_nxt := b, snd_una := a, peer_window := w, sk_state := 2\<rparr>)"
  "sock_ok k \<Longrightarrow> n \<le> 1460 \<Longrightarrow> sock_ok (k\<lparr>rcv_buf := bf, rcv_len := n, rcv_nxt := b\<rparr>)"
  "sock_ok zero_sock"
  by (simp_all add: sock_ok_def zero_sock_def)

section \<open>Packets and polling keep the invariant\<close>

definition keeps :: "unit inet_ext tcp_handler \<Rightarrow> bool" where
  "keeps h \<longleftrightarrow> (\<forall>pkt len s s'. h pkt len s = Some s' \<longrightarrow> socks_ok s \<longrightarrow> socks_ok s')"

lemma sockets_handle_arp: "sockets (handle_arp pkt len s) = sockets s" for s :: inet
  by (simp add: handle_arp_def Let_def sockets_send)

lemma sockets_handle_icmp: "sockets (handle_icmp pkt len s) = sockets s" for s :: inet
  by (simp add: handle_icmp_def Let_def)

lemma net_parse_packet_cases:
  "net_parse_packet h pkt len s \<in>
     {Some (-1, s), Some (0, s), Some (0, handle_arp pkt len s), Some (0, handle_icmp pkt len s),
      map_option (\<lambda>s. (0, s)) (h pkt len s), map_option (\<lambda>s. (0, s)) (h pkt len (handle_icmp pkt len s))}"
  unfolding net_parse_packet_def Let_def by simp

lemma net_parse_packet_ok:
  assumes "keeps h" and "socks_ok s" and "net_parse_packet h pkt len s = Some (r, s')"
  shows "socks_ok s'"
proof -
  have a: "socks_ok (handle_arp pkt len s)" "socks_ok (handle_icmp pkt len s)"
    using assms(2) socks_ok_cong sockets_handle_arp sockets_handle_icmp by blast+
  then show ?thesis
    using net_parse_packet_cases [of h pkt len s] assms unfolding keeps_def
    by (cases "h pkt len s"; cases "h pkt len (handle_icmp pkt len s)") auto
qed

lemma poll_packet_ok:
  assumes "keeps h" and "socks_ok s" and "poll_packet h s = Some s'"
  shows "socks_ok s'"
proof -
  obtain l s1 where j: "next_junk s = (l, s1)" by fastforce
  have "sockets s1 = sockets s" using j by (auto simp: next_junk_def)
  moreover obtain r b n s2 where v: "rtl8139_recv (pkt_buf s1) l s1 = Some (r, b, n, s2)"
    and rest: "(if r = 0 then map_option snd (net_parse_packet h b n (s2\<lparr>pkt_buf := b\<rparr>)) else Some (s2\<lparr>pkt_buf := b\<rparr>)) = Some s'"
    using assms(3) j by (auto simp: poll_packet_def Let_def bind_eq_Some_conv)
  moreover have "sockets s2 = sockets s1" using rtl8139_recv_more [OF v] by (rule sockets_more)
  ultimately have "socks_ok (s2\<lparr>pkt_buf := b\<rparr>)" using assms(2) by (simp add: socks_ok_def)
  then show ?thesis using rest net_parse_packet_ok [OF assms(1)] by (auto split: if_splits)
qed

lemma sockets_ticks: "sockets (snd (get_ticks s)) = sockets s" for s :: inet
  by (simp add: get_ticks_def)

lemma ticks_ok: "socks_ok s \<Longrightarrow> socks_ok (snd (get_ticks s))"
  by (simp add: socks_ok_def sockets_ticks)

lemma arp_wait_ok:
  assumes "arp_wait h ip start s = Some (m, s')" and h: "keeps h" and s: "socks_ok s"
  shows "socks_ok s'"
  using assms(1) [unfolded arp_wait_def] s ticks_ok
  by (rule poll_while_inv) (auto dest: poll_packet_ok [OF h])

lemma net_arp_resolve_ok:
  assumes "keeps h" and "socks_ok s" and "net_arp_resolve h ip s = Some (m, s')"
  shows "socks_ok s'"
proof -
  obtain t s1 where t: "get_ticks (send_arp_request ip s) = (t, s1)" by fastforce
  have "sockets s1 = sockets s"
    using sockets_ticks [of "send_arp_request ip s"] t by (simp add: send_arp_request_def sockets_send)
  then have "socks_ok s1" using assms(2) socks_ok_cong by blast
  then show ?thesis using assms t arp_wait_ok [of h ip t s1] by (auto simp: net_arp_resolve_def split: if_splits)
qed

lemma send_tcp_segment_ok:
  assumes "keeps h" and "socks_ok s" and "send_tcp_segment h i flags data s = Some (r, s')"
  shows "socks_ok s'"
proof -
  obtain m s1 where a: "net_arp_resolve h (sk_dst_ip (sockets s ! i)) s = Some (m, s1)"
    using assms(3) by (auto simp: send_tcp_segment_def Let_def bind_eq_Some_conv)
  have "socks_ok s1" by (rule net_arp_resolve_ok [OF assms(1,2) a])
  then have "socks_ok (snd (rtl8139_send pkt s1))" for pkt using socks_ok_cong [OF sockets_send, of pkt s1] by simp
  then have "rtl8139_send pkt s1 = (r, s') \<Longrightarrow> socks_ok s'" for pkt by (metis snd_conv)
  then show ?thesis
    using assms(3) a \<open>socks_ok s1\<close> by (cases m) (auto simp: send_tcp_segment_def Let_def)
qed

lemma send_ack_ok: "keeps h \<Longrightarrow> socks_ok s \<Longrightarrow> send_ack h i s = Some s' \<Longrightarrow> socks_ok s'"
  using send_tcp_segment_ok by (auto simp: send_ack_def)

lemma no_fin_wait_2: "socks_ok s \<Longrightarrow> i < 4 \<Longrightarrow> sk_state (sockets s ! i) \<noteq> 4"
  by (auto simp: socks_ok_def sock_ok_def list_all_length)

lemma note_ack_ok: "socks_ok s \<Longrightarrow> socks_ok (note_ack i tcp s)"
  by (simp add: note_ack_def upd_sock_ok)

lemma tcp_fin_ok:
  assumes h: "keeps h" and s: "socks_ok s" and i: "i < 4" and run: "tcp_fin h i sq s = Some s'"
  shows "socks_ok s'"
proof -
  from run obtain t where t: "send_ack h i (upd_sock i (rcv_nxt_update (\<lambda>_. sq + 1)) s) = Some t"
    and rest: "(if sk_state (sockets t ! i) = TCP_FIN_WAIT_2
                then send_ack h i (upd_sock i (sk_state_update (\<lambda>_. TCP_TIME_WAIT)) t)
                else Some (upd_sock i (sk_state_update (\<lambda>_. TCP_CLOSE_WAIT)) t)) = Some s'"
    by (auto simp: tcp_fin_def bind_eq_Some_conv)
  have ok: "socks_ok t" by (rule send_ack_ok [OF h _ t]) (simp add: s upd_sock_ok)
  then have "socks_ok (upd_sock i (sk_state_update (\<lambda>_. TCP_CLOSE_WAIT)) t)" by (rule upd_sock_ok) simp
  then show ?thesis using rest no_fin_wait_2 [OF ok i] by simp
qed

lemma tcp_data_ok:
  assumes h: "keeps h" and s: "socks_ok s" and run: "tcp_data h i sq n data s = Some s'"
  shows "socks_ok s'"
proof (cases "n > 0 \<and> sq = rcv_nxt (sockets s ! i)")
  case True
  let ?t = "upd_sock i (\<lambda>k. k\<lparr>rcv_buf := (\<lambda>j. if j < min n 1460 then data j else rcv_buf k j), rcv_len := min n 1460,
     rcv_nxt := sq + of_nat (min n 1460)\<rparr>) s"
  have "send_ack h i ?t = Some s'" using run unfolding tcp_data_def Let_def if_P [OF True] .
  moreover have "socks_ok ?t" by (rule upd_sock_ok [OF s]) simp
  ultimately show ?thesis by (rule send_ack_ok [OF h, rotated])
next
  case False
  have "Some s = Some s'" using run unfolding tcp_data_def if_not_P [OF False] .
  with s show ?thesis by simp
qed

lemma tcp_segment_ok:
  assumes h: "keeps h" and s: "socks_ok s" and i: "i < 4" and run: "tcp_segment h i tcp n data s = Some s'"
  shows "socks_ok s'"
proof -
  have rst: "socks_ok (upd_sock i (sk_state_update (\<lambda>_. TCP_CLOSED)) s)" by (rule upd_sock_ok [OF s]) simp
  have est: "socks_ok (upd_sock i (\<lambda>k. k\<lparr>rcv_nxt := net_htonl (th_seq tcp) + 1, snd_una := net_htonl (th_ack tcp),
      peer_window := net_htons (window tcp), sk_state := TCP_ESTABLISHED\<rparr>) s)"
    by (rule upd_sock_ok [OF s]) simp
  note n = note_ack_ok [OF s, of i tcp]
  show ?thesis
    using run rst send_ack_ok [OF h est] tcp_fin_ok [OF h n i] tcp_data_ok [OF h n] s
    by (auto simp: tcp_segment_def Let_def split: if_splits)
qed

lemma tcp_handle_packet_ok: "keeps (tcp_handle_packet depth)"
proof (induction depth)
  case (Suc depth)
  have i: "find_sock_by_port port s = Some i \<Longrightarrow> i < 4" for port s i
    by (auto simp: find_sock_by_port_def find_Some_iff)
  have k: "find_sock_by_port port s = Some i \<Longrightarrow> tcp_segment (tcp_handle_packet depth) i tcp n data s = Some s' \<Longrightarrow>
      socks_ok s \<Longrightarrow> socks_ok s'" for port i tcp n data s s'
    using tcp_segment_ok [OF Suc _ i] by blast
  show ?case
    unfolding keeps_def by (auto simp: Let_def split: if_splits option.splits intro: k)
qed (simp add: keeps_def)

lemma tcp_poll_ok:
  assumes "socks_ok s" and "tcp_poll depth s = Some s'"
  shows "socks_ok s'"
proof -
  obtain l s1 where j: "next_junk s = (l, s1)" by fastforce
  let ?s2 = "s1\<lparr>stack_buf := \<lambda>n. stack_buf s1 (Suc n)\<rparr>"
  obtain r b n s3 where v: "rtl8139_recv (stack_buf s1 0) l ?s2 = Some (r, b, n, s3)"
    and rest: "(if r = 0 then tcp_handle_packet depth b n s3 else Some s3) = Some s'"
    using assms(2) j by (auto simp: tcp_poll_def Let_def bind_eq_Some_conv)
  have "sockets s3 = sockets s"
    using sockets_more [OF rtl8139_recv_more [OF v]] j by (auto simp: next_junk_def)
  then have "socks_ok s3" using assms(1) socks_ok_cong by blast
  then show ?thesis using rest tcp_handle_packet_ok [of depth] by (auto simp: keeps_def split: if_splits)
qed

lemma poll_until_ok:
  assumes "poll_until depth i target start timeout s = Some (r, s')" and s: "socks_ok s"
  shows "socks_ok s'"
  using assms(1) [unfolded poll_until_def] s ticks_ok by (rule poll_while_inv) (auto dest: tcp_poll_ok)

lemma send_wait_ok:
  assumes "send_wait depth i start timeout s = Some (r, s')" and s: "socks_ok s"
  shows "socks_ok s'"
  using assms(1) [unfolded send_wait_def] s ticks_ok by (rule poll_while_inv) (auto dest: tcp_poll_ok)

lemma take_data_ok: "sock_ok k \<Longrightarrow> sock_ok (snd (take_data n k))"
  by (auto simp: take_data_def sock_ok_def Let_def)

lemma recv_wait_ok:
  assumes "recv_wait depth i n start timeout s = Some (r, s')" and s: "socks_ok s" and i: "i < 4"
  shows "socks_ok s'"
proof -
  have u: "socks_ok (upd_sock i (\<lambda>_. k) s)" if "socks_ok s" "take_data n (sockets s ! i) = (xs, k)" for s xs k
    using that i take_data_ok [of "sockets s ! i" n] by (auto simp: socks_ok_def upd_sock_def list_all_length nth_list_update)
  show ?thesis
    using assms(1) [unfolded recv_wait_def] s ticks_ok
    by (rule poll_while_inv) (auto split: if_splits prod.splits intro: u tcp_poll_ok [rotated])
qed

lemma close_wait_ok:
  assumes "close_wait depth i start s = Some s'" and s: "socks_ok s"
  shows "socks_ok s'"
proof -
  from assms(1) obtain u where "poll_while start 50
      (\<lambda>s. map_option (\<lambda>s. if sk_state (sockets s ! i) \<ge> TCP_TIME_WAIT \<or> sk_state (sockets s ! i) = TCP_CLOSE_WAIT then Inl ((), s) else Inr s)
        (tcp_poll depth s)) () s = Some (u, s')"
    unfolding close_wait_def by auto
  then show ?thesis using s ticks_ok by (rule poll_while_inv) (auto dest: tcp_poll_ok)
qed

section \<open>The public functions\<close>

lemma unused_ok: "socks_ok s \<Longrightarrow> socks_ok (upd_sock i (sk_used_update (\<lambda>_. False)) s)"
  by (rule upd_sock_ok) simp_all

lemma finish_connect_ok:
  assumes s: "socks_ok s" and run: "finish_connect depth i timeout s = Some (r, s')"
  shows "socks_ok s'"
proof -
  have s1: "socks_ok (upd_sock i (\<lambda>k. k\<lparr>snd_nxt := isn k + 1\<rparr>) s)" (is "socks_ok ?s1") by (rule upd_sock_ok [OF s]) simp
  have "tcp_poll_until depth i TCP_ESTABLISHED timeout ?s1 = Some (r2, s2) \<Longrightarrow> socks_ok s2" for r2 s2
    using s1 ticks_ok [OF s1] poll_until_ok [of depth i TCP_ESTABLISHED _ "ticks_of_ms timeout"]
    by (auto simp: tcp_poll_until_def split: if_splits prod.splits)
  then show ?thesis using run unused_ok by (auto simp: finish_connect_def bind_eq_Some_conv split: if_splits)
qed

lemma tcp_connect_ok:
  assumes s: "socks_ok s" and run: "tcp_connect depth ip port timeout s = Some (r, s')"
  shows "socks_ok s'"
proof (cases "find (\<lambda>i. \<not> sk_used (sockets s ! i)) [0..<TCP_MAX_SOCKS]")
  case None
  with run s show ?thesis by (simp add: tcp_connect_def)
next
  case (Some i)
  obtain n s1 where t: "get_ticks s = (n, s1)" by fastforce
  let ?s2 = "upd_sock i (\<lambda>k. new_sock ip port (next_ephemeral s1) (push_bit 4 n)) s1"
  let ?s3 = "?s2\<lparr>next_ephemeral := next_ephemeral ?s2 + 1\<rparr>"
  from run Some t obtain r1 s4 where snt: "send_tcp_segment (tcp_handle_packet depth) i TCP_FLAG_SYN [] ?s3 = Some (r1, s4)"
    and rest: "(if r1 < 0 then Some (-1, upd_sock i (sk_used_update (\<lambda>_. False)) s4) else finish_connect depth i timeout s4) = Some (r, s')"
    unfolding tcp_connect_def Let_def by (auto simp: bind_eq_Some_conv)
  have "socks_ok s1" using ticks_ok [OF s] t by simp
  then have "socks_ok ?s2" by (rule upd_sock_ok) (simp add: sock_ok_def new_sock_def zero_sock_def)
  then have s3: "socks_ok ?s3" by (simp add: socks_ok_def)
  have s4: "socks_ok s4" by (rule send_tcp_segment_ok [OF tcp_handle_packet_ok s3 snt])
  show ?thesis using rest unused_ok [OF s4] finish_connect_ok [OF s4] by (auto split: if_splits)
qed

lemma tcp_send_ok:
  assumes s: "socks_ok s" and run: "tcp_send depth i data timeout s = Some (r, s')"
  shows "socks_ok s'"
proof (cases "\<not> sk_used (sockets s ! i) \<or> sk_state (sockets s ! i) \<noteq> TCP_ESTABLISHED")
  case True
  with run s show ?thesis by (auto simp: tcp_send_def)
next
  case False
  let ?s1 = "upd_sock i (\<lambda>k. k\<lparr>snd_nxt := snd_una k\<rparr>) s"
  from run False obtain r1 s2 where snt: "send_tcp_segment (tcp_handle_packet depth) i (TCP_FLAG_PSH OR TCP_FLAG_ACK) (take 1460 data) ?s1 = Some (r1, s2)"
    and rest: "(if r1 < 0 then Some (-1, s2)
         else case get_ticks (upd_sock i (\<lambda>k. k\<lparr>snd_nxt := snd_una k + of_nat (length (take 1460 data))\<rparr>) s2) of (start, s) \<Rightarrow>
              send_wait depth i start (ticks_of_ms timeout) s) = Some (r, s')"
    unfolding tcp_send_def Let_def by (auto simp: bind_eq_Some_conv simp del: length_take)
  have s1: "socks_ok ?s1" by (rule upd_sock_ok [OF s]) simp
  have s2: "socks_ok s2" by (rule send_tcp_segment_ok [OF tcp_handle_packet_ok s1 snt])
  have s3: "socks_ok (upd_sock i (\<lambda>k. k\<lparr>snd_nxt := snd_una k + of_nat (length (take 1460 data))\<rparr>) s2)" (is "socks_ok ?s3")
    by (rule upd_sock_ok [OF s2]) simp
  obtain t s4 where t: "get_ticks ?s3 = (t, s4)" by fastforce
  then have "socks_ok s4" using ticks_ok [OF s3] by simp
  then show ?thesis using rest s2 t send_wait_ok [of depth i t "ticks_of_ms timeout" s4] by (auto split: if_splits)
qed

lemma tcp_recv_ok:
  assumes s: "socks_ok s" and i: "i < 4" and run: "tcp_recv depth i n timeout s = Some (r, s')"
  shows "socks_ok s'"
  using run ticks_ok [OF s] recv_wait_ok [OF _ _ i] s
  by (auto simp: tcp_recv_def split: if_splits prod.splits)

lemma tcp_close_ok:
  assumes s: "socks_ok s" and run: "tcp_close depth i s = Some s'"
  shows "socks_ok s'"
proof -
  note unused = unused_ok [where i = i]
  show ?thesis
  proof (cases "sk_used (sockets s ! i) \<and> sk_state (sockets s ! i) = TCP_ESTABLISHED")
    case False
    with run show ?thesis using s unused [OF s] by (auto simp: tcp_close_def split: if_splits)
  next
    case True
    from run True obtain r1 s1 t where snt: "send_tcp_segment (tcp_handle_packet depth) i (TCP_FLAG_FIN OR TCP_FLAG_ACK) [] s = Some (r1, s1)"
      and rest: "(case get_ticks (upd_sock i (\<lambda>k. k\<lparr>snd_nxt := snd_nxt k + 1, sk_state := TCP_FIN_WAIT_1\<rparr>) s1) of (start, s) \<Rightarrow>
                close_wait depth i start s) = Some t" and e: "s' = upd_sock i (sk_used_update (\<lambda>_. False)) t"
      unfolding tcp_close_def by (auto simp: bind_eq_Some_conv)
    have s1: "socks_ok s1" by (rule send_tcp_segment_ok [OF tcp_handle_packet_ok s snt])
    have s2: "socks_ok (upd_sock i (\<lambda>k. k\<lparr>snd_nxt := snd_nxt k + 1, sk_state := TCP_FIN_WAIT_1\<rparr>) s1)"
      by (rule upd_sock_ok [OF s1]) simp
    show ?thesis
      using rest ticks_ok [OF s2] close_wait_ok unused e by (auto split: prod.splits)
  qed
qed

text \<open>
  The states of the component: after \<open>tcp_init\<close>, any sequence of calls with socket numbers that
  \<open>tcp_connect\<close> can have returned, of packets dispatched by the other functions of the network
  component, and of changes of anything but the sockets.
\<close>

inductive tcp_reach :: "inet \<Rightarrow> bool" where
  init: "tcp_init s = (r, s') \<Longrightarrow> tcp_reach s'"
| connect: "tcp_reach s \<Longrightarrow> tcp_connect depth ip port timeout s = Some (r, s') \<Longrightarrow> tcp_reach s'"
| send: "tcp_reach s \<Longrightarrow> i < TCP_MAX_SOCKS \<Longrightarrow> tcp_send depth i data timeout s = Some (r, s') \<Longrightarrow> tcp_reach s'"
| recv: "tcp_reach s \<Longrightarrow> i < TCP_MAX_SOCKS \<Longrightarrow> tcp_recv depth i n timeout s = Some (xs, s') \<Longrightarrow> tcp_reach s'"
| close: "tcp_reach s \<Longrightarrow> i < TCP_MAX_SOCKS \<Longrightarrow> tcp_close depth i s = Some s' \<Longrightarrow> tcp_reach s'"
| packet: "tcp_reach s \<Longrightarrow> net_parse_packet (tcp_handle_packet depth) pkt len s = Some (r, s') \<Longrightarrow> tcp_reach s'"
| other: "tcp_reach s \<Longrightarrow> sockets s' = sockets s \<Longrightarrow> tcp_reach s'"

text \<open>
  C23: In every reachable state there are four sockets, none of which claims more received bytes
  than its buffer of 1460 bytes has, and each is closed, has sent its SYN, is established, has
  sent its FIN, or waits for the local close. The states FIN_WAIT_2, TIME_WAIT and LAST_ACK of
  the header are never entered.
\<close>

theorem tcp_sockets_typed:
  assumes "tcp_reach s"
  shows "length (sockets s) = TCP_MAX_SOCKS \<and>
    list_all (\<lambda>k. rcv_len k \<le> 1460 \<and> sk_state k \<in> {TCP_CLOSED, TCP_SYN_SENT, TCP_ESTABLISHED, TCP_FIN_WAIT_1, TCP_CLOSE_WAIT}) (sockets s)"
proof -
  from assms have "socks_ok s"
  proof induction
    case (init s r s')
    then show ?case by (auto simp: tcp_init_def socks_ok_def list_all_iff)
  next
    case (packet s depth pkt len r s')
    then show ?case using net_parse_packet_ok [OF tcp_handle_packet_ok] by blast
  next
    case (other s s')
    then show ?case using socks_ok_cong by blast
  qed (auto intro: tcp_connect_ok tcp_send_ok tcp_recv_ok tcp_close_ok)
  then show ?thesis by (simp add: socks_ok_def sock_ok_def [abs_def])
qed

theorem tcp_sockets_typed_witness:
  "let s = snd (tcp_init ex_inet) in tcp_reach s \<and> length (sockets s) = TCP_MAX_SOCKS"
proof -
  have "tcp_reach (snd (tcp_init ex_inet))" by (rule tcp_reach.init [of ex_inet "fst (tcp_init ex_inet)"]) simp
  then show ?thesis using tcp_sockets_typed [of "snd (tcp_init ex_inet)"] by (simp add: Let_def)
qed

end
