(* ===== verification/Keyboard.thy ===== *)
theory Keyboard
  imports Ports
begin

text \<open>
  The keyboard driver of \<^verbatim>\<open>kernel/drivers/keyboard.c\<close>: the interrupt handler decodes scan codes
  into a ring of 256 characters, from which \<open>get_char\<close> takes them. The ring is shown to be a
  bounded queue, through the interface of one.
\<close>

section \<open>Constants, tables and state\<close>

definition KEYBOARD_DATA_PORT :: u16 where "KEYBOARD_DATA_PORT = 0x60"
definition KEYBOARD_STATUS_PORT :: u16 where "KEYBOARD_STATUS_PORT = 0x64"
definition KEY_UP :: u8 where "KEY_UP = 1"
definition KEY_DOWN :: u8 where "KEY_DOWN = 2"
definition KEY_LEFT :: u8 where "KEY_LEFT = 3"
definition KEY_RIGHT :: u8 where "KEY_RIGHT = 4"
definition LSHIFT_DOWN :: u8 where "LSHIFT_DOWN = 0x2A"
definition LSHIFT_UP :: u8 where "LSHIFT_UP = 0xAA"
definition RSHIFT_DOWN :: u8 where "RSHIFT_DOWN = 0x36"
definition RSHIFT_UP :: u8 where "RSHIFT_UP = 0xB6"
definition CAPS_DOWN :: u8 where "CAPS_DOWN = 0x3A"
definition EXTENDED_PREFIX :: u8 where "EXTENDED_PREFIX = 0xE0"
definition BUFFER_SIZE :: nat where "BUFFER_SIZE = 256"
definition TABLE_SIZE :: u8 where "TABLE_SIZE = 58"

definition scancode_ascii :: "u8 list" where
  "scancode_ascii =
    [0, 0, 49, 50, 51, 52, 53, 54, 55, 56,
     57, 48, 45, 61, 8, 0, 113, 119, 101, 114,
     116, 121, 117, 105, 111, 112, 91, 93, 10, 0,
     97, 115, 100, 102, 103, 104, 106, 107, 108, 59,
     39, 96, 0, 92, 122, 120, 99, 118, 98, 110,
     109, 44, 46, 47, 0, 42, 0, 32]"

definition scancode_ascii_shift :: "u8 list" where
  "scancode_ascii_shift =
    [0, 0, 33, 64, 35, 36, 37, 94, 38, 42,
     40, 41, 95, 43, 8, 0, 81, 87, 69, 82,
     84, 89, 85, 73, 79, 80, 123, 125, 10, 0,
     65, 83, 68, 70, 71, 72, 74, 75, 76, 58,
     34, 126, 0, 124, 90, 88, 67, 86, 66, 78,
     77, 60, 62, 63, 0, 42, 0, 32]"

record kbd = io +
  scan_code :: u8
  shift_pressed :: bool
  caps_on :: bool
  extended :: bool
  key_buffer :: "u8 list"
  buffer_head :: nat
  buffer_tail :: nat
  typematic_param :: u8

section \<open>Operations\<close>

definition put_char :: "u8 \<Rightarrow> kbd \<Rightarrow> kbd" where
  "put_char c s =
     (let nxt = (buffer_head s + 1) mod BUFFER_SIZE
      in if nxt \<noteq> buffer_tail s then s\<lparr>key_buffer := (key_buffer s)[buffer_head s := c], buffer_head := nxt\<rparr> else s)"

definition arrow_key :: "u8 \<Rightarrow> u8" where
  "arrow_key code =
     (if code = 0x48 then KEY_UP else if code = 0x50 then KEY_DOWN
      else if code = 0x4B then KEY_LEFT else if code = 0x4D then KEY_RIGHT else 0)"

text \<open>The handler behind the acquisition of the lock: one scan code.\<close>

definition handle_code :: "u8 \<Rightarrow> kbd \<Rightarrow> kbd" where
  "handle_code code s =
     (if code = EXTENDED_PREFIX then s\<lparr>extended := True\<rparr>
      else if extended s
      then let s = s\<lparr>extended := False\<rparr>; c = arrow_key code
           in if code AND 0x80 = 0 \<and> c \<noteq> 0 then put_char c s else s
      else if code = LSHIFT_DOWN \<or> code = RSHIFT_DOWN then s\<lparr>shift_pressed := True\<rparr>
      else if code = LSHIFT_UP \<or> code = RSHIFT_UP then s\<lparr>shift_pressed := False\<rparr>
      else if code = CAPS_DOWN then s\<lparr>caps_on := \<not> caps_on s\<rparr>
      else if code AND 0x80 = 0 \<and> code < TABLE_SIZE
      then let c = (if shift_pressed s \<or> caps_on s then scancode_ascii_shift ! unat code else scancode_ascii ! unat code)
           in if c \<noteq> 0 then put_char c s else s
      else s)"

text \<open>The interrupt handler; \<open>busy\<close> tells whether the lock is held when it tries to take it.\<close>

definition keyboard_handler :: "bool \<Rightarrow> kbd \<Rightarrow> kbd" where
  "keyboard_handler busy s =
     (case inb KEYBOARD_STATUS_PORT s of (status, s) \<Rightarrow>
      if status AND 0x01 = 0 then s
      else case inb KEYBOARD_DATA_PORT s of (code, s) \<Rightarrow>
           let s = s\<lparr>scan_code := code\<rparr> in if busy then s else handle_code code s)"

definition get_char :: "kbd \<Rightarrow> u8 \<times> kbd" where
  "get_char s =
     (if buffer_head s = buffer_tail s then (0, s)
      else (key_buffer s ! buffer_tail s, s\<lparr>buffer_tail := (buffer_tail s + 1) mod BUFFER_SIZE\<rparr>))"

text \<open>\<open>read_char\<close> repeats \<open>get_char\<close>; between two calls the handler runs as the sequence of interrupts says.\<close>

fun read_char :: "bool list list \<Rightarrow> kbd \<Rightarrow> (u8 \<times> kbd) option" where
  "read_char [] s = None"
| "read_char (irqs # rest) s =
     (case get_char (fold keyboard_handler irqs s) of (c, s) \<Rightarrow> if c = 0 then read_char rest s else Some (c, s))"

partial_function (option) wait_input :: "kbd \<Rightarrow> kbd option" where
  "wait_input s = (case inb KEYBOARD_STATUS_PORT s of (v, s) \<Rightarrow> if v AND 0x02 \<noteq> 0 then wait_input s else Some s)"

definition keyboard_set_typematic :: "u8 \<Rightarrow> kbd \<Rightarrow> kbd option" where
  "keyboard_set_typematic param s =
     Option.bind (wait_input s) (\<lambda>s.
     Option.bind (wait_input (outb KEYBOARD_DATA_PORT 0xF3 s)) (\<lambda>s.
       Some ((outb KEYBOARD_DATA_PORT param s)\<lparr>typematic_param := param\<rparr>)))"

definition keyboard_get_typematic :: "kbd \<Rightarrow> u8" where
  "keyboard_get_typematic s = typematic_param s"

definition init_keyboard :: "kbd \<Rightarrow> kbd option" where
  "init_keyboard s =
     keyboard_set_typematic 0x00
       (s\<lparr>shift_pressed := False, caps_on := False, extended := False, buffer_head := 0, buffer_tail := 0, typematic_param := 0\<rparr>)"

section \<open>The bounded queue\<close>

text \<open>
  The interface between the handler and the readers: a queue of at most \<open>cap\<close> elements that
  drops what arrives when it is full.
\<close>

locale bounded_queue =
  fixes cap :: nat
    and inv :: "'s \<Rightarrow> bool"
    and queued :: "'s \<Rightarrow> 'c list"
    and enq :: "'c \<Rightarrow> 's \<Rightarrow> 's"
    and deq :: "'s \<Rightarrow> 'c option \<times> 's"
  assumes enq_inv: "inv s \<Longrightarrow> inv (enq c s)"
    and deq_inv: "inv s \<Longrightarrow> inv (snd (deq s))"
    and enq_queued: "inv s \<Longrightarrow> queued (enq c s) = (if length (queued s) < cap then queued s @ [c] else queued s)"
    and deq_empty: "inv s \<Longrightarrow> queued s = [] \<Longrightarrow> deq s = (None, s)"
    and deq_queued: "inv s \<Longrightarrow> queued s = c # cs \<Longrightarrow> fst (deq s) = Some c \<and> queued (snd (deq s)) = cs"
begin

definition accepted :: "'c list \<Rightarrow> 's \<Rightarrow> 'c list" where
  "accepted cs s = take (cap - length (queued s)) cs"

lemma enq_fifo: "inv s \<Longrightarrow> queued (enq c s) = queued s @ accepted [c] s"
  by (simp add: enq_queued accepted_def)

lemma deq_fifo: "inv s \<Longrightarrow> deq s = (r, s') \<Longrightarrow> inv s' \<and> queued s = (case r of None \<Rightarrow> [] | Some c \<Rightarrow> [c]) @ queued s'"
  using deq_inv [of s] deq_empty [of s] deq_queued [of s] by (cases "queued s") auto

lemma enq_bound: "inv s \<Longrightarrow> length (queued s) \<le> cap \<Longrightarrow> length (queued (enq c s)) \<le> cap"
  by (simp add: enq_queued)

lemma deq_bound: "inv s \<Longrightarrow> length (queued s) \<le> cap \<Longrightarrow> length (queued (snd (deq s))) \<le> cap"
  using deq_fifo [of s "fst (deq s)" "snd (deq s)"] by (auto split: option.splits)

end

section \<open>The ring is a bounded queue\<close>

definition kb_ok :: "kbd \<Rightarrow> bool" where
  "kb_ok s \<longleftrightarrow> length (key_buffer s) = BUFFER_SIZE \<and> buffer_head s < BUFFER_SIZE \<and> buffer_tail s < BUFFER_SIZE"

text \<open>The characters in the ring, oldest first.\<close>

definition queued :: "kbd \<Rightarrow> u8 list" where
  "queued s = map (\<lambda>k. key_buffer s ! ((buffer_tail s + k) mod 256)) [0..<(buffer_head s + 256 - buffer_tail s) mod 256]"

definition take_char :: "kbd \<Rightarrow> u8 option \<times> kbd" where
  "take_char s = (if buffer_head s = buffer_tail s then (None, s) else (Some (fst (get_char s)), snd (get_char s)))"

lemma mod_wrap: "x < 512 \<Longrightarrow> x mod 256 = (if x < 256 then x else x - 256)" for x :: nat
  by (auto simp: mod_if)

lemma ring_length: "h < 256 \<Longrightarrow> t < 256 \<Longrightarrow> (h + 256 - t) mod 256 = (if t \<le> h then h - t else h + 256 - t)" for h t :: nat
  by (auto simp: mod_if)

lemma length_queued: "kb_ok s \<Longrightarrow> length (queued s) = (if buffer_tail s \<le> buffer_head s then buffer_head s - buffer_tail s
    else buffer_head s + 256 - buffer_tail s)"
  by (simp add: queued_def kb_ok_def BUFFER_SIZE_def ring_length)

lemma put_char_queued:
  assumes ok: "kb_ok s"
  shows "queued (put_char c s) = (if length (queued s) < 255 then queued s @ [c] else queued s)"
proof -
  let ?h = "buffer_head s" and ?t = "buffer_tail s"
  have b: "?h < 256" "?t < 256" "length (key_buffer s) = 256" using ok by (auto simp: kb_ok_def BUFFER_SIZE_def)
  define n where "n = length (queued s)"
  have n: "n = (if ?t \<le> ?h then ?h - ?t else ?h + 256 - ?t)" using length_queued [OF ok] n_def by simp
  have hn: "?h = (?t + n) mod 256" using b n by simp
  show ?thesis
  proof (cases "(?h + 1) mod 256 = ?t")
    case True
    moreover have "(?h + 1) mod 256 = (if ?h + 1 < 256 then ?h + 1 else 0)" using b mod_wrap [of "?h + 1"] by auto
    ultimately have "n = 255" using b n by (simp split: if_splits)
    then show ?thesis using True n_def by (simp add: put_char_def BUFFER_SIZE_def)
  next
    case False
    have w: "(?h + 1) mod 256 = (if ?h + 1 < 256 then ?h + 1 else 0)" using b mod_wrap [of "?h + 1"] by auto
    have lt: "n < 255" using b n False w by (simp split: if_splits)
    have "(?h + 1) mod 256 < 256" by simp
    from ring_length [OF this b(2)] have len: "((?h + 1) mod 256 + 256 - ?t) mod 256 = Suc n"
      using b n False w by (simp split: if_splits)
    have "(key_buffer s)[?h := c] ! ((?t + k) mod 256) = key_buffer s ! ((?t + k) mod 256)" if "k < n" for k
    proof -
      have "?t + k < 512" using b n that by (auto split: if_splits)
      then have "(?t + k) mod 256 \<noteq> ?h" using b n that mod_wrap [of "?t + k"] by (simp split: if_splits)
      then show ?thesis by simp
    qed
    moreover have "(key_buffer s)[?h := c] ! ((?t + n) mod 256) = c" using hn b by simp
    moreover have "queued s = map (\<lambda>k. key_buffer s ! ((?t + k) mod 256)) [0..<n]" by (simp add: queued_def n_def)
    ultimately show ?thesis
      using False lt len by (simp add: put_char_def BUFFER_SIZE_def queued_def n_def [symmetric])
  qed
qed

lemma get_char_queued:
  assumes ok: "kb_ok s" and ne: "buffer_head s \<noteq> buffer_tail s"
  shows "queued s = fst (get_char s) # queued (snd (get_char s))"
proof -
  let ?h = "buffer_head s" and ?t = "buffer_tail s"
  have b: "?h < 256" "?t < 256" using ok by (auto simp: kb_ok_def BUFFER_SIZE_def)
  have "0 < length (queued s)" using length_queued [OF ok] ne b by (simp split: if_splits)
  then obtain m where m: "length (queued s) = Suc m" by (meson gr0_conv_Suc)
  then have m': "(?h + 256 - ?t) mod 256 = Suc m" by (simp add: queued_def)
  have "(?t + 1) mod 256 < 256" by simp
  from ring_length [OF b(1) this] have len: "(?h + 256 - (?t + 1) mod 256) mod 256 = m"
    using m length_queued [OF ok] b ne mod_wrap [of "?t + 1"] by (simp split: if_splits)
  have "[0..<Suc m] = 0 # map Suc [0..<m]" by (simp add: upt_conv_Cons map_Suc_upt del: upt_Suc)
  moreover have "((?t + 1) mod 256 + k) mod 256 = (?t + Suc k) mod 256" for k by (simp add: mod_simps)
  ultimately show ?thesis
    using ne b len by (simp add: queued_def m' get_char_def BUFFER_SIZE_def comp_def del: upt_Suc)
qed

interpretation kq: bounded_queue 255 kb_ok queued put_char take_char
proof
  fix s :: kbd and c :: u8 and cs :: "u8 list"
  assume ok: "kb_ok s"
  show "kb_ok (put_char c s)" using ok by (simp add: put_char_def kb_ok_def Let_def BUFFER_SIZE_def)
  show "kb_ok (snd (take_char s))" using ok by (simp add: take_char_def get_char_def kb_ok_def BUFFER_SIZE_def)
  show "queued (put_char c s) = (if length (queued s) < 255 then queued s @ [c] else queued s)"
    by (rule put_char_queued [OF ok])
  show "take_char s = (None, s)" if "queued s = []"
    using that length_queued [OF ok] ok by (auto simp: take_char_def kb_ok_def BUFFER_SIZE_def split: if_splits)
  show "fst (take_char s) = Some c \<and> queued (snd (take_char s)) = cs" if "queued s = c # cs"
  proof -
    have "buffer_head s \<noteq> buffer_tail s" using that ok by (auto simp: queued_def)
    then show ?thesis using get_char_queued [OF ok] that by (simp add: take_char_def)
  qed
qed

section \<open>Typing and reading\<close>

text \<open>The character that a scan code stands for in a state, if any, by the tables and the modifier keys.\<close>

definition typed :: "u8 \<Rightarrow> kbd \<Rightarrow> u8 list" where
  "typed code s =
     (let c = (if code AND 0x80 \<noteq> 0 \<or> code = EXTENDED_PREFIX then 0
               else if extended s then arrow_key code
               else if code \<in> {LSHIFT_DOWN, RSHIFT_DOWN, CAPS_DOWN} \<or> \<not> code < TABLE_SIZE then 0
               else if shift_pressed s \<or> caps_on s then scancode_ascii_shift ! unat code else scancode_ascii ! unat code)
      in if c = 0 then [] else [c])"

text \<open>The character an interrupt accepts: none without a scan code, with the lock held, or with the ring full.\<close>

definition irq_chars :: "bool \<Rightarrow> kbd \<Rightarrow> u8 list" where
  "irq_chars busy s =
     (case inb KEYBOARD_STATUS_PORT s of (status, s) \<Rightarrow>
      case inb KEYBOARD_DATA_PORT s of (code, s) \<Rightarrow>
      if status AND 0x01 = 0 \<or> busy \<or> 255 \<le> length (queued s) then [] else typed code s)"

datatype kb_event = Irq bool | Read

text \<open>One event: the characters it adds, the characters it delivers, and the next state.\<close>

fun kb_step :: "kb_event \<Rightarrow> kbd \<Rightarrow> u8 list \<times> u8 list \<times> kbd" where
  "kb_step (Irq busy) s = (irq_chars busy s, [], keyboard_handler busy s)"
| "kb_step Read s = (case get_char s of (c, s') \<Rightarrow> ([], if c = 0 then [] else [c], s'))"

fun kb_run :: "kb_event list \<Rightarrow> kbd \<Rightarrow> u8 list \<times> u8 list \<times> kbd" where
  "kb_run [] s = ([], [], s)"
| "kb_run (e # es) s =
     (case kb_step e s of (a, out, s) \<Rightarrow> case kb_run es s of (a', out', s) \<Rightarrow> (a @ a', out @ out', s))"

lemma flags_queued [simp]:
  "queued (s\<lparr>extended := b\<rparr>) = queued s" "queued (s\<lparr>shift_pressed := b\<rparr>) = queued s" "queued (s\<lparr>caps_on := b\<rparr>) = queued s"
  "kb_ok (s\<lparr>extended := b\<rparr>) = kb_ok s" "kb_ok (s\<lparr>shift_pressed := b\<rparr>) = kb_ok s" "kb_ok (s\<lparr>caps_on := b\<rparr>) = kb_ok s"
  "queued (s\<lparr>scan_code := v\<rparr>) = queued s" "kb_ok (s\<lparr>scan_code := v\<rparr>) = kb_ok s"
  by (simp_all add: queued_def kb_ok_def)

lemma inb_queued: "inb p s = (v, s') \<Longrightarrow> queued s' = queued s \<and> kb_ok s' = kb_ok s"
  by (auto simp: inb_def inl_def queued_def kb_ok_def)

lemma typed_scan_code [simp]: "typed code (s\<lparr>scan_code := v\<rparr>) = typed code s"
  by (simp add: typed_def)

lemma arrow_key_up: "arrow_key code \<noteq> 0 \<Longrightarrow> code AND 0x80 = 0"
  by (auto simp: arrow_key_def split: if_splits)

lemma break_codes: "EXTENDED_PREFIX AND 0x80 \<noteq> 0" "LSHIFT_UP AND 0x80 \<noteq> 0" "RSHIFT_UP AND 0x80 \<noteq> 0"
  by (simp_all add: EXTENDED_PREFIX_def LSHIFT_UP_def RSHIFT_UP_def)

lemma handle_code_put:
  "\<exists>s'. queued s' = queued s \<and> kb_ok s' = kb_ok s \<and> handle_code code s = fold put_char (typed code s) s'"
proof (cases "code = EXTENDED_PREFIX \<or> \<not> extended s \<and> code \<in> {LSHIFT_DOWN, RSHIFT_DOWN, LSHIFT_UP, RSHIFT_UP, CAPS_DOWN}")
  case True
  then have "typed code s = []" using break_codes by (auto simp: typed_def)
  moreover have "queued (handle_code code s) = queued s \<and> kb_ok (handle_code code s) = kb_ok s"
    using True unfolding handle_code_def by (elim disjE conjE insertE emptyE) simp_all
  ultimately show ?thesis by (intro exI [of _ "handle_code code s"]) simp
next
  case False
  show ?thesis
  proof (cases "extended s")
    case True
    then have "typed code s = (if code AND 0x80 = 0 \<and> arrow_key code \<noteq> 0 then [arrow_key code] else [])"
      using False by (auto simp: typed_def)
    then show ?thesis using True False by (intro exI [of _ "s\<lparr>extended := False\<rparr>"]) (simp add: handle_code_def Let_def)
  next
    case out: False
    show ?thesis
      using out False by (intro exI [of _ s]) (simp add: handle_code_def typed_def Let_def)
  qed
qed

lemma handle_code_queued:
  assumes "kb_ok s"
  shows "kb_ok (handle_code code s)"
    and "queued (handle_code code s) = queued s @ (if length (queued s) < 255 then typed code s else [])"
proof -
  obtain s' where s': "queued s' = queued s" "kb_ok s'" "handle_code code s = fold put_char (typed code s) s'"
    using handle_code_put [of s code] assms by auto
  have "typed code s = [] \<or> (\<exists>c. typed code s = [c])" by (simp add: typed_def Let_def)
  then have "kb_ok (handle_code code s) \<and> queued (handle_code code s) = queued s @ (if length (queued s) < 255 then typed code s else [])"
    using s' kq.enq_inv kq.enq_queued by auto
  then show "kb_ok (handle_code code s)"
    and "queued (handle_code code s) = queued s @ (if length (queued s) < 255 then typed code s else [])" by simp_all
qed

text \<open>A zero in the ring would be delivered as \<open>no character\<close>; the handler never stores one.\<close>

definition kb_inv :: "kbd \<Rightarrow> bool" where
  "kb_inv s \<longleftrightarrow> kb_ok s \<and> 0 \<notin> set (queued s)"

lemma typed_nonzero: "0 \<notin> set (typed code s)"
  by (simp add: typed_def Let_def)

lemma keyboard_handler_queued:
  assumes "kb_ok s"
  shows "kb_ok (keyboard_handler busy s) \<and> queued (keyboard_handler busy s) = queued s @ irq_chars busy s"
proof -
  obtain st s1 where s1: "inb KEYBOARD_STATUS_PORT s = (st, s1)" by fastforce
  obtain code s2 where s2: "inb KEYBOARD_DATA_PORT s1 = (code, s2)" by fastforce
  have q: "kb_ok s2" "kb_ok s1" "queued s2 = queued s" "queued s1 = queued s"
    using inb_queued [OF s1] inb_queued [OF s2] assms by auto
  have ok: "kb_ok (s2\<lparr>scan_code := code\<rparr>)" using q by simp
  show ?thesis
    using q handle_code_queued [OF ok, of code] by (simp add: keyboard_handler_def irq_chars_def s1 s2 Let_def)
qed

lemma irq_chars_nonzero: "0 \<notin> set (irq_chars busy s)"
  using typed_nonzero by (simp add: irq_chars_def split_beta)

lemma kb_step_fifo:
  assumes "kb_inv s" and "kb_step e s = (acc, out, s')"
  shows "kb_inv s'" and "queued s @ acc = out @ queued s'"
proof -
  have ok: "kb_ok s" and nz: "0 \<notin> set (queued s)" using assms by (auto simp: kb_inv_def)
  have "kb_inv s' \<and> queued s @ acc = out @ queued s'"
  proof (cases e)
    case (Irq busy)
    then show ?thesis using assms keyboard_handler_queued [OF ok, of busy] nz irq_chars_nonzero [of busy s]
      by (auto simp: kb_inv_def)
  next
    case Read
    obtain r t where t: "take_char s = (r, t)" by fastforce
    from kq.deq_fifo [OF ok t] have "kb_ok t" "queued s = (case r of None \<Rightarrow> [] | Some c \<Rightarrow> [c]) @ queued t" by auto
    then show ?thesis using assms Read t nz
      by (auto simp: kb_inv_def take_char_def get_char_def split: if_splits option.splits)
  qed
  then show "kb_inv s'" and "queued s @ acc = out @ queued s'" by simp_all
qed

lemma kb_run_fifo: "kb_inv s \<Longrightarrow> kb_run es s = (acc, out, s') \<Longrightarrow> kb_inv s' \<and> queued s @ acc = out @ queued s'"
proof (induction es arbitrary: s acc out)
  case (Cons e es)
  obtain a o1 t where st: "kb_step e s = (a, o1, t)" by (metis prod_cases3)
  obtain a' o2 where r: "kb_run es t = (a', o2, s')" "acc = a @ a'" "out = o1 @ o2"
    using Cons.prems(2) st by (auto split: prod.splits)
  have "queued s @ a @ a' = o1 @ queued t @ a'" using kb_step_fifo(2) [OF Cons.prems(1) st] by simp
  then show ?case using Cons.IH [OF kb_step_fifo(1) [OF Cons.prems(1) st] r(1)] r by simp
qed simp

lemma queued_bound: "kb_ok s \<Longrightarrow> length (queued s) \<le> 255"
  using length_queued [of s] by (auto simp: kb_ok_def BUFFER_SIZE_def)

text \<open>
  C9: Over any sequence of keyboard interrupts, whatever the controller delivers, and calls of
  \<open>get_char\<close>, the characters delivered to the readers, followed by those still in the ring, are
  exactly the characters that were in the ring followed by the characters the accepted key presses
  stand for, in the order of typing: none is lost, doubled, reordered or made up, except those
  typed while 255 characters are waiting or the lock is held, and the ring never holds more than 255.
\<close>

theorem keyboard_fifo:
  assumes "kb_inv s" and "kb_run es s = (acc, out, s')"
  shows "out @ queued s' = queued s @ acc \<and> length (queued s') \<le> 255 \<and> 0 \<notin> set out \<and> kb_inv s'"
proof -
  have r: "kb_inv s'" "queued s @ acc = out @ queued s'" using kb_run_fifo [OF assms] by auto
  have "0 \<notin> set out" using assms
  proof (induction es arbitrary: s acc out)
    case (Cons e es)
    obtain a o1 t where st: "kb_step e s = (a, o1, t)" by (metis prod_cases3)
    obtain a' o2 where es: "kb_run es t = (a', o2, s')" "out = o1 @ o2"
      using Cons.prems(2) st by (auto split: prod.splits)
    have "0 \<notin> set o1" using st by (cases e) (auto split: prod.splits if_splits)
    then show ?case using Cons.IH [OF kb_step_fifo(1) [OF Cons.prems(1) st] es(1)] es(2) by simp
  qed simp
  then show ?thesis using r queued_bound [of s'] by (auto simp: kb_inv_def)
qed

definition ex_codes :: "nat \<Rightarrow> u32" where
  "ex_codes n = (if n = 0 then 0x2A else if n = 1 then 0x23 else if n = 2 then 0xAA else 0x17)"

definition ex_kbd :: kbd where
  "ex_kbd = \<lparr>port_in = \<lambda>p n. if p = KEYBOARD_STATUS_PORT then 1 else ex_codes n, port_out = [], tick_in = \<lambda>n. 0,
     scan_code = 0, shift_pressed = False, caps_on = False, extended = False, key_buffer = replicate 256 0,
     buffer_head = 255, buffer_tail = 255, typematic_param = 0\<rparr>"

lemmas kb_eval = inb_def inl_def KEYBOARD_STATUS_PORT_def KEYBOARD_DATA_PORT_def LSHIFT_DOWN_def LSHIFT_UP_def
  RSHIFT_DOWN_def RSHIFT_UP_def CAPS_DOWN_def EXTENDED_PREFIX_def TABLE_SIZE_def BUFFER_SIZE_def

theorem keyboard_fifo_witness:
  "case kb_run [Irq False, Irq False, Read, Irq False, Irq False, Read] ex_kbd of (acc, out, s') \<Rightarrow>
     acc = [72, 105] \<and> out @ queued s' = [72, 105]"
proof -
  have "kb_inv ex_kbd" by (simp add: kb_inv_def kb_ok_def queued_def ex_kbd_def BUFFER_SIZE_def)
  moreover obtain acc out s' where r: "kb_run [Irq False, Irq False, Read, Irq False, Irq False, Read] ex_kbd = (acc, out, s')"
    by (metis prod_cases3)
  ultimately have "out @ queued s' = queued ex_kbd @ acc" using keyboard_fifo by blast
  moreover have "queued ex_kbd = []" by (simp add: queued_def ex_kbd_def)
  moreover have "acc = [72, 105]"
    using r by (simp add: irq_chars_def keyboard_handler_def handle_code_def put_char_def typed_def get_char_def queued_def
        ex_kbd_def ex_codes_def scancode_ascii_def scancode_ascii_shift_def kb_eval)
  ultimately show ?thesis using r by simp
qed

end
