(* ===== verification/Ata.thy ===== *)
theory Ata
  imports Ports Nvfs
begin

text \<open>
  The disk driver of \<^verbatim>\<open>kernel/drivers/ata.c\<close>: identification of the drives and programmed
  transfers of sectors with retries, as reads and writes of the ports of the controller. The
  drive at the other end is the protocol of the ATA registers, and the transfers are shown to
  be the sector operations on which the file system rests. Debug output on the serial line is
  left out.
\<close>

section \<open>State\<close>

definition TIMEOUT :: nat where "TIMEOUT = 100000"
definition ATA_RETRIES :: nat where "ATA_RETRIES = 3"

record ata = io +
  ata_present :: "nat \<Rightarrow> nat \<Rightarrow> bool"
  ata_model :: "nat \<Rightarrow> nat \<Rightarrow> u8 list"

definition ata_base :: "int \<Rightarrow> u16" where
  "ata_base channel = (if channel \<noteq> 0 then 0x170 else 0x1F0)"

section \<open>Identification\<close>

fun identify_wait :: "nat \<Rightarrow> u16 \<Rightarrow> 'a io_scheme \<Rightarrow> u8 \<times> 'a io_scheme" where
  "identify_wait timeout port s =
     (case inb port s of (st, s) \<Rightarrow>
      if st = 0 \<or> st = 0xFF \<or> st AND 0x80 = 0 then (st, s)
      else if timeout = 0 then (st, s) else identify_wait (timeout - 1) port s)"

fun read_words :: "nat \<Rightarrow> u16 \<Rightarrow> 'a io_scheme \<Rightarrow> u16 list \<times> 'a io_scheme" where
  "read_words 0 port s = ([], s)"
| "read_words (Suc n) port s =
     (case inw port s of (w, s) \<Rightarrow> case read_words n port s of (ws, s) \<Rightarrow> (w # ws, s))"

definition model_chars :: "u16 list \<Rightarrow> u8 list" where
  "model_chars buf = concat (map (\<lambda>w. [ucast (w AND 0xFF), ucast (drop_bit 8 w)]) (take 20 (drop 27 buf)))"

text \<open>The loop that turns trailing blanks into terminators, from the end.\<close>

fun trim_model :: "nat \<Rightarrow> u8 list \<Rightarrow> u8 list" where
  "trim_model 0 m = m"
| "trim_model (Suc i) m = (if m ! i = 32 then trim_model i (m[i := 0]) else m)"

definition ata_identify :: "nat \<Rightarrow> nat \<Rightarrow> ata \<Rightarrow> bool \<times> ata" where
  "ata_identify ch dr s =
     (let base = ata_base (int ch); s = outb (base + 6) (0xE0 OR push_bit 4 (of_nat dr)) s;
          s = snd (inb (base + 7) (snd (inb (base + 7) (snd (inb (base + 7) (snd (inb (base + 7) s)))))));
          s = outb (base + 5) 0 (outb (base + 4) 0 (outb (base + 3) 0 (outb (base + 2) 0 s)));
          s = snd (inb (base + 7) (outb (base + 7) 0xEC s))
      in case identify_wait TIMEOUT (base + 7) s of (st, s) \<Rightarrow>
         if st = 0 \<or> st = 0xFF
         then (False, s\<lparr>ata_present := (ata_present s)(ch := (ata_present s ch)(dr := False))\<rparr>)
         else case read_words 256 base s of (buf, s) \<Rightarrow>
              (True, s\<lparr>ata_present := (ata_present s)(ch := (ata_present s ch)(dr := True)),
                       ata_model := (ata_model s)(ch := (ata_model s ch)(dr := trim_model 40 (model_chars buf @ [0])))\<rparr>))"

definition ata_init :: "ata \<Rightarrow> int \<times> ata" where
  "ata_init s =
     fold (\<lambda>(ch, dr) (detected, s). case ata_identify ch dr s of (found, s) \<Rightarrow> (if found then detected + 1 else detected, s))
       [(0, 0), (0, 1), (1, 0), (1, 1)] (0, s)"

definition ata_drive_exists :: "int \<Rightarrow> int \<Rightarrow> ata \<Rightarrow> bool" where
  "ata_drive_exists channel drive s =
     (if channel < 0 \<or> channel > 1 then False else if drive < 0 \<or> drive > 1 then False
      else ata_present s (nat channel) (nat drive))"

definition ata_get_model :: "int \<Rightarrow> int \<Rightarrow> ata \<Rightarrow> u8 list" where
  "ata_get_model channel drive s =
     (if \<not> ata_drive_exists channel drive s then [0] else ata_model s (nat channel) (nat drive))"

section \<open>Transfers\<close>

text \<open>
  The two loops that wait for the drive. The first ends with a request for data, an error, or
  after \<open>timeout + 1\<close> reads of the status; the second with the drive no longer busy, or after \<open>timeout\<close>
  reads. The result tells whether the transfer goes on.
\<close>

fun wait_drq :: "nat \<Rightarrow> u16 \<Rightarrow> 'a io_scheme \<Rightarrow> bool \<times> 'a io_scheme" where
  "wait_drq timeout port s =
     (case inb port s of (st, s) \<Rightarrow>
      if st AND 1 \<noteq> 0 then (False, s)
      else if timeout = 0 then (False, s)
      else if st AND 0x80 \<noteq> 0 \<or> st AND 0x08 = 0 then wait_drq (timeout - 1) port s
      else (True, s))"

fun wait_idle :: "nat \<Rightarrow> u16 \<Rightarrow> 'a io_scheme \<Rightarrow> bool \<times> 'a io_scheme" where
  "wait_idle timeout port s =
     (if timeout = 0 then (False, s)
      else case inb port s of (st, s) \<Rightarrow>
           if st AND 0x80 = 0 then (st AND 1 = 0, s) else wait_idle (timeout - 1) port s)"

fun write_words :: "nat \<Rightarrow> nat \<Rightarrow> u16 \<Rightarrow> (nat \<Rightarrow> u16) \<Rightarrow> 'a io_scheme \<Rightarrow> 'a io_scheme" where
  "write_words 0 i port buf s = s"
| "write_words (Suc n) i port buf s = write_words n (i + 1) port buf (outw port (buf i) s)"

definition ata_command :: "u16 \<Rightarrow> int \<Rightarrow> u32 \<Rightarrow> u8 \<Rightarrow> bool \<Rightarrow> ata \<Rightarrow> ata" where
  "ata_command base drive lba count wr s =
     (let s = outb (base + 6) (0xE0 OR push_bit 4 (of_int drive) OR (byte_of 24 lba AND 0x0F)) s;
          s = outb (base + 2) count s;
          s = outb (base + 3) (byte_of 0 lba) s;
          s = outb (base + 4) (byte_of 8 lba) s;
          s = outb (base + 5) (byte_of 16 lba) s
      in outb (base + 7) (if wr then 0x30 else 0x20) s)"

text \<open>The loop over the sectors: \<open>n\<close> are left, \<open>k\<close> is the index of the next one.\<close>

fun pio_sectors :: "nat \<Rightarrow> nat \<Rightarrow> u16 \<Rightarrow> bool \<Rightarrow> (nat \<Rightarrow> u16) \<Rightarrow> ata \<Rightarrow> bool \<times> (nat \<Rightarrow> u16) \<times> ata" where
  "pio_sectors 0 k base wr buf s = (True, buf, s)"
| "pio_sectors (Suc n) k base wr buf s =
     (case wait_drq TIMEOUT (base + 7) s of (ok, s) \<Rightarrow>
      if \<not> ok then (False, buf, s)
      else if wr
      then case wait_idle TIMEOUT (base + 7) (write_words 256 (k * 256) base buf s) of (ok, s) \<Rightarrow>
           if \<not> ok then (False, buf, s) else pio_sectors n (k + 1) base wr buf s
      else case read_words 256 base s of (ws, s) \<Rightarrow>
           pio_sectors n (k + 1) base wr (\<lambda>i. if k * 256 \<le> i \<and> i < k * 256 + 256 then ws ! (i - k * 256) else buf i) s)"

fun pio_retry :: "nat \<Rightarrow> u16 \<Rightarrow> int \<Rightarrow> u32 \<Rightarrow> u8 \<Rightarrow> (nat \<Rightarrow> u16) \<Rightarrow> bool \<Rightarrow> ata \<Rightarrow> int \<times> (nat \<Rightarrow> u16) \<times> ata" where
  "pio_retry 0 base drive lba count buf wr s = (-1, buf, s)"
| "pio_retry (Suc n) base drive lba count buf wr s =
     (case pio_sectors (unat count) 0 base wr buf (ata_command base drive lba count wr s) of (ok, buf, s) \<Rightarrow>
      if ok then (0, buf, s) else pio_retry n base drive lba count buf wr s)"

definition ata_pio :: "int \<Rightarrow> int \<Rightarrow> u32 \<Rightarrow> u8 \<Rightarrow> (nat \<Rightarrow> u16) \<Rightarrow> bool \<Rightarrow> ata \<Rightarrow> int \<times> (nat \<Rightarrow> u16) \<times> ata" where
  "ata_pio channel drive lba count buf wr s =
     (if \<not> ata_drive_exists channel drive s then (-1, buf, s)
      else pio_retry ATA_RETRIES (ata_base channel) drive lba count buf wr s)"

definition ata_read_sectors :: "int \<Rightarrow> int \<Rightarrow> u32 \<Rightarrow> u8 \<Rightarrow> (nat \<Rightarrow> u16) \<Rightarrow> ata \<Rightarrow> int \<times> (nat \<Rightarrow> u16) \<times> ata" where
  "ata_read_sectors channel drive lba count buf s = ata_pio channel drive lba count buf False s"

definition ata_write_sectors :: "int \<Rightarrow> int \<Rightarrow> u32 \<Rightarrow> u8 \<Rightarrow> (nat \<Rightarrow> u16) \<Rightarrow> ata \<Rightarrow> int \<times> ata" where
  "ata_write_sectors channel drive lba count buf s = (case ata_pio channel drive lba count buf True s of (r, _, s) \<Rightarrow> (r, s))"

declare identify_wait.simps [simp del] wait_drq.simps [simp del] wait_idle.simps [simp del]

section \<open>The drive behind the ports\<close>

text \<open>
  What a drive makes of the writes to the ports, by the ATA protocol: the registers hold the
  bytes written last; the command 0x30 starts a transfer to the addressed sector of the selected
  drive, of as many sectors as the count register says (256 for 0), and every word written to the
  data port is then stored behind the previous one. Every other command ends the transfer.
\<close>

record ata_dev =
  dev_reg :: u8
  count_reg :: u8
  lo_reg :: u8
  mid_reg :: u8
  hi_reg :: u8
  target :: "nat \<times> u32"
  expect :: nat
  got :: nat
  platter :: "nat \<Rightarrow> u32 \<Rightarrow> nat \<Rightarrow> u16"

definition dev_drive :: "ata_dev \<Rightarrow> nat" where
  "dev_drive d = (if dev_reg d AND 0x10 \<noteq> 0 then 1 else 0)"

definition dev_lba :: "ata_dev \<Rightarrow> u32" where
  "dev_lba d = de32 (lo_reg d) (mid_reg d) (hi_reg d) (dev_reg d AND 0x0F)"

fun put_word :: "nat \<times> u32 \<Rightarrow> nat \<Rightarrow> u16 \<Rightarrow> (nat \<Rightarrow> u32 \<Rightarrow> nat \<Rightarrow> u16) \<Rightarrow> nat \<Rightarrow> u32 \<Rightarrow> nat \<Rightarrow> u16" where
  "put_word (D, A) n w pl =
     pl(D := (pl D)(A + of_nat (n div 256) := (pl D (A + of_nat (n div 256)))(n mod 256 := w)))"

fun dev_out :: "u16 \<Rightarrow> u16 \<times> u32 \<Rightarrow> ata_dev \<Rightarrow> ata_dev" where
  "dev_out base (port, v) d =
     (if port = base + 6 then d\<lparr>dev_reg := ucast v\<rparr>
      else if port = base + 2 then d\<lparr>count_reg := ucast v\<rparr>
      else if port = base + 3 then d\<lparr>lo_reg := ucast v\<rparr>
      else if port = base + 4 then d\<lparr>mid_reg := ucast v\<rparr>
      else if port = base + 5 then d\<lparr>hi_reg := ucast v\<rparr>
      else if port = base + 7
      then if v = 0x30
           then d\<lparr>target := (dev_drive d, dev_lba d), expect := 256 * (if count_reg d = 0 then 256 else unat (count_reg d)), got := 0\<rparr>
           else d\<lparr>expect := 0\<rparr>
      else if port = base \<and> got d < expect d
      then d\<lparr>platter := put_word (target d) (got d) (ucast v) (platter d), got := got d + 1\<rparr>
      else d)"

definition replay :: "u16 \<Rightarrow> (u16 \<times> u32) list \<Rightarrow> ata_dev \<Rightarrow> ata_dev" where
  "replay base log d = fold (dev_out base) log d"

text \<open>The drive contents with the first \<open>n\<close> words of a buffer stored from sector \<open>A\<close> of drive \<open>D\<close> on.\<close>

definition stored :: "nat \<Rightarrow> u32 \<Rightarrow> nat \<Rightarrow> (nat \<Rightarrow> u16) \<Rightarrow> (nat \<Rightarrow> u32 \<Rightarrow> nat \<Rightarrow> u16) \<Rightarrow> nat \<Rightarrow> u32 \<Rightarrow> nat \<Rightarrow> u16" where
  "stored D A n buf pl D' A' i =
     (if D' = D \<and> i < 256 \<and> unat (A' - A) * 256 + i < n then buf (unat (A' - A) * 256 + i) else pl D' A' i)"

section \<open>Port logs\<close>

lemma port_out_inb [simp]: "inb p s = (v, s') \<Longrightarrow> port_out s' = port_out s"
  by (auto simp: inb_def inl_def)

lemma port_out_inw [simp]: "inw p s = (v, s') \<Longrightarrow> port_out s' = port_out s"
  by (auto simp: inw_def inl_def)

lemma wait_drq_log: "wait_drq t p s = (ok, s') \<Longrightarrow> port_out s' = port_out s"
proof (induction t p s rule: wait_drq.induct)
  case (1 t p s)
  obtain st s1 where i: "inb p s = (st, s1)" by fastforce
  show ?case using 1 i by (subst (asm) (2) wait_drq.simps) (auto split: if_splits)
qed

lemma wait_idle_log: "wait_idle t p s = (ok, s') \<Longrightarrow> port_out s' = port_out s"
proof (induction t p s rule: wait_idle.induct)
  case (1 t p s)
  obtain st s1 where i: "inb p s = (st, s1)" by fastforce
  show ?case using 1 i by (subst (asm) (2) wait_idle.simps) (auto split: if_splits)
qed

lemma read_words_log: "read_words n p s = (ws, s') \<Longrightarrow> port_out s' = port_out s"
  by (induction n arbitrary: s ws) (auto split: prod.splits)

lemma write_words_log:
  "port_out (write_words n i p buf s) = port_out s @ map (\<lambda>j. (p, ucast (buf j))) [i..<i + n]"
proof (induction n arbitrary: i s)
  case (Suc n)
  have "[i..<i + Suc n] = i # [i + 1..<i + 1 + n]" by (simp add: upt_conv_Cons del: upt_Suc)
  then show ?case using Suc [of "i + 1"] by (simp add: outw_def outl_def del: upt_Suc)
qed simp

lemma pio_sectors_log:
  assumes "pio_sectors n k base True buf s = (ok, buf', s')"
  shows "\<exists>m \<le> 256 * n. port_out s' = port_out s @ map (\<lambda>j. (base, ucast (buf j))) [k * 256..<k * 256 + m] \<and> (ok \<longrightarrow> m = 256 * n)"
  using assms
proof (induction n arbitrary: k s)
  case (Suc n)
  obtain ok1 s1 where d: "wait_drq TIMEOUT (base + 7) s = (ok1, s1)" by fastforce
  let ?s2 = "write_words 256 (k * 256) base buf s1"
  obtain ok2 s3 where i: "wait_idle TIMEOUT (base + 7) ?s2 = (ok2, s3)" by fastforce
  have l: "port_out s1 = port_out s" "port_out s3 = port_out s @ map (\<lambda>j. (base, ucast (buf j))) [k * 256..<k * 256 + 256]"
    using wait_drq_log [OF d] wait_idle_log [OF i] by (simp_all add: write_words_log)
  consider (err) "\<not> ok1" | (late) "ok1" "\<not> ok2" | (go) "ok1" "ok2" by blast
  then show ?case
  proof cases
    case err
    then show ?thesis using Suc.prems d l by (intro exI [of _ 0]) simp
  next
    case late
    then show ?thesis using Suc.prems d i l by (intro exI [of _ 256]) simp
  next
    case go
    then have "pio_sectors n (k + 1) base True buf s3 = (ok, buf', s')" using Suc.prems d i by simp
    from Suc.IH [OF this] obtain m where m: "m \<le> 256 * n"
      "port_out s' = port_out s3 @ map (\<lambda>j. (base, ucast (buf j))) [(k + 1) * 256..<(k + 1) * 256 + m]" "ok \<longrightarrow> m = 256 * n" by blast
    have "[k * 256..<k * 256 + 256] @ [(k + 1) * 256..<(k + 1) * 256 + m] = [k * 256..<k * 256 + (256 + m)]"
      using upt_add_eq_append [of "k * 256" "k * 256 + 256" m] by (simp add: algebra_simps)
    then show ?thesis using m l by (intro exI [of _ "256 + m"]) (simp flip: map_append)
  qed
qed simp

section \<open>Replaying the log\<close>

lemma pio_sectors_buf: "pio_sectors n k base True buf s = (ok, buf', s') \<Longrightarrow> buf' = buf"
  by (induction n arbitrary: k s) (auto split: prod.splits if_splits)

lemma split_index:
  fixes A A' :: u32
  assumes "i < 256" "n < 65536"
  shows "unat (A' - A) * 256 + i = n \<longleftrightarrow> A' = A + of_nat (n div 256) \<and> i = n mod 256"
proof
  assume eq: "unat (A' - A) * 256 + i = n"
  then have "n div 256 = unat (A' - A)" "n mod 256 = i" using assms(1) by auto
  then show "A' = A + of_nat (n div 256) \<and> i = n mod 256" by simp
next
  assume "A' = A + of_nat (n div 256) \<and> i = n mod 256"
  moreover have "unat (of_nat (n div 256) :: u32) = n div 256" using assms(2) by (simp add: unat_of_nat)
  ultimately show "unat (A' - A) * 256 + i = n" by simp
qed

lemma stored_Suc:
  assumes "n < 65536"
  shows "put_word (D, A) n (buf n) (stored D A n buf pl) = stored D A (Suc n) buf pl"
proof (intro ext)
  fix D' A' i
  have w: "n mod 256 < 256" by simp
  have "i < 256 \<Longrightarrow> (A' = A + of_nat (n div 256) \<and> i = n mod 256) = (unat (A' - A) * 256 + i = n)"
    using split_index [OF _ assms] by blast
  then show "put_word (D, A) n (buf n) (stored D A n buf pl) D' A' i = stored D A (Suc n) buf pl D' A' i"
    using w by (auto simp: stored_def less_Suc_eq)
qed

lemma stored_stored: "stored D A m buf (stored D A n buf pl) = stored D A (max m n) buf pl"
  by (intro ext) (auto simp: stored_def)

lemma stored_0 [simp]: "stored D A 0 buf pl = pl"
  by (intro ext) (simp add: stored_def)

lemma base_ports:
  "base \<noteq> base + 6" "base \<noteq> base + 2" "base \<noteq> base + 3" "base \<noteq> base + 4" "base \<noteq> base + 5" "base \<noteq> base + 7" for base :: u16
  by simp_all

lemma replay_words:
  assumes "m \<le> expect d" "expect d \<le> 65536" "got d = 0" "target d = (D, A)"
  shows "replay base (map (\<lambda>j. (base, ucast (buf j))) [0..<m]) d = d\<lparr>platter := stored D A m buf (platter d), got := m\<rparr>"
  using assms
proof (induction m)
  case (Suc m)
  then have "replay base (map (\<lambda>j. (base, ucast (buf j))) [0..<m]) d = d\<lparr>platter := stored D A m buf (platter d), got := m\<rparr>" by simp
  moreover have "ucast (ucast (buf m) :: u32) = buf m" by (rule bit_word_eqI) (auto simp: bit_simps)
  ultimately show ?case
    using Suc.prems stored_Suc [of m D A buf "platter d"] by (simp add: replay_def del: put_word.simps)
qed (simp add: replay_def)

lemma command_regs:
  fixes lba :: u32
  assumes "drive = 0 \<or> drive = (1 :: int)"
  defines "r \<equiv> 0xE0 OR push_bit 4 (of_int drive) OR (byte_of 24 lba AND 0x0F) :: u8"
  shows "(r AND 0x10 \<noteq> 0) = (drive = 1)" and "de32 (byte_of 0 lba) (byte_of 8 lba) (byte_of 16 lba) (r AND 0x0F) = lba AND 0x0FFFFFFF"
proof -
  have "(bit r 4) = (drive = 1)" using assms(1) by (auto simp: r_def bit_simps)
  moreover have "(r AND 0x10 \<noteq> 0) = bit r 4"
    using and_exp_eq_0_iff_not_bit [of r 4] by simp
  ultimately show "(r AND 0x10 \<noteq> 0) = (drive = 1)" by simp
  have "r AND 0x0F = byte_of 24 lba AND 0x0F" using assms(1)
    by (auto simp: r_def bit.conj_disj_distrib2 and.assoc)
  moreover have "de32 (byte_of 0 lba) (byte_of 8 lba) (byte_of 16 lba) (byte_of 24 lba AND 0x0F) = lba AND 0x0FFFFFFF"
  proof (rule bit_word_eqI)
    fix n assume "n < LENGTH(32)"
    have m: "(0x0FFFFFFF :: u32) = mask 28" "(0x0F :: u8) = mask 4" by (simp_all add: mask_eq_exp_minus_1)
    consider "n < 8" | "8 \<le> n" "n < 16" | "16 \<le> n" "n < 24" | "24 \<le> n" by linarith
    then show "bit (de32 (byte_of 0 lba) (byte_of 8 lba) (byte_of 16 lba) (byte_of 24 lba AND 0x0F)) n = bit (lba AND 0x0FFFFFFF) n"
      unfolding m using \<open>n < LENGTH(32)\<close>
      by cases (auto simp: de32_def byte_of_def bit_simps)
  qed
  ultimately show "de32 (byte_of 0 lba) (byte_of 8 lba) (byte_of 16 lba) (r AND 0x0F) = lba AND 0x0FFFFFFF" by simp
qed

definition command_log :: "u16 \<Rightarrow> int \<Rightarrow> u32 \<Rightarrow> u8 \<Rightarrow> bool \<Rightarrow> (u16 \<times> u32) list" where
  "command_log base drive lba count wr =
     [(base + 6, ucast (0xE0 OR push_bit 4 (of_int drive) OR (byte_of 24 lba AND 0x0F) :: u8)), (base + 2, ucast count),
      (base + 3, ucast (byte_of 0 lba)), (base + 4, ucast (byte_of 8 lba)), (base + 5, ucast (byte_of 16 lba)),
      (base + 7, if wr then 0x30 else 0x20)]"

lemma ata_command_log: "port_out (ata_command base drive lba count wr s) = port_out s @ command_log base drive lba count wr"
  by (simp add: ata_command_def command_log_def outb_def outl_def Let_def)

lemma replay_command:
  assumes "drive = 0 \<or> drive = (1 :: int)"
  shows "let d' = replay base (command_log base drive lba count True) d
         in target d' = (nat drive, lba AND 0x0FFFFFFF) \<and> expect d' = 256 * (if count = 0 then 256 else unat count) \<and>
            got d' = 0 \<and> platter d' = platter d"
proof -
  have u: "ucast (ucast b :: u32) = b" for b :: u8 by (rule bit_word_eqI) (auto simp: bit_simps)
  show ?thesis
    using assms command_regs [OF assms, of lba]
    by (auto simp: replay_def command_log_def u dev_drive_def dev_lba_def Let_def)
qed

lemma replay_append: "replay base (xs @ ys) d = replay base ys (replay base xs d)"
  by (simp add: replay_def)

lemma pio_retry_device:
  assumes "pio_retry n base drive lba count buf True s = (r, buf', s')" and dr: "drive = 0 \<or> drive = (1 :: int)"
  shows "\<exists>log m. port_out s' = port_out s @ log \<and> m \<le> 256 * unat count \<and> (r = 0 \<longrightarrow> m = 256 * unat count) \<and> r \<in> {0, -1} \<and>
           platter (replay base log d) = stored (nat drive) (lba AND 0x0FFFFFFF) m buf (platter d)"
  using assms(1)
proof (induction n arbitrary: s d)
  case (Suc n)
  let ?s1 = "ata_command base drive lba count True s" and ?c = "command_log base drive lba count True"
  obtain ok b s2 where p: "pio_sectors (unat count) 0 base True buf ?s1 = (ok, b, s2)" by (metis prod_cases3)
  have b: "b = buf" using pio_sectors_buf [OF p] .
  obtain m where m: "m \<le> 256 * unat count" "ok \<longrightarrow> m = 256 * unat count"
    "port_out s2 = port_out s @ ?c @ map (\<lambda>j. (base, ucast (buf j))) [0..<m]"
    using pio_sectors_log [OF p] by (auto simp: ata_command_log)
  let ?l = "?c @ map (\<lambda>j. (base, ucast (buf j))) [0..<m]"
  define d1 where "d1 = replay base ?c d"
  have d1: "target d1 = (nat drive, lba AND 0x0FFFFFFF)" "expect d1 = 256 * (if count = 0 then 256 else unat count)"
    "got d1 = 0" "platter d1 = platter d" using replay_command [OF dr, of base lba count d] by (simp_all add: d1_def Let_def)
  have "unat count \<le> 255" using unat_lt_2p8 [of count] by linarith
  then have "m \<le> expect d1" "expect d1 \<le> 65536" using m d1 by (auto simp: unat_eq_0)
  from replay_words [OF this d1(3,1)] have st: "platter (replay base ?l d) = stored (nat drive) (lba AND 0x0FFFFFFF) m buf (platter d)"
    using d1 by (simp add: replay_append flip: d1_def)
  show ?case
  proof (cases ok)
    case True
    then have "r = 0" "s' = s2" using Suc.prems p by simp_all
    then show ?thesis using True m st by (intro exI [of _ ?l] exI [of _ m]) simp
  next
    case False
    then have "pio_retry n base drive lba count buf True s2 = (r, buf', s')" using Suc.prems p b by simp
    from Suc.IH [OF this, of "replay base ?l d"] obtain log k where k: "port_out s' = port_out s2 @ log" "k \<le> 256 * unat count"
      "r = 0 \<longrightarrow> k = 256 * unat count" "r \<in> {0, -1}"
      "platter (replay base log (replay base ?l d)) = stored (nat drive) (lba AND 0x0FFFFFFF) k buf (platter (replay base ?l d))" by blast
    then show ?thesis using m(1,3) st stored_stored
      by (intro exI [of _ "?l @ log"] exI [of _ "max k m"]) (auto simp: replay_append)
  qed
qed (auto simp: replay_def intro: exI [of _ "[]"] exI [of _ 0])

section \<open>Reading\<close>

lemma inb_other: "inb p s = (v, s') \<Longrightarrow> q \<noteq> p \<Longrightarrow> port_in s' q = port_in s q"
  by (auto simp: inb_def inl_def)

lemma wait_drq_other: "wait_drq t p s = (ok, s') \<Longrightarrow> q \<noteq> p \<Longrightarrow> port_in s' q = port_in s q"
proof (induction t p s rule: wait_drq.induct)
  case (1 t p s)
  obtain st s1 where i: "inb p s = (st, s1)" by fastforce
  show ?case using 1 i inb_other [OF i] by (subst (asm) (2) wait_drq.simps) (auto split: if_splits)
qed

lemma read_words_in: "read_words n p s = (ws, s') \<Longrightarrow> ws = map (\<lambda>i. ucast (port_in s p i)) [0..<n]"
proof (induction n arbitrary: s ws)
  case (Suc n)
  obtain w s1 where i: "inw p s = (w, s1)" by fastforce
  obtain us where r: "read_words n p s1 = (us, s')" "ws = w # us" using Suc.prems i by (auto split: prod.splits)
  have "w = ucast (port_in s p 0)" "port_in s1 p = (\<lambda>n. port_in s p (Suc n))" using i by (auto simp: inw_def inl_def)
  then show ?case using Suc.IH [OF r(1)] r(2)
    by (simp add: upt_conv_Cons map_Suc_upt [symmetric] comp_def del: upt_Suc)
qed simp

lemma command_in [simp]: "port_in (ata_command base drive lba count wr s) = port_in s"
  by (simp add: ata_command_def outb_def outl_def Let_def)

lemma pio_retry_read:
  assumes "pio_retry n base drive lba 1 buf False s = (0, b, s')" and "i < 256"
  shows "b i = ucast (port_in s base i)"
  using assms
proof (induction n arbitrary: s)
  case (Suc n)
  let ?s1 = "ata_command base drive lba 1 False s"
  obtain ok s2 where d: "wait_drq TIMEOUT (base + 7) ?s1 = (ok, s2)" by fastforce
  have in2: "port_in s2 base = port_in s base" using wait_drq_other [OF d, of base] by simp
  obtain ws s3 where w: "read_words 256 base s2 = (ws, s3)" by fastforce
  show ?case
  proof (cases ok)
    case True
    then have "b i = ws ! i" using Suc.prems d w by (auto simp: numeral_2_eq_2)
    then show ?thesis using read_words_in [OF w] in2 Suc.prems(2) by simp
  next
    case False
    then have "pio_retry n base drive lba 1 buf False s2 = (0, b, s')" using Suc.prems d by simp
    then show ?thesis using Suc.IH Suc.prems(2) in2 by simp
  qed
qed simp

section \<open>A drive that is ready\<close>

definition ready :: "u16 \<Rightarrow> 'a io_scheme \<Rightarrow> bool" where
  "ready base s \<longleftrightarrow> port_in s (base + 7) = (\<lambda>_. 0x08)"

lemma ready_drq:
  assumes "ready base s"
  shows "\<exists>s'. wait_drq TIMEOUT (base + 7) s = (True, s') \<and> ready base s'"
proof -
  obtain s1 where "inb (base + 7) s = (0x08, s1)" "ready base s1"
    using assms by (auto simp: ready_def inb_def inl_def)
  then show ?thesis by (subst wait_drq.simps) (auto simp: TIMEOUT_def)
qed

lemma ready_idle:
  assumes "ready base s"
  shows "\<exists>s'. wait_idle TIMEOUT (base + 7) s = (True, s') \<and> ready base s'"
proof -
  obtain s1 where "inb (base + 7) s = (0x08, s1)" "ready base s1"
    using assms by (auto simp: ready_def inb_def inl_def)
  then show ?thesis by (subst wait_idle.simps) (auto simp: TIMEOUT_def)
qed

lemma write_words_in [simp]: "port_in (write_words n i p buf s) = port_in s"
  by (induction n arbitrary: i s) (simp_all add: outw_def outl_def)

lemma ready_read: "ready base s \<Longrightarrow> read_words n base s = (ws, s') \<Longrightarrow> ready base s'"
proof (induction n arbitrary: s ws)
  case (Suc n)
  obtain w s1 where i: "inw base s = (w, s1)" by fastforce
  moreover have "ready base s1" using i Suc.prems(1) by (auto simp: inw_def inl_def ready_def)
  ultimately show ?case using Suc by (auto split: prod.splits)
qed simp

lemma ready_sectors: "ready base s \<Longrightarrow> fst (pio_sectors n k base wr buf s)"
proof (induction n arbitrary: k buf s)
  case (Suc n)
  obtain s1 where d: "wait_drq TIMEOUT (base + 7) s = (True, s1)" "ready base s1" using ready_drq [OF Suc.prems] by blast
  show ?case
  proof (cases wr)
    case True
    have "ready base (write_words 256 (k * 256) base buf s1)" using d by (simp add: ready_def)
    then obtain s2 where "wait_idle TIMEOUT (base + 7) (write_words 256 (k * 256) base buf s1) = (True, s2)" "ready base s2"
      using ready_idle by blast
    then show ?thesis using True d Suc.IH by simp
  next
    case False
    obtain ws s2 where "read_words 256 base s1 = (ws, s2)" by fastforce
    then show ?thesis using False d Suc.IH ready_read [OF d(2)] by simp
  qed
qed simp

lemma ready_pio: "ready (ata_base ch) s \<Longrightarrow> ata_drive_exists ch dr s \<Longrightarrow> fst (ata_pio ch dr lba count buf wr s) = 0"
  using ready_sectors [of "ata_base ch" "ata_command (ata_base ch) dr lba count wr s" "unat count" 0 wr buf]
  by (simp add: ata_pio_def ATA_RETRIES_def numeral_3_eq_3 ready_def split_beta)

section \<open>Sector transfers of the file system\<close>

text \<open>A buffer of bytes as the words that pass the data port, and back.\<close>

definition words_of :: "sector \<Rightarrow> nat \<Rightarrow> u16" where
  "words_of data i = ucast (data (2 * i)) OR push_bit 8 (ucast (data (2 * i + 1)))"

definition sector_bytes :: "(nat \<Rightarrow> u16) \<Rightarrow> sector" where
  "sector_bytes ws k = (if even k then ucast (ws (k div 2)) else ucast (drop_bit 8 (ws (k div 2))))"

lemma sector_bytes_words [simp]: "sector_bytes (words_of data) k = data k"
proof (cases "even k")
  case True
  then have "sector_bytes (words_of data) k = ucast (words_of data (k div 2))" by (simp add: sector_bytes_def)
  also have "\<dots> = data (2 * (k div 2))" unfolding words_of_def by (rule bit_word_eqI) (auto simp: bit_simps)
  finally show ?thesis using True by simp
next
  case False
  then have "sector_bytes (words_of data) k = ucast (drop_bit 8 (words_of data (k div 2)))" by (simp add: sector_bytes_def)
  also have "\<dots> = data (2 * (k div 2) + 1)" unfolding words_of_def
    by (rule bit_word_eqI) (auto simp: bit_simps dest: bit_imp_le_length)
  finally show ?thesis using False by simp
qed

lemma sector_bytes_cong: "(\<And>i. i < 256 \<Longrightarrow> v i = w i) \<Longrightarrow> k < 512 \<Longrightarrow> sector_bytes v k = sector_bytes w k"
  by (simp add: sector_bytes_def)

text \<open>The mounted drive holds what the state of the file system says.\<close>

definition drive_holds :: "ata_dev \<Rightarrow> fs \<Rightarrow> bool" where
  "drive_holds d fs \<longleftrightarrow> (\<forall>A k. k < 512 \<longrightarrow> disks fs (nvfs_ch fs) (nvfs_dr fs) A k = sector_bytes (platter d (nvfs_dr fs) A) k)"

definition new_log :: "'a io_scheme \<Rightarrow> 'a io_scheme \<Rightarrow> (u16 \<times> u32) list" where
  "new_log s s' = drop (length (port_out s)) (port_out s')"

lemma drive_range: "ata_drive_exists ch dr s \<Longrightarrow> dr = 0 \<or> dr = 1"
  by (auto simp: ata_drive_exists_def split: if_splits)

text \<open>A one-sector write, in terms of the contents of the drive.\<close>

lemma ata_write_device:
  assumes ex: "ata_drive_exists ch dr s" and run: "ata_write_sectors ch dr lba 1 buf s = (r, s')"
  shows "\<exists>m \<le> 256. (r = 0 \<longrightarrow> m = 256) \<and> r \<in> {0, -1} \<and>
      platter (replay (ata_base ch) (new_log s s') d) = stored (nat dr) (lba AND 0x0FFFFFFF) m buf (platter d)"
proof -
  obtain b where "pio_retry ATA_RETRIES (ata_base ch) dr lba 1 buf True s = (r, b, s')"
    using run ex by (auto simp: ata_write_sectors_def ata_pio_def split: prod.splits)
  from pio_retry_device [OF this drive_range [OF ex], of d] show ?thesis by (auto simp: new_log_def)
qed

lemma one_sector: "m \<le> 256 \<Longrightarrow> unat (A' - A) * 256 + i < m \<Longrightarrow> A' = A" for A A' :: u32
proof -
  assume "m \<le> 256" "unat (A' - A) * 256 + i < m"
  then have "unat (A' - A) = 0" by linarith
  then show "A' = A" by (simp add: unat_eq_0)
qed

lemma sector_transfers:
  fixes s :: ata and fs :: fs
  defines "ch \<equiv> int (nvfs_ch fs)" and "dr \<equiv> int (nvfs_dr fs)"
  assumes ex: "ata_drive_exists ch dr s" and ok: "\<not> ata_fails fs" and holds: "drive_holds d fs"
  shows "case ata_write_sectors ch dr lba 1 (words_of data) s of (r, s') \<Rightarrow>
           let d' = replay (ata_base ch) (new_log s s') d
           in (r = 0 \<longrightarrow> fst (write_sector lba data fs) = 0 \<and> drive_holds d' (snd (write_sector lba data fs))) \<and>
              (\<forall>D A. (D, A) \<noteq> (nvfs_dr fs, lba AND 0x0FFFFFFF) \<longrightarrow> platter d' D A = platter d D A)"
    and "case ata_read_sectors ch dr lba 1 buf s of (r, b, s') \<Rightarrow>
           let d' = replay (ata_base ch) (command_log (ata_base ch) dr lba 1 False) d
           in r = 0 \<and> (\<forall>i < 256. port_in s (ata_base ch) i = ucast (platter d (dev_drive d') (dev_lba d') i)) \<longrightarrow>
              (\<exists>sec. fst (read_sector lba fs) = Some sec \<and> (\<forall>k < 512. sector_bytes b k = sec k))"
proof -
  obtain r s' where w: "ata_write_sectors ch dr lba 1 (words_of data) s = (r, s')" by fastforce
  from ata_write_device [OF ex w, of d] obtain m where m: "m \<le> 256" "r = 0 \<longrightarrow> m = 256"
    "platter (replay (ata_base ch) (new_log s s') d) = stored (nvfs_dr fs) (lba AND 0x0FFFFFFF) m (words_of data) (platter d)"
    by (auto simp: dr_def)
  have "drive_holds (replay (ata_base ch) (new_log s s') d) (snd (write_sector lba data fs))" if "r = 0"
  proof -
    have "sector_bytes (stored D A 256 (words_of data) pl D A) k = data k" if "k < 512" for k D A pl
      using sector_bytes_cong [OF _ that, of "stored D A 256 (words_of data) pl D A" "words_of data"] by (simp add: stored_def)
    moreover have "stored D A 256 (words_of data) pl D A' = pl D A'" if "A' \<noteq> A" for D A A' pl
      using one_sector [of 256 A' A] that by (intro ext) (auto simp: stored_def)
    ultimately show ?thesis
      using holds ok m that by (simp add: drive_holds_def write_sector_def put_sector_def next_fault_def)
  qed
  moreover have "platter (replay (ata_base ch) (new_log s s') d) D A = platter d D A" if "(D, A) \<noteq> (nvfs_dr fs, lba AND 0x0FFFFFFF)" for D A
    using that m one_sector [OF m(1), of A] by (intro ext) (auto simp: stored_def)
  ultimately show "case ata_write_sectors ch dr lba 1 (words_of data) s of (r, s') \<Rightarrow>
           let d' = replay (ata_base ch) (new_log s s') d
           in (r = 0 \<longrightarrow> fst (write_sector lba data fs) = 0 \<and> drive_holds d' (snd (write_sector lba data fs))) \<and>
              (\<forall>D A. (D, A) \<noteq> (nvfs_dr fs, lba AND 0x0FFFFFFF) \<longrightarrow> platter d' D A = platter d D A)"
    using w ok by (simp add: write_sector_def)
next
  obtain r b s' where run: "ata_read_sectors ch dr lba 1 buf s = (r, b, s')" by (metis prod_cases3)
  define d' where "d' = replay (ata_base ch) (command_log (ata_base ch) dr lba 1 False) d"
  have u: "ucast (ucast b :: u32) = b" for b :: u8 by (rule bit_word_eqI) (auto simp: bit_simps)
  have v: "ucast (ucast b :: u32) = b" for b :: u16 by (rule bit_word_eqI) (auto simp: bit_simps)
  have sel: "dev_drive d' = nvfs_dr fs" "dev_lba d' = lba AND 0x0FFFFFFF"
    using drive_range [OF ex] command_regs [OF drive_range [OF ex], of lba]
    by (auto simp: d'_def replay_def command_log_def u dev_drive_def dev_lba_def dr_def)
  have "\<exists>sec. fst (read_sector lba fs) = Some sec \<and> (\<forall>k < 512. sector_bytes b k = sec k)"
    if "r = 0" and a: "\<forall>i < 256. port_in s (ata_base ch) i = ucast (platter d (dev_drive d') (dev_lba d') i)"
  proof -
    have read: "pio_retry ATA_RETRIES (ata_base ch) dr lba 1 buf False s = (0, b, s')"
      using run ex that by (simp add: ata_read_sectors_def ata_pio_def)
    have "b i = platter d (nvfs_dr fs) (lba AND 0x0FFFFFFF) i" if "i < 256" for i
      using pio_retry_read [OF read that] that a sel v by simp
    then have "sector_bytes b k = disks fs (nvfs_ch fs) (nvfs_dr fs) (lba AND 0x0FFFFFFF) k" if "k < 512" for k
      using holds that sector_bytes_cong [OF _ that] unfolding drive_holds_def by metis
    then show ?thesis using ok by (simp add: read_sector_def sectors_def)
  qed
  then show "case ata_read_sectors ch dr lba 1 buf s of (r, b, s') \<Rightarrow>
           let d' = replay (ata_base ch) (command_log (ata_base ch) dr lba 1 False) d
           in r = 0 \<and> (\<forall>i < 256. port_in s (ata_base ch) i = ucast (platter d (dev_drive d') (dev_lba d') i)) \<longrightarrow>
              (\<exists>sec. fst (read_sector lba fs) = Some sec \<and> (\<forall>k < 512. sector_bytes b k = sec k))"
    using run by (simp add: d'_def)
qed


definition ex_dev :: ata_dev where
  "ex_dev = \<lparr>dev_reg = 0, count_reg = 0, lo_reg = 0, mid_reg = 0, hi_reg = 0, target = (0, 0), expect = 0, got = 0,
     platter = \<lambda>D A i. 0x4241\<rparr>"

definition ex_ata :: ata where
  "ex_ata = \<lparr>port_in = \<lambda>p n. if p = 0x1F7 then 0x08 else 0x4241, port_out = [], tick_in = \<lambda>n. 0,
     ata_present = \<lambda>ch dr. True, ata_model = \<lambda>ch dr. []\<rparr>"

definition ata_fs :: fs where
  "ata_fs = \<lparr>ata_exists = \<lambda>ch dr. True, disks = \<lambda>ch dr A k. if even k then 0x41 else 0x42, faults = \<lambda>n. False, fs_ticks = 0,
     nvfs_errno = 0, mounted = True, nvfs_ch = 0, nvfs_dr = 1, nvfs_cwd = 0, sb_data_start = 0, sb_inode_start = 0,
     sb_inode_count = 0, sb_inode_blocks = 0, sb_bitmap_start = 0, sb_bitmap_sectors = 0, nvfs_offset = 0\<rparr>"


end
