(* ===== verification/Elf.thy ===== *)
theory Elf
  imports TaskSched NvfsFiles
begin

text \<open>
  The program loader of \<^verbatim>\<open>kernel/elf.c\<close>: validation of an ELF file, the address space of the new
  task, loading its segments through that address space, and the task itself. Stores of the
  loader go through the page directory that is active on its CPU; \<open>None\<close> stands for a page fault.
  The buffer that receives the file is its list of bytes. Messages on the serial line are left
  out; the message on the screen is the error value.
\<close>

section \<open>Headers\<close>

definition ELF_MAGIC :: u32 where "ELF_MAGIC = 0x464C457F"
definition PT_LOAD :: u32 where "PT_LOAD = 1"
definition USER_ELF_BASE :: u32 where "USER_ELF_BASE = 0x00800000"
definition USER_ELF_LIMIT :: u32 where "USER_ELF_LIMIT = 0x00900000"
definition USER_STACK_TOP :: u32 where "USER_STACK_TOP = 0x00A00000"
definition USER_EXIT_TRAMP :: u32 where "USER_EXIT_TRAMP = 0x009FFE00"
definition USER_PDE_IDX :: u32 where "USER_PDE_IDX = 2"

lemmas user_layout = USER_ELF_BASE_def USER_ELF_LIMIT_def USER_STACK_TOP_def USER_EXIT_TRAMP_def USER_PDE_IDX_def

record elf32_ehdr =
  e_ident :: "u8 list"
  e_type :: u16
  e_machine :: u16
  e_version :: u32
  e_entry :: u32
  e_phoff :: u32
  e_shoff :: u32
  e_flags :: u32
  e_ehsize :: u16
  e_phentsize :: u16
  e_phnum :: u16
  e_shentsize :: u16
  e_shnum :: u16
  e_shstrndx :: u16

record elf32_phdr =
  p_type :: u32
  p_offset :: u32
  p_vaddr :: u32
  p_paddr :: u32
  p_filesz :: u32
  p_memsz :: u32
  p_flags :: u32
  p_align :: u32

definition file16 :: "u8 list \<Rightarrow> nat \<Rightarrow> u16" where
  "file16 file i = ucast (file ! i) OR push_bit 8 (ucast (file ! (i + 1)))"

definition file32 :: "u8 list \<Rightarrow> nat \<Rightarrow> u32" where
  "file32 file i = de32 (file ! i) (file ! (i + 1)) (file ! (i + 2)) (file ! (i + 3))"

definition get_ehdr :: "u8 list \<Rightarrow> elf32_ehdr" where
  "get_ehdr file = \<lparr>e_ident = take 16 file, e_type = file16 file 16, e_machine = file16 file 18, e_version = file32 file 20,
     e_entry = file32 file 24, e_phoff = file32 file 28, e_shoff = file32 file 32, e_flags = file32 file 36,
     e_ehsize = file16 file 40, e_phentsize = file16 file 42, e_phnum = file16 file 44, e_shentsize = file16 file 46,
     e_shnum = file16 file 48, e_shstrndx = file16 file 50\<rparr>"

definition get_phdr :: "u8 list \<Rightarrow> nat \<Rightarrow> elf32_phdr" where
  "get_phdr file i = \<lparr>p_type = file32 file i, p_offset = file32 file (i + 4), p_vaddr = file32 file (i + 8),
     p_paddr = file32 file (i + 12), p_filesz = file32 file (i + 16), p_memsz = file32 file (i + 20),
     p_flags = file32 file (i + 24), p_align = file32 file (i + 28)\<rparr>"

text \<open>The entries of the program header table, \<open>ph_table + i * e_phentsize\<close> for \<open>i < e_phnum\<close>.\<close>

definition phdr_pos :: "elf32_ehdr \<Rightarrow> nat \<Rightarrow> nat" where
  "phdr_pos h i = unat (e_phoff h) + i * unat (e_phentsize h)"

definition phdrs :: "u8 list \<Rightarrow> elf32_phdr list" where
  "phdrs file = (let h = get_ehdr file in map (\<lambda>i. get_phdr file (phdr_pos h i)) [0..<unat (e_phnum h)])"

section \<open>Validation\<close>

datatype elf_error = Read_failed | Too_small | Not_elf | Not_32bit | Not_x86 | Bad_entry | Table_overflow | Table_bounds
  | Entry_small | Bad_address | Past_range | Past_file | Sizes | No_directory | No_pages | No_mapping | No_task | No_stack

definition phdr_error :: "u32 \<Rightarrow> elf32_phdr \<Rightarrow> elf_error option" where
  "phdr_error sz p =
     (if p_type p \<noteq> PT_LOAD then None
      else if p_vaddr p < USER_ELF_BASE \<or> p_vaddr p \<ge> USER_ELF_LIMIT then Some Bad_address
      else if p_vaddr p + p_memsz p > USER_STACK_TOP then Some Past_range
      else if p_offset p + p_filesz p < p_offset p \<or> p_offset p + p_filesz p > sz then Some Past_file
      else if p_filesz p > p_memsz p then Some Sizes
      else None)"

fun first_error :: "elf_error option list \<Rightarrow> elf_error option" where
  "first_error [] = None"
| "first_error (e # es) = (case e of None \<Rightarrow> first_error es | Some x \<Rightarrow> Some x)"

definition elf_check :: "u8 list \<Rightarrow> elf_error option" where
  "elf_check file =
     (let sz = w32 (length file); h = get_ehdr file
      in if length file < 52 then Some Too_small
         else if file32 (e_ident h) 0 \<noteq> ELF_MAGIC then Some Not_elf
         else if e_ident h ! 4 \<noteq> 1 then Some Not_32bit
         else if e_machine h \<noteq> 3 then Some Not_x86
         else if e_entry h < USER_ELF_BASE \<or> e_entry h \<ge> USER_ELF_LIMIT then Some Bad_entry
         else if ucast (e_phnum h) * ucast (e_phentsize h) > 0xFFFFFFFF - e_phoff h then Some Table_overflow
         else if e_phoff h + ucast (e_phnum h) * ucast (e_phentsize h) > sz then Some Table_bounds
         else if e_phentsize h < 32 then Some Entry_small
         else first_error (map (phdr_error sz) (phdrs file)))"

section \<open>The address space\<close>

text \<open>The physical address behind a virtual one, as the processor finds it from a directory.\<close>

definition translate :: "u32 \<Rightarrow> vm \<Rightarrow> u32 \<Rightarrow> u32 option" where
  "translate dir v a =
     (let pe = entry (pmem v) dir (PDE_IDX a)
      in if pe AND PAGE_PRESENT = 0 then None
         else let e = entry (pmem v) (pe AND 0xFFFFF000) (PTE_IDX a)
              in if e AND PAGE_PRESENT = 0 then None else Some ((e AND 0xFFFFF000) OR (a AND 0xFFF)))"

definition store_byte :: "u32 \<Rightarrow> u32 \<Rightarrow> u8 \<Rightarrow> vm \<Rightarrow> vm option" where
  "store_byte dir a b v =
     (case translate dir v a of None \<Rightarrow> None | Some p \<Rightarrow> Some (v\<lparr>pmem := (pmem v)(p := b)\<rparr>))"

text \<open>Storing bytes one after the other: \<open>lib_memcpy\<close> from the file, \<open>lib_memset\<close>, and single stores.\<close>

fun store_bytes :: "u32 \<Rightarrow> u32 \<Rightarrow> u8 list \<Rightarrow> vm \<Rightarrow> vm option" where
  "store_bytes dir a [] v = Some v"
| "store_bytes dir a (b # bs) v = Option.bind (store_byte dir a b v) (store_bytes dir (a + 1) bs)"

text \<open>
  The loop that gives every page of the user range a frame. The result is the error with which
  the function returns from the loop, after clearing the entry of the user range and freeing the directory.
\<close>

function map_user :: "u32 \<Rightarrow> u32 \<Rightarrow> vm \<Rightarrow> elf_error option \<times> vm" where
  "map_user pd addr v =
     (if addr < USER_STACK_TOP
      then let (phys, fr) = alloc_frame (frames v); v = v\<lparr>frames := fr\<rparr>;
               give_up = (\<lambda>v. free_page pd (v\<lparr>pmem := set_entry pd USER_PDE_IDX 0 (pmem v)\<rparr>))
           in if phys = 0 then (Some No_pages, give_up v)
              else let (r, v) = map_page_to_dir pd addr phys (PAGE_WRITE OR PAGE_USER) v
                   in if r \<noteq> 0 then (Some No_mapping, give_up v) else map_user pd (addr + 0x1000) v
      else (None, v))"
  by pat_completeness auto
termination
proof (relation "measure (\<lambda>(pd, addr, v). 0xA00000 - unat addr)", goal_cases)
  case (2 pd addr v)
  then have "unat addr < 0xA00000" by (simp add: USER_STACK_TOP_def word_less_nat_alt)
  moreover from this have "unat (addr + 0x1000) = unat addr + 0x1000" by (simp add: unat_word_ariths)
  ultimately show ?case by simp
qed simp

declare map_user.simps [simp del]

definition load_segment :: "u32 \<Rightarrow> u8 list \<Rightarrow> elf32_phdr \<Rightarrow> vm \<Rightarrow> vm option" where
  "load_segment dir file p v =
     (if p_type p = PT_LOAD
      then Option.bind (store_bytes dir (p_vaddr p) (take (unat (p_filesz p)) (drop (unat (p_offset p)) file)) v) (\<lambda>v.
           if p_memsz p > p_filesz p
           then store_bytes dir (p_vaddr p + p_filesz p) (replicate (unat (p_memsz p - p_filesz p)) 0) v
           else Some v)
      else Some v)"

fun load_segments :: "u32 \<Rightarrow> u8 list \<Rightarrow> elf32_phdr list \<Rightarrow> vm \<Rightarrow> vm option" where
  "load_segments dir file [] v = Some v"
| "load_segments dir file (p # ps) v = Option.bind (load_segment dir file p v) (load_segments dir file ps)"

definition tramp_code :: "u8 list" where
  "tramp_code = [0xB8, 0, 0, 0, 0, 0xCD, 0x80]"

definition bytes32 :: "u32 \<Rightarrow> u8 list" where
  "bytes32 w = [byte_of 0 w, byte_of 8 w, byte_of 16 w, byte_of 24 w]"

text \<open>The contents of the user range: the segments, the exit trampoline, and its address on top of the stack.\<close>

definition load_image :: "u32 \<Rightarrow> u8 list \<Rightarrow> vm \<Rightarrow> vm option" where
  "load_image dir file v =
     Option.bind (load_segments dir file (phdrs file) v) (\<lambda>v.
     Option.bind (store_bytes dir USER_EXIT_TRAMP tramp_code v)
       (store_bytes dir (USER_STACK_TOP - 4) (bytes32 USER_EXIT_TRAMP)))"

section \<open>The task\<close>

text \<open>SS, ESP, EFLAGS, CS, EIP of the user; error code and interrupt number; eight registers; DS, ES, FS, GS.\<close>

definition user_frame :: "u32 \<Rightarrow> u32 \<Rightarrow> u32 list" where
  "user_frame usp eip = [0x23, usp, 0x202, 0x1B, eip] @ [0, 0] @ replicate 8 0 @ [0x23, 0x23, 0x23, 0x23]"

definition on_vm :: "(vm \<Rightarrow> vm) \<Rightarrow> tsys \<Rightarrow> tsys" where
  "on_vm f s = s\<lparr>vm := f (vm s)\<rparr>"

definition start_user :: "u32 \<Rightarrow> u32 \<Rightarrow> tsys \<Rightarrow> elf_error option \<times> tsys" where
  "start_user pd eip s =
     (let (t, s) = alloc_task s
      in if t = 0 then (Some No_task, s)
         else let (stack, fr) = alloc_frames (drop_bit 12 TASK_STACK_SIZE) (frames (vm s)); s = on_vm (frames_update (\<lambda>_. fr)) s
              in if stack = 0 then (Some No_stack, on_vm (free_page t) s)
                 else let (sp, m) = fold push (user_frame (USER_STACK_TOP - 4) eip) (stack + TASK_STACK_SIZE, pmem (vm s));
                          s = on_vm (pmem_update (\<lambda>_. m)) s;
                          s = upd t (\<lambda>x. x\<lparr>kernel_stack_base := stack, kernel_esp := sp, page_dir := pd, tstate := TASK_READY\<rparr>) s
                      in (None, insert_ready t s))"

text \<open>The function behind the reading of the file, on CPU \<open>cpu\<close>.\<close>

definition elf_load :: "nat \<Rightarrow> u8 list \<Rightarrow> tsys \<Rightarrow> (elf_error option \<times> tsys) option" where
  "elf_load cpu file s =
     (case elf_check file of Some e \<Rightarrow> Some (Some e, s) | None \<Rightarrow>
      let (pd, v) = page_dir_create (vm s)
      in if pd = 0 then Some (Some No_directory, s\<lparr>vm := v\<rparr>)
         else case map_user pd USER_ELF_BASE (v\<lparr>pmem := set_entry pd USER_PDE_IDX 0 (pmem v)\<rparr>) of
                (Some e, v) \<Rightarrow> Some (Some e, s\<lparr>vm := v\<rparr>)
              | (None, v) \<Rightarrow>
                  Option.bind (load_image pd file v) (\<lambda>v.
                    let s = s\<lparr>vm := v\<lparr>pmem := set_entry pd 1 0 (set_entry pd 0 0 (pmem v))\<rparr>,
                              cpu_cr3 := (cpu_cr3 s)(cpu := kernel_page_dir v)\<rparr>
                    in Some (start_user pd (e_entry (get_ehdr file)) s)))"

definition elf_exec :: "nat \<Rightarrow> u8 list \<Rightarrow> fs \<times> tsys \<Rightarrow> (elf_error option \<times> fs \<times> tsys) option" where
  "elf_exec cpu pathname st =
     (case st of (f, s) \<Rightarrow>
      case nvfs_read pathname 131072 f of
        (None, f) \<Rightarrow> Some (Some Read_failed, f, s)
      | (Some [], f) \<Rightarrow> Some (Some Read_failed, f, s)
      | (Some file, f) \<Rightarrow> map_option (\<lambda>(e, s). (e, f, s)) (elf_load cpu file s))"

end
