(* ===== verification/ElfSpace.thy ===== *)
theory ElfSpace
  imports Elf
begin

text \<open>
  The address space that the program loader builds: its pages lie in frames of their own that were free
  before, memory in use is kept, and storing the segments of a program through it leaves the
  image of the program.
\<close>

section \<open>Memory in use is kept\<close>

text \<open>Frames in use stay in use, and their contents do not change.\<close>

definition kept :: "vm \<Rightarrow> vm \<Rightarrow> bool" where
  "kept v0 v \<longleftrightarrow> pfa_wf (frames v) \<and> total_frames (frames v) = total_frames (frames v0) \<and> (\<forall>t. owned v0 t \<longrightarrow> owned v t) \<and>
     (\<forall>x. owned v0 (page_of x) \<longrightarrow> pmem v x = pmem v0 x) \<and> kernel_page_dir v = kernel_page_dir v0"

lemma kept_refl: "pfa_wf (frames v) \<Longrightarrow> kept v v"
  by (simp add: kept_def)

lemma kept_pmem:
  assumes "kept v0 v" and "\<And>x. owned v0 (page_of x) \<Longrightarrow> m x = pmem v x"
  shows "kept v0 (v\<lparr>pmem := m\<rparr>)"
  using assms by (simp add: kept_def owned_def)

lemma kept_frames:
  assumes "kept v0 v" and "pfa_wf fr" and "total_frames fr = total_frames (frames v)" and "\<And>t. owned v0 t \<Longrightarrow> owned v t \<Longrightarrow> owned (v\<lparr>frames := fr\<rparr>) t"
  shows "kept v0 (v\<lparr>frames := fr\<rparr>)"
  using assms by (simp add: kept_def)

lemma owned_mark: "owned (v\<lparr>frames := pfa_set_bit f (frames v)\<rparr>) t \<longleftrightarrow>
    owned v t \<or> t = unat f \<and> f < total_frames (frames v)"
proof -
  have "w32 t = f \<longleftrightarrow> t = unat f" if "t < unat (total_frames (frames v))"
    using order_less_trans [OF that unat_lt_2p32] by (metis unat_w32 w32_unat)
  then show ?thesis by (auto simp: owned_def frames.test_mark word_less_nat_alt)
qed

lemma owned_pmem [simp]: "owned (v\<lparr>pmem := m\<rparr>) t = owned v t"
  by (simp add: owned_def)

lemma pfa_wf_set_bit: "pfa_wf p \<Longrightarrow> pfa_wf (pfa_set_bit f p)"
  using pfa_wf_mark [of p "[f]"] by simp

lemma kept_alloc: "kept v0 v \<Longrightarrow> kept v0 (v\<lparr>frames := pfa_set_bit f (frames v)\<rparr>)"
  by (intro kept_frames) (auto simp: kept_def pfa_wf_set_bit owned_mark)

text \<open>The entry at index \<open>j\<close> of a table in frame \<open>u\<close> depends on that frame only.\<close>

lemma page_of_w32: "n < 4294967296 \<Longrightarrow> page_of (w32 n) = n div 4096"
  by (simp add: page_of_def)

lemma entry_cong:
  assumes "u < 1048576" and "j < 1024" and "\<And>x. page_of x = u \<Longrightarrow> m x = m' x"
  shows "entry m (pg u) (w32 j) = entry m' (pg u) (w32 j)"
proof -
  have "w32 (4096 * u + 4 * j) + k = w32 (4096 * u + 4 * j + unat k)" for k by (simp add: w32_def)
  moreover have "page_of (w32 (4096 * u + 4 * j + k)) = u" if "k < 4" for k
    using assms(1,2) that by (subst page_of_w32) (auto simp: div_nat_eqI)
  ultimately have "m (w32 (4096 * u + 4 * j) + k) = m' (w32 (4096 * u + 4 * j) + k)" if "unat k < 4" for k
    using assms(3) that by simp
  from this [of 0] this [of 1] this [of 2] this [of 3] show ?thesis
    by (simp add: entry_def entry_addr rd32_def)
qed

lemma kept_kernel:
  assumes k: "kept v0 v" and wf: "vm_wf k v0"
  shows "lookup k v a = lookup k v0 a" and "vm_wf k v"
proof -
  obtain T where T: "tables k v0 T" using wf by (auto simp: vm_wf_def)
  have ok: "owned v0 k" "pfa_wf (frames v0)" using wf by (auto simp: vm_wf_def)
  have ent: "entry (pmem v) (pg u) (w32 j) = entry (pmem v0) (pg u) (w32 j)" if "owned v0 u" "j < 1024" for u j
    using k that owned_bound [OF ok(2) that(1)] by (intro entry_cong) (auto simp: kept_def)
  have pde: "pde k v i = pde k v0 i" if "i < 1024" for i using ent [OF ok(1) that] by (simp add: pde_def)
  have T': "tables k v T" using T k by (auto simp: tables_def pde kept_def)
  then show "vm_wf k v" using k ok by (auto simp: vm_wf_def kept_def)
  let ?i = "unat a div 4194304"
  have i: "?i < 1024" by (rule PDE_IDX_w32(2))
  show "lookup k v a = lookup k v0 a"
    unfolding lookup_tables [OF T] lookup_tables [OF T'] pde [OF i]
    using ent [OF tablesD(2) [OF T i] PTE_IDX_w32(2)] by auto
qed

lemma set_entry_other:
  assumes "t < 1048576" and "i < 1024" and "page_of x \<noteq> t"
  shows "set_entry (pg t) (w32 i) e m x = m x"
  using same_outsideD [OF same_outside_set_entry [OF assms(1,2) same_outside_refl] page_outside] assms(3)
  by (simp add: page_of_def)

section \<open>Clearing a directory entry\<close>

lemma clear_pde:
  assumes wf: "vm_wf d v" and i: "i < 1024"
  defines "v' \<equiv> v\<lparr>pmem := set_entry (pg d) (w32 i) 0 (pmem v)\<rparr>"
  shows "vm_wf d v'" and "lookup d v' a = (if unat a div 4194304 = i then None else lookup d v a)"
    and "\<And>k. k < 1024 \<Longrightarrow> pde d v' k = (if k = i then 0 else pde d v k)"
    and "page_of x \<noteq> d \<Longrightarrow> pmem v' x = pmem v x" and "table_frames d v' \<subseteq> table_frames d v"
proof -
  obtain T where T: "tables d v T" using wf by (auto simp: vm_wf_def)
  note b = vm_bounds [OF wf T]
  show pde: "pde d v' k = (if k = i then 0 else pde d v k)" if "k < 1024" for k
    using that b i by (simp add: pde_def v'_def entry_set_entry)
  have own: "owned v' t = owned v t" for t by (simp add: v'_def)
  have T': "tables d v' T" using T by (auto simp: tables_def pde own split: if_splits)
  moreover have "frames v' = frames v" by (simp add: v'_def)
  ultimately show "vm_wf d v'" using wf by (auto simp: vm_wf_def own)
  show "pmem v' x = pmem v x" if "page_of x \<noteq> d" for x
    using set_entry_other [OF b(1) i that] by (simp add: v'_def)
  show "table_frames d v' \<subseteq> table_frames d v" by (auto simp: table_frames_def pde split: if_splits)
  let ?i = "unat a div 4194304" and ?j = "unat a div 4096 mod 1024"
  have k: "?i < 1024" "?j < 1024" by (rule PDE_IDX_w32(2)) simp
  have "entry (pmem v') (pg (T ?i)) (w32 ?j) = entry (pmem v) (pg (T ?i)) (w32 ?j)" if "present (pde d v ?i)"
    using b(1) b(2) [OF k(1) that] tablesD(3) [OF T k(1) that] k i by (simp add: v'_def entry_set_entry)
  then show "lookup d v' a = (if ?i = i then None else lookup d v a)"
    unfolding lookup_tables [OF T] lookup_tables [OF T'] pde [OF k(1)] by auto
qed

section \<open>Mapping a page, in detail\<close>

lemma map_present_eq:
  assumes T: "tables d v T" and p: "present (pde d v (unat virt div 4194304))"
  shows "map_page_to_dir (pg d) virt phys flags v =
    (0, v\<lparr>pmem := set_entry (pg (T (unat virt div 4194304))) (w32 (unat virt div 4096 mod 1024)) (pte_value phys flags) (pmem v)\<rparr>)"
proof -
  have "entry (pmem v) (pg d) (w32 (unat virt div 4194304)) AND 0xFFFFF000 = pg (T (unat virt div 4194304))"
    "entry (pmem v) (pg d) (w32 (unat virt div 4194304)) AND PAGE_PRESENT \<noteq> 0"
    using tablesD(1) [OF T PDE_IDX_w32(2) p] p by (simp_all add: pde_def present_def)
  then show ?thesis
    unfolding map_page_to_dir_def Let_def PDE_IDX_w32(1) PTE_IDX_w32(1) by (simp add: pte_value_def)
qed

text \<open>The frame of the table behind the entry of the user range.\<close>

definition user_table :: "nat \<Rightarrow> vm \<Rightarrow> nat" where
  "user_table d v = page_of (pde d v 2 AND 0xFFFFF000)"

lemma user_table_T: "vm_wf d v \<Longrightarrow> tables d v T \<Longrightarrow> present (pde d v 2) \<Longrightarrow> user_table d v = T 2"
  using tablesD(1) [of d v T 2] vm_bounds(2) [of d v T 2] by (simp add: user_table_def pg_def page_of_w32)

lemma map_present_user:
  assumes wf: "vm_wf d v" and p: "present (pde d v 2)" and r: "unat virt div 4194304 = 2"
    and m: "map_page_to_dir (pg d) virt phys flags v = (r, v')"
  shows "r = 0" and "vm_wf d v'" and "frames v' = frames v" and "kernel_page_dir v' = kernel_page_dir v"
    and "\<And>k. k < 1024 \<Longrightarrow> pde d v' k = pde d v k"
    and "lookup d v' w = (if page_of w = page_of virt then Some (pte_value phys flags) else lookup d v w)"
    and "page_of x \<noteq> user_table d v \<Longrightarrow> pmem v' x = pmem v x"
proof -
  obtain T where T: "tables d v T" using wf by (auto simp: vm_wf_def)
  have p': "present (pde d v (unat virt div 4194304))" using p r by simp
  note e = map_present_eq [OF T p', of phys flags] and j = PTE_IDX_w32(2) [of virt]
  have v': "r = 0" "v' = v\<lparr>pmem := set_entry (pg (T 2)) (w32 (unat virt div 4096 mod 1024)) (pte_value phys flags) (pmem v)\<rparr>"
    using e m r by auto
  have two: "(2 :: nat) < 1024" by simp
  note W = write_pte [where e = "pte_value phys flags", OF wf T two p j]
  show "r = 0" "vm_wf d v'" "frames v' = frames v" "kernel_page_dir v' = kernel_page_dir v"
    "\<And>k. k < 1024 \<Longrightarrow> pde d v' k = pde d v k" using v' W by simp_all
  show "lookup d v' w = (if page_of w = page_of virt then Some (pte_value phys flags) else lookup d v w)"
    using lookup_write_pte [OF wf T p'] v' r by (simp add: page_of_def)
  show "pmem v' x = pmem v x" if "page_of x \<noteq> user_table d v"
    using that set_entry_other [OF vm_bounds(2) [OF wf T two p] j]
    by (simp add: v'(2) user_table_T [OF wf T p])
qed

lemma owned_alloc_frame:
  assumes "pfa_wf (frames v)" and "alloc_frame (frames v) = (a, fr)"
  shows "owned v t \<Longrightarrow> owned (v\<lparr>frames := fr\<rparr>) t"
  using assms(1)
proof (cases rule: alloc_frame_cases)
  case (frame f)
  then show "owned v t \<Longrightarrow> owned (v\<lparr>frames := fr\<rparr>) t" using assms(2) by (auto simp: owned_mark)
qed (use assms(2) in simp)

lemma alloc_frame_total: "total_frames (snd (alloc_frame p)) = total_frames p"
  by (auto simp: alloc_frame_def split: option.splits)

lemma map_absent_user:
  assumes wf: "vm_wf d v" and np: "\<not> present (pde d v 2)" and range: "unat virt div 4194304 = 2"
    and m: "map_page_to_dir (pg d) virt phys flags v = (r, v')"
  obtains (full) "r = -1" and "v' = v" and "\<forall>f < total_frames (frames v). test_bit (frames v) f"
  | (new) "r = 0" and "vm_wf d v'" and "kernel_page_dir v' = kernel_page_dir v" and "present (pde d v' 2)"
    and "\<not> owned v (user_table d v')" and "\<And>t. owned v t \<Longrightarrow> owned v' t"
    and "\<And>k. k < 1024 \<Longrightarrow> k \<noteq> 2 \<Longrightarrow> pde d v' k = pde d v k"
    and "\<And>w. lookup d v' w = (if page_of w = page_of virt then Some (pte_value phys flags) else lookup d v w)"
    and "\<And>x. page_of x \<noteq> user_table d v' \<Longrightarrow> page_of x \<noteq> d \<Longrightarrow> pmem v' x = pmem v x"
    and "frames v' = snd (alloc_frame (frames v))"
proof -
  obtain T where T: "tables d v T" using wf by (auto simp: vm_wf_def)
  have pfa: "pfa_wf (frames v)" using wf by (simp add: vm_wf_def)
  have np': "\<not> present (pde d v (unat virt div 4194304))" using np range by simp
  show thesis
  proof (cases "\<forall>f < total_frames (frames v). test_bit (frames v) f")
    case True
    have "map_page_to_dir (pg d) virt phys flags v = (-1, v)"
      using np' create_table_full [OF pfa True] by (simp add: map_page_to_dir_def Let_def PDE_IDX_w32(1) pde_def present_def)
    then show thesis using m full True by simp
  next
    case False
    obtain t v1 where c: "create_table_in_dir (pg d) virt flags v = (pg t, v1)" "pg t \<noteq> 0" "\<not> owned v t" "t < 1048576"
        "tables d v1 (T(2 := t))" "vm_wf d v1" "present (pde d v1 2)" "\<And>a. lookup d v1 a = lookup d v a"
        "\<And>k. k < 1024 \<Longrightarrow> k \<noteq> 2 \<Longrightarrow> pde d v1 k = pde d v k" "kernel_page_dir v1 = kernel_page_dir v"
      and same: "\<And>x. unat x div 4096 \<noteq> d \<Longrightarrow> unat x div 4096 \<noteq> t \<Longrightarrow> pmem v1 x = pmem v x"
      by (rule create_table_new [OF wf T np' False, where flags = flags]) (unfold range, blast)
    have "map_page_to_dir (pg d) virt phys flags v1 = (r, v')"
      using m np' c(1,2,7) range by (simp add: map_page_to_dir_def Let_def PDE_IDX_w32(1) pde_def present_def)
    note M = map_present_user [OF c(6,7) range this]
    have ut: "user_table d v1 = t" using user_table_T [OF c(6,5,7)] by simp
    moreover have "user_table d v' = user_table d v1" using M(5) [of 2] by (simp add: user_table_def)
    ultimately have ut': "user_table d v' = t" by simp
    obtain a fr where al: "alloc_frame (frames v) = (a, fr)" by fastforce
    have fr: "frames v1 = fr" using c(1,2) al by (auto simp: create_table_in_dir_def Let_def split: if_splits)
    then have own: "owned v' u" if "owned v u" for u
      using owned_alloc_frame [OF pfa al that] M(3) by (simp add: owned_def)
    show thesis
      using new [OF M(1,2)] M c ut ut' own same fr al by (simp add: page_of_def)
  qed
qed

section \<open>Counting free frames\<close>

lemma free_count_card: "get_free_frame_count p = int (card {f. f < total_frames p \<and> \<not> test_bit p f})"
  by (simp add: get_free_frame_count_def free_count_loop_card)

lemma free_count_mark: "get_free_frame_count p \<le> get_free_frame_count (pfa_set_bit f p) + 1"
proof -
  have "{g. g < total_frames p \<and> \<not> test_bit p g} \<subseteq> insert f {g. g < total_frames p \<and> \<not> test_bit (pfa_set_bit f p) g}"
    by (auto simp: frames.test_mark)
  then have "card {g. g < total_frames p \<and> \<not> test_bit p g} \<le> card (insert f {g. g < total_frames p \<and> \<not> test_bit (pfa_set_bit f p) g})"
    by (intro card_mono) simp_all
  also have "\<dots> \<le> Suc (card {g. g < total_frames p \<and> \<not> test_bit (pfa_set_bit f p) g})" by (simp add: card_insert_if)
  finally show ?thesis by (simp add: free_count_card)
qed

lemma free_count_alloc: "pfa_wf p \<Longrightarrow> get_free_frame_count p \<le> get_free_frame_count (snd (alloc_frame p)) + 1"
  by (cases rule: alloc_frame_cases [of p]) (simp_all add: free_count_mark)

lemma free_count_full: "\<forall>f < total_frames p. test_bit p f \<Longrightarrow> get_free_frame_count p = 0"
proof -
  assume "\<forall>f < total_frames p. test_bit p f"
  then have "{f. f < total_frames p \<and> \<not> test_bit p f} = {}" by blast
  then show ?thesis by (simp add: free_count_card)
qed

section \<open>The user pages\<close>

definition user_flags :: u32 where "user_flags = PAGE_WRITE OR PAGE_USER"

definition user_page :: "nat \<Rightarrow> u32" where "user_page k = w32 (0x800000 + 4096 * k)"

lemma user_page: "k < 512 \<Longrightarrow> page_of (user_page k) = 2048 + k" "k < 512 \<Longrightarrow> unat (user_page k) div 4194304 = 2"
proof -
  assume k: "k < 512"
  then have "unat (user_page k) = 0x800000 + 4096 * k" by (simp add: user_page_def)
  then show "page_of (user_page k) = 2048 + k" "unat (user_page k) div 4194304 = 2"
    using k by (simp_all add: page_of_def div_nat_eqI)
qed

text \<open>
  The first \<open>n\<close> pages of the user range are mapped, to frames of their own that were free in
  \<open>v0\<close> and hold no table; the rest of the directory maps what \<open>L\<close> says. The other entries of the
  directory are those of the kernel, or cleared.
\<close>

definition user_space :: "(u32 \<Rightarrow> u32 option) \<Rightarrow> vm \<Rightarrow> nat \<Rightarrow> (nat \<Rightarrow> nat) \<Rightarrow> nat \<Rightarrow> vm \<Rightarrow> bool" where
  "user_space L v0 d F n v \<longleftrightarrow> vm_wf d v \<and> kept v0 v \<and> \<not> owned v0 d \<and> (present (pde d v 2) \<longrightarrow> \<not> owned v0 (user_table d v)) \<and>
     (\<forall>i < n. lookup d v (user_page i) = Some (pte_value (pg (F i)) user_flags) \<and> owned v (F i) \<and> \<not> owned v0 (F i) \<and>
        F i \<notin> table_frames d v) \<and>
     inj_on F {..<n} \<and> (\<forall>a. page_of a < 2048 \<or> 2048 + n \<le> page_of a \<longrightarrow> lookup d v a = L a) \<and>
     (\<forall>i < 1024. i \<noteq> 2 \<longrightarrow> pde d v i = 0 \<or> pde d v i = pde (page_of (kernel_page_dir v0)) v0 i)"

lemma user_spaceD:
  assumes "user_space L v0 d F n v"
  shows "vm_wf d v" "kept v0 v" "\<not> owned v0 d" "present (pde d v 2) \<Longrightarrow> \<not> owned v0 (user_table d v)"
    "\<And>i. i < n \<Longrightarrow> lookup d v (user_page i) = Some (pte_value (pg (F i)) user_flags) \<and> owned v (F i) \<and> \<not> owned v0 (F i) \<and>
        F i \<notin> table_frames d v"
    "inj_on F {..<n}" "\<And>a. page_of a < 2048 \<or> 2048 + n \<le> page_of a \<Longrightarrow> lookup d v a = L a"
    "\<And>i. i < 1024 \<Longrightarrow> i \<noteq> 2 \<Longrightarrow> pde d v i = 0 \<or> pde d v i = pde (page_of (kernel_page_dir v0)) v0 i"
  using assms by (auto simp: user_space_def)

lemma user_present: "user_space L v0 d F n v \<Longrightarrow> 0 < n \<Longrightarrow> present (pde d v 2)"
  using user_spaceD(5) [of L v0 d F n v 0] user_page(2) [of 0] PDE_IDX_w32(1) [of "user_page 0"]
  by (auto simp: lookup_def pde_def Let_def split: if_splits)

lemma table_frames_user:
  assumes "\<And>k. k < 1024 \<Longrightarrow> k \<noteq> 2 \<Longrightarrow> pde d v' k = pde d v k"
  shows "table_frames d v' \<subseteq> insert (user_table d v') (table_frames d v)"
proof
  fix t assume "t \<in> table_frames d v'"
  then consider "t = d" | i where "t < 1048576" "i < 1024" "present (pde d v' i)" "pde d v' i AND 0xFFFFF000 = pg t"
    by (auto simp: table_frames_def)
  then show "t \<in> insert (user_table d v') (table_frames d v)"
  proof cases
    case 2
    show ?thesis
    proof (cases "i = 2")
      case True
      with 2 have "user_table d v' = t" by (simp add: user_table_def pg_def page_of_w32)
      then show ?thesis by simp
    next
      case False
      with 2 assms [of i] show ?thesis by (auto simp: table_frames_def)
    qed
  qed (simp add: table_frames_def)
qed

lemma table_frames_owned: "vm_wf d v \<Longrightarrow> t \<in> table_frames d v \<Longrightarrow> owned v t"
proof -
  assume wf: "vm_wf d v" and t: "t \<in> table_frames d v"
  obtain T where T: "tables d v T" using wf by (auto simp: vm_wf_def)
  consider "t = d" | i where "t < 1048576" "i < 1024" "present (pde d v i)" "pde d v i AND 0xFFFFF000 = pg t"
    using t by (auto simp: table_frames_def)
  then show "owned v t"
  proof cases
    case 2
    then have "T i = t" using tablesD(1) [OF T 2(2,3)] vm_bounds(2) [OF wf T 2(2,3)] by simp
    then show ?thesis using tablesD(2) [OF T 2(2,3)] by simp
  qed (use wf in \<open>simp add: vm_wf_def\<close>)
qed

lemma vm_wf_alloc:
  fixes f :: u32
  assumes "vm_wf d v"
  defines "v1 \<equiv> v\<lparr>frames := pfa_set_bit f (frames v)\<rparr>"
  shows "vm_wf d v1" and "lookup d v1 a = lookup d v a" and "pde d v1 i = pde d v i"
    and "table_frames d v1 = table_frames d v" and "user_table d v1 = user_table d v"
proof -
  obtain T where "tables d v T" using assms by (auto simp: vm_wf_def)
  moreover have pde: "pde d v1 i = pde d v i" for i by (simp add: pde_def v1_def)
  moreover have own: "owned v t \<Longrightarrow> owned v1 t" for t by (simp add: v1_def owned_mark)
  ultimately have "tables d v1 T" by (auto simp: tables_def)
  then show "vm_wf d v1" using assms(1) own by (auto simp: vm_wf_def v1_def pfa_wf_set_bit)
  show "lookup d v1 a = lookup d v a" by (simp add: lookup_def v1_def)
  show "pde d v1 i = pde d v i" "table_frames d v1 = table_frames d v" "user_table d v1 = user_table d v"
    by (simp_all add: pde table_frames_def user_table_def)
qed

lemma user_space_extend:
  assumes us: "user_space L v0 d F n v" and n: "n < 512" and fresh: "\<not> owned v g" "owned v2 g" "g \<notin> table_frames d v2"
    and v2: "vm_wf d v2" "kept v0 v2" "present (pde d v2 2) \<Longrightarrow> \<not> owned v0 (user_table d v2)"
    and own: "\<And>t. owned v t \<Longrightarrow> owned v2 t \<and> (t \<in> table_frames d v2 \<longrightarrow> t \<in> table_frames d v)"
    and look: "\<And>w. lookup d v2 w = (if page_of w = page_of (user_page n) then Some (pte_value (pg g) user_flags) else lookup d v w)"
    and pdes: "\<And>i. i < 1024 \<Longrightarrow> i \<noteq> 2 \<Longrightarrow> pde d v2 i = pde d v i"
  shows "user_space L v0 d (F(n := g)) (Suc n) v2"
proof -
  note U = user_spaceD [OF us]
  have "lookup d v2 (user_page i) = Some (pte_value (pg ((F(n := g)) i)) user_flags) \<and> owned v2 ((F(n := g)) i) \<and>
      \<not> owned v0 ((F(n := g)) i) \<and> (F(n := g)) i \<notin> table_frames d v2" if "i < Suc n" for i
  proof (cases "i = n")
    case True
    then show ?thesis using look fresh U(2) by (auto simp: kept_def)
  next
    case False
    then have "i < n" "i < 512" using that n by auto
    then show ?thesis using U(5) [of i] own [of "F i"] look user_page(1) [of i] user_page(1) [OF n] False by auto
  qed
  moreover have "inj_on (F(n := g)) {..<Suc n}"
    using U(5,6) fresh(1) by (auto simp: inj_on_def less_Suc_eq)
  moreover have "lookup d v2 a = L a" if "page_of a < 2048 \<or> 2048 + Suc n \<le> page_of a" for a
    using that look U(7) [of a] user_page(1) [OF n] by auto
  ultimately show ?thesis using v2 U(3,8) pdes by (simp add: user_space_def)
qed

lemma user_table_owned: "vm_wf d v \<Longrightarrow> present (pde d v 2) \<Longrightarrow> owned v (user_table d v)"
proof -
  assume wf: "vm_wf d v" and p: "present (pde d v 2)"
  obtain T where T: "tables d v T" using wf by (auto simp: vm_wf_def)
  show ?thesis using user_table_T [OF wf T p] tablesD(2) [OF T _ p] by simp
qed

text \<open>Taking one frame that turns out to be the table.\<close>

lemma owned_new_table:
  assumes "pfa_wf (frames v)" and "frames v' = snd (alloc_frame (frames v))" and "owned v' u" and "\<not> owned v u"
  shows "owned v' t \<longleftrightarrow> owned v t \<or> t = u"
  using assms(1)
proof (cases rule: alloc_frame_cases)
  case (frame f)
  have "owned v' t \<longleftrightarrow> owned (v\<lparr>frames := pfa_set_bit f (frames v)\<rparr>) t" for t using assms(2) frame(1) by (simp add: owned_def)
  then show ?thesis using assms(3,4) by (auto simp: owned_mark)
qed (use assms in \<open>simp add: owned_def\<close>)

lemma user_space_step:
  assumes us: "user_space L v0 d F n v" and n: "n < 512" and f: "f < total_frames (frames v)" "\<not> test_bit (frames v) f"
    and m: "map_page_to_dir (pg d) (user_page n) (ADDR f) user_flags (v\<lparr>frames := pfa_set_bit f (frames v)\<rparr>) = (r, v2)"
  shows "r \<noteq> 0 \<Longrightarrow> kept v0 v2 \<and> owned v2 d \<and> \<not> present (pde d v 2) \<and> get_free_frame_count (frames v) \<le> 1"
    and "r = 0 \<Longrightarrow> user_space L v0 d (F(n := unat f)) (Suc n) v2 \<and> present (pde d v2 2) \<and>
      get_free_frame_count (frames v) \<le> get_free_frame_count (frames v2) + (if present (pde d v 2) then 1 else 2) \<and>
      (present (pde d v 2) \<longrightarrow> user_table d v2 = user_table d v) \<and>
      (\<forall>t. owned v2 t \<longleftrightarrow> owned v t \<or> t = unat f \<or> \<not> present (pde d v 2) \<and> t = user_table d v2)"
proof -
  define v1 where "v1 = v\<lparr>frames := pfa_set_bit f (frames v)\<rparr>"
  note U = user_spaceD [OF us] and A = vm_wf_alloc [OF user_spaceD(1) [OF us], of f, folded v1_def]
  have g: "\<not> owned v (unat f)" "owned v1 (unat f)" using f by (simp_all add: owned_def v1_def frames.test_mark word_less_nat_alt)
  have own1: "owned v t \<Longrightarrow> owned v1 t" "owned v1 t \<longleftrightarrow> owned v t \<or> t = unat f" for t
    using f(1) by (auto simp: v1_def owned_mark)
  have k1: "kept v0 v1" using kept_alloc [OF U(2)] by (simp add: v1_def)
  have od: "owned v1 d" using A(1) by (simp add: vm_wf_def)
  have nt: "unat f \<notin> table_frames d v" using table_frames_owned [OF U(1)] g(1) by blast
  note range = user_page(2) [OF n] and m' = m [folded v1_def]
  have cnt: "get_free_frame_count (frames v) \<le> get_free_frame_count (frames v1) + 1" using free_count_mark by (simp add: v1_def)
  have "(r \<noteq> 0 \<longrightarrow> kept v0 v2 \<and> owned v2 d \<and> \<not> present (pde d v 2) \<and> get_free_frame_count (frames v) \<le> 1) \<and>
    (r = 0 \<longrightarrow> user_space L v0 d (F(n := unat f)) (Suc n) v2 \<and> present (pde d v2 2) \<and>
      get_free_frame_count (frames v) \<le> get_free_frame_count (frames v2) + (if present (pde d v 2) then 1 else 2) \<and>
      (present (pde d v 2) \<longrightarrow> user_table d v2 = user_table d v) \<and>
      (\<forall>t. owned v2 t \<longleftrightarrow> owned v t \<or> t = unat f \<or> \<not> present (pde d v 2) \<and> t = user_table d v2))"
  proof (cases "present (pde d v1 2)")
    case True
    note M = map_present_user [OF A(1) True range m']
    have tf: "table_frames d v2 = table_frames d v" "user_table d v2 = user_table d v"
      using M(5) A(3) by (auto simp: table_frames_def user_table_def)
    have ut: "\<not> owned v0 (user_table d v)" using U(4) True A(3) by simp
    have own2: "owned v2 t = owned v1 t" for t using M(3) by (simp add: owned_def)
    have "pmem v2 x = pmem v1 x" if "owned v0 (page_of x)" for x using M(7) [of x] A(5) ut that by metis
    then have "kept v0 v2" using k1 M(3,4) own2 by (simp add: kept_def)
    then show ?thesis
      using M(1,6) A(2) g own1 own2 nt tf ut user_space_extend [OF us n, of "unat f" v2] M(2,3,5) A(3) True cnt
      by (simp add: ADDR_pg)
  next
    case False
    show ?thesis
    proof (cases rule: map_absent_user [OF A(1) False range m'])
      case full: 1
      then show ?thesis using k1 od cnt free_count_full [OF full(3)] A(3) False by simp
    next
      case new: 2
      have ut: "\<not> owned v1 (user_table d v2)" "\<not> owned v0 (user_table d v2)" using new(5) k1 by (auto simp: kept_def)
      have "pmem v2 x = pmem v1 x" if "owned v0 (page_of x)" for x using new(9) [of x] ut(2) U(3) that by metis
      then have "kept v0 v2" using k1 new(2,3,6,10) by (simp add: kept_def vm_wf_def alloc_frame_total)
      have tf: "t \<in> table_frames d v2 \<Longrightarrow> t = user_table d v2 \<or> t \<in> table_frames d v" for t
        using table_frames_user [OF new(7)] A(4) by auto
      have "user_space L v0 d (F(n := unat f)) (Suc n) v2"
      proof (rule user_space_extend [OF us n g(1) new(6) [OF g(2)] _ new(2) \<open>kept v0 v2\<close> ut(2)])
        show "unat f \<notin> table_frames d v2" using tf [of "unat f"] nt g(2) ut(1) by auto
        show "owned v t \<Longrightarrow> owned v2 t \<and> (t \<in> table_frames d v2 \<longrightarrow> t \<in> table_frames d v)" for t
          using tf [of t] own1(1) [of t] new(6) [of t] ut(1) by auto
        show "lookup d v2 w = (if page_of w = page_of (user_page n) then Some (pte_value (pg (unat f)) user_flags) else lookup d v w)" for w
          using new(8) A(2) by (simp add: ADDR_pg)
        show "pde d v2 i = pde d v i" if "i < 1024" "i \<noteq> 2" for i using new(7) [OF that] A(3) by simp
      qed
      moreover have "owned v2 t \<longleftrightarrow> owned v1 t \<or> t = user_table d v2" for t
        using A(1) owned_new_table [OF _ new(10) user_table_owned [OF new(2,4)] ut(1)] by (simp add: vm_wf_def)
      moreover have "get_free_frame_count (frames v1) \<le> get_free_frame_count (frames v2) + 1"
        using free_count_alloc [of "frames v1"] A(1) new(10) by (simp add: vm_wf_def)
      ultimately show ?thesis using new(1,4) cnt A(3) False own1(2) by auto
    qed
  qed
  then show "r \<noteq> 0 \<Longrightarrow> kept v0 v2 \<and> owned v2 d \<and> \<not> present (pde d v 2) \<and> get_free_frame_count (frames v) \<le> 1"
    and "r = 0 \<Longrightarrow> user_space L v0 d (F(n := unat f)) (Suc n) v2 \<and> present (pde d v2 2) \<and>
      get_free_frame_count (frames v) \<le> get_free_frame_count (frames v2) + (if present (pde d v 2) then 1 else 2) \<and>
      (present (pde d v 2) \<longrightarrow> user_table d v2 = user_table d v) \<and>
      (\<forall>t. owned v2 t \<longleftrightarrow> owned v t \<or> t = unat f \<or> \<not> present (pde d v 2) \<and> t = user_table d v2)" by blast+
qed

lemma free_page_kept:
  assumes k: "kept v0 v" and nt: "\<not> owned v0 t" and t: "t < 1048576" "t \<noteq> 0"
  shows "kept v0 (free_page (pg t) v)"
proof -
  have pfa: "pfa_wf (frames v)" using k by (simp add: kept_def)
  have fr: "FRAME (pg t) = w32 t" by (rule w32_eq_unatI) (use t in \<open>simp_all add: FRAME_def FRAME_SIZE_def pg_def unat_div\<close>)
  have "pfa_wf (free_frame (pg t) (frames v))" using pfa_wf_free_frame [OF pfa] fr t by simp
  moreover have "owned (v\<lparr>frames := free_frame (pg t) (frames v)\<rparr>) u" if "owned v0 u" "owned v u" for u
  proof -
    have "u \<noteq> t" "u < 1048576" using that nt owned_bound [OF pfa that(2)] by auto
    then have "w32 u \<noteq> w32 t" using t by simp
    then show ?thesis using that(2) fr by (auto simp: owned_def free_frame_def Let_def frames.test_clear)
  qed
  ultimately show ?thesis unfolding free_page_def by (intro kept_frames [OF k]) (auto simp: free_frame_def Let_def)
qed

lemma give_up_kept:
  assumes "kept v0 v" and "\<not> owned v0 d" and "owned v d" and "d \<noteq> 0"
  shows "kept v0 (free_page (pg d) (v\<lparr>pmem := set_entry (pg d) USER_PDE_IDX 0 (pmem v)\<rparr>))"
proof -
  have d: "d < 1048576" using owned_bound [OF _ assms(3)] assms(1) by (force simp: kept_def)
  have two: "USER_PDE_IDX = w32 2" by (simp add: USER_PDE_IDX_def w32_def)
  have "kept v0 (v\<lparr>pmem := set_entry (pg d) USER_PDE_IDX 0 (pmem v)\<rparr>)"
    unfolding two using assms(1,2) by (intro kept_pmem set_entry_other [OF d]) auto
  then show ?thesis by (rule free_page_kept [OF _ assms(2) d assms(4)])
qed

lemma user_page_less: "n \<le> 512 \<Longrightarrow> user_page n < USER_STACK_TOP \<longleftrightarrow> n < 512"
  by (simp add: user_page_def USER_STACK_TOP_def word_less_nat_alt)

lemma user_page_Suc: "user_page n + 0x1000 = user_page (Suc n)"
  by (simp add: user_page_def w32_def)

text \<open>The frames taken so far: the directory, the pages, and the table once there is one.\<close>

definition taken :: "nat \<Rightarrow> (nat \<Rightarrow> nat) \<Rightarrow> nat \<Rightarrow> vm \<Rightarrow> nat set" where
  "taken d F n v = insert d (F ` {..<n}) \<union> (if present (pde d v 2) then {user_table d v} else {})"

definition within_budget :: "vm \<Rightarrow> nat \<Rightarrow> (nat \<Rightarrow> nat) \<Rightarrow> nat \<Rightarrow> vm \<Rightarrow> bool" where
  "within_budget v0 d F n v \<longleftrightarrow> get_free_frame_count (frames v0) \<le>
       get_free_frame_count (frames v) + int (if present (pde d v 2) then n + 2 else n + 1) \<and>
     (\<forall>t. owned v t \<longrightarrow> owned v0 t \<or> t \<in> taken d F n v)"

lemma map_user_result:
  assumes "user_space L v0 d F n v" and "n \<le> 512" and "d \<noteq> 0" and "map_user (pg d) (user_page n) v = (e, v')"
    and "within_budget v0 d F n v"
  shows "case e of None \<Rightarrow> (\<exists>F. user_space L v0 d F 512 v' \<and> present (pde d v' 2) \<and>
        (\<forall>t. owned v' t \<longrightarrow> owned v0 t \<or> t \<in> taken d F 512 v')) \<and> get_free_frame_count (frames v0) \<le> get_free_frame_count (frames v') + 514
    | Some x \<Rightarrow> x \<in> {No_pages, No_mapping} \<and> kept v0 v' \<and> get_free_frame_count (frames v0) \<le> 514"
  using assms
proof (induction "512 - n" arbitrary: n F v)
  case 0
  then have "n = 512" by simp
  then have "map_user (pg d) (user_page n) v = (None, v)" by (subst map_user.simps) (simp add: user_page_less)
  moreover have "present (pde d v 2)" using user_present [OF 0(2)] \<open>n = 512\<close> by simp
  ultimately show ?case using 0 \<open>n = 512\<close> by (auto simp: within_budget_def split: if_splits)
next
  case (Suc m)
  then have n: "n < 512" "user_page n < USER_STACK_TOP" by (simp_all add: user_page_less)
  note U = user_spaceD [OF Suc.prems(1)] and B = Suc.prems(5) [unfolded within_budget_def]
  have wf: "pfa_wf (frames v)" "owned v d" using U(1) by (simp_all add: vm_wf_def)
  from wf(1) show ?case
  proof (cases rule: alloc_frame_cases)
    case full
    then have "e = Some No_pages" "v' = free_page (pg d) (v\<lparr>pmem := set_entry (pg d) USER_PDE_IDX 0 (pmem v)\<rparr>)"
      using Suc.prems(4) n(2) by (subst (asm) map_user.simps, simp add: Let_def)+
    then show ?thesis
      using give_up_kept [OF U(2,3) wf(2) Suc.prems(3)] B free_count_full [OF full(2)] n(1) by (simp split: if_splits)
  next
    case (frame f)
    obtain r v2 where m: "map_page_to_dir (pg d) (user_page n) (ADDR f) user_flags (v\<lparr>frames := pfa_set_bit f (frames v)\<rparr>) = (r, v2)"
      by fastforce
    note S = user_space_step [OF Suc.prems(1) n(1) frame(3,5) m]
    show ?thesis
    proof (cases "r = 0")
      case True
      then have "map_user (pg d) (user_page (Suc n)) v2 = (e, v')"
        using Suc.prems(4) n(2) frame(1,2) m
        by (subst (asm) map_user.simps) (simp add: Let_def user_flags_def user_page_Suc)
      moreover have "within_budget v0 d (F(n := unat f)) (Suc n) v2"
        using S(2) [OF True] B by (auto simp: within_budget_def taken_def less_Suc_eq split: if_splits)
      ultimately show ?thesis using Suc.hyps(1) [of "Suc n" "F(n := unat f)" v2] S(2) [OF True] Suc.hyps(2) n(1) Suc.prems(3) by auto
    next
      case False
      then have "e = Some No_mapping" "v' = free_page (pg d) (v2\<lparr>pmem := set_entry (pg d) USER_PDE_IDX 0 (pmem v2)\<rparr>)"
        using Suc.prems(4) n(2) frame(1,2) m by (subst (asm) map_user.simps, simp add: Let_def user_flags_def)+
      then show ?thesis using give_up_kept [OF _ U(3) _ Suc.prems(3), of v2] S(1) [OF False] B n(1) by simp
    qed
  qed
qed

text \<open>The frames taken are determined by the frames in use.\<close>

lemma taken_same:
  assumes u: "user_space L v0 d F 512 v" "user_space L' v0 d F 512 v'" and own: "\<And>t. owned v' t = owned v t"
    and ex: "\<And>t. owned v t \<Longrightarrow> owned v0 t \<or> t \<in> taken d F 512 v"
  shows "taken d F 512 v' = taken d F 512 v"
proof -
  have pr: "present (pde d v 2)" "present (pde d v' 2)" using user_present u by auto
  note U = user_spaceD [OF u(2)]
  obtain T where T: "tables d v' T" using U(1) by (auto simp: vm_wf_def)
  have ut: "user_table d v' = T 2" by (rule user_table_T [OF U(1) T pr(2)])
  then have "user_table d v' \<noteq> d" using tablesD(3) [OF T _ pr(2)] by simp
  moreover have "T 2 \<in> table_frames d v'"
    using tablesD(1) [OF T _ pr(2)] vm_bounds(2) [OF U(1) T _ pr(2)] pr(2) by (auto simp: table_frames_def intro!: exI [of _ 2])
  then have "user_table d v' \<notin> F ` {..<512}" using U(5) ut by auto
  moreover have "owned v (user_table d v')" using user_table_owned [OF U(1) pr(2)] own by simp
  ultimately have "user_table d v' = user_table d v" using ex [of "user_table d v'"] U(4) [OF pr(2)] pr(1) by (auto simp: taken_def)
  then show ?thesis using pr by (simp add: taken_def)
qed

section \<open>Stores through the address space\<close>

lemma translate_lookup: "translate (pg d) v a = map_option (\<lambda>e. (e AND 0xFFFFF000) OR (a AND 0xFFF)) (lookup d v a)"
  by (simp add: translate_def lookup_def present_def Let_def)

definition in_user :: "u32 \<Rightarrow> bool" where
  "in_user a \<longleftrightarrow> 0x800000 \<le> unat a \<and> unat a < 0xA00000"

text \<open>The physical address of a user address when page \<open>i\<close> lies in frame \<open>F i\<close>.\<close>

definition phys :: "(nat \<Rightarrow> nat) \<Rightarrow> u32 \<Rightarrow> u32" where
  "phys F a = w32 (4096 * F (page_of a - 2048) + unat a mod 4096)"

lemma in_user_page: "in_user a \<Longrightarrow> \<exists>i < 512. page_of a = 2048 + i \<and> page_of a = page_of (user_page i)"
proof -
  assume "in_user a"
  then have "2048 \<le> page_of a" "page_of a < 2560" by (auto simp: in_user_def page_of_def div_less_iff_less_mult)
  then show ?thesis using user_page(1) [of "page_of a - 2048"] by (intro exI [of _ "page_of a - 2048"]) simp
qed

lemma unat_and_FFF: "unat (a AND 0xFFF) = unat a mod 4096" for a :: u32
proof -
  have "a AND 0xFFF = take_bit 12 a" by (simp add: take_bit_eq_mask mask_eq_exp_minus_1)
  then show ?thesis by (simp add: take_bit_eq_mod unat_mod)
qed

lemma pg_or_offset: "t < 1048576 \<Longrightarrow> pg t OR (a AND 0xFFF) = w32 (4096 * t + unat a mod 4096)" for a :: u32
proof -
  assume t: "t < 1048576"
  have "pg t AND (a AND 0xFFF) = 0"
  proof -
    have "pg t AND 0xFFF = 0" by (rule word_unat_eq_iff [THEN iffD2]) (use t in \<open>simp add: unat_and_FFF pg_def\<close>)
    then show ?thesis by (simp add: ac_simps)
  qed
  then have "bit (pg t AND (a AND 0xFFF)) n = bit (0 :: u32) n" for n by (rule arg_cong)
  then have "\<not> bit (pg t) n \<or> \<not> bit (a AND 0xFFF) n" for n unfolding bit_and_iff [of "pg t"] by simp
  then have "pg t OR (a AND 0xFFF) = pg t + (a AND 0xFFF)" by (rule disjunctive_add [symmetric])
  moreover have "a AND 0xFFF = w32 (unat a mod 4096)" by (simp add: unat_and_FFF [symmetric])
  ultimately show ?thesis by (metis pg_def w32_add)
qed

lemma user_translate:
  assumes us: "user_space L v0 d F 512 v" and a: "in_user a"
  shows "translate (pg d) v a = Some (phys F a)" and "page_of (phys F a) = F (page_of a - 2048)"
proof -
  obtain i where i: "i < 512" "page_of a = 2048 + i" "page_of a = page_of (user_page i)" using in_user_page [OF a] by blast
  note U = user_spaceD [OF us]
  have l: "lookup d v a = Some (pte_value (pg (F i)) user_flags)"
    using U(5) [OF i(1)] same_page_lookup [OF i(3)] by simp
  have b: "F i < 262144" using owned_bound [of v "F i"] U(1) U(5) [OF i(1)] by (auto simp: vm_wf_def)
  have "pte_value (pg (F i)) user_flags AND 0xFFFFF000 = pg (F i)"
    unfolding pte_value_def using b pg_mask [of "F i"] mask_or_flags [of "F i" "PAGE_PRESENT OR (user_flags AND (PAGE_WRITE OR PAGE_USER OR PAGE_PRESENT))"]
    by simp
  then show "translate (pg d) v a = Some (phys F a)"
    using b by (simp add: translate_lookup l phys_def i(2) pg_or_offset)
  show "page_of (phys F a) = F (page_of a - 2048)"
    using b i(2) by (simp add: phys_def page_of_w32)
qed

text \<open>A change of memory that holds no table changes no translation.\<close>

lemma pmem_elsewhere:
  assumes us: "user_space L v0 d F n v"
    and m: "\<And>x. page_of x \<in> table_frames d v \<or> owned v0 (page_of x) \<Longrightarrow> m x = pmem v x"
  shows "user_space L v0 d F n (v\<lparr>pmem := m\<rparr>)" and "\<And>i. i < 1024 \<Longrightarrow> pde d (v\<lparr>pmem := m\<rparr>) i = pde d v i"
proof -
  let ?v = "v\<lparr>pmem := m\<rparr>"
  note U = user_spaceD [OF us]
  obtain T where T: "tables d v T" using U(1) by (auto simp: vm_wf_def)
  note bd = vm_bounds [OF U(1) T]
  have ent: "entry (pmem ?v) (pg u) (w32 j) = entry (pmem v) (pg u) (w32 j)" if "u \<in> table_frames d v" "u < 1048576" "j < 1024" for u j
    using that m by (intro entry_cong) auto
  show pde: "pde d ?v i = pde d v i" if "i < 1024" for i
    using ent [of d i] that bd(1) by (simp add: pde_def table_frames_def)
  have T': "tables d ?v T" using T by (simp add: tables_def pde)
  have tf: "table_frames d ?v = table_frames d v" by (auto simp: table_frames_def pde)
  have "T i \<in> table_frames d v" if "i < 1024" "present (pde d v i)" for i
    using that tablesD(1) [OF T that] bd(2) [OF that] by (auto simp: table_frames_def)
  then have look: "lookup d ?v a = lookup d v a" for a
    unfolding lookup_tables [OF T] lookup_tables [OF T'] pde [OF PDE_IDX_w32(2)]
    using ent [OF _ bd(2) [OF PDE_IDX_w32(2)] PTE_IDX_w32(2)] PDE_IDX_w32(2) by auto
  have "vm_wf d ?v" using U(1) T' by (auto simp: vm_wf_def)
  moreover have "kept v0 ?v" using U(2) m by (intro kept_pmem) auto
  moreover have "user_table d ?v = user_table d v" using pde [of 2] by (simp add: user_table_def)
  ultimately show "user_space L v0 d F n ?v" using us look tf pde by (simp add: user_space_def)
qed

text \<open>What the directory shows at user addresses.\<close>

definition view :: "nat \<Rightarrow> vm \<Rightarrow> u32 \<Rightarrow> u8" where
  "view d v a = (case translate (pg d) v a of None \<Rightarrow> 0 | Some p \<Rightarrow> pmem v p)"

definition put_bytes :: "u32 \<Rightarrow> u8 list \<Rightarrow> (u32 \<Rightarrow> u8) \<Rightarrow> u32 \<Rightarrow> u8" where
  "put_bytes a bs f x = (if unat a \<le> unat x \<and> unat x < unat a + length bs then bs ! (unat x - unat a) else f x)"

lemma phys_inj:
  assumes us: "user_space L v0 d F 512 v" and "in_user a" "in_user b"
  shows "phys F a = phys F b \<longleftrightarrow> a = b"
proof
  assume eq: "phys F a = phys F b"
  obtain i j where i: "i < 512" "page_of a = 2048 + i" and j: "j < 512" "page_of b = 2048 + j"
    using in_user_page assms(2,3) by blast
  have "F i = F j" using eq user_translate(2) [OF us assms(2)] user_translate(2) [OF us assms(3)] i j by simp
  then have "page_of a = page_of b" using user_spaceD(6) [OF us] i j by (auto simp: inj_on_def)
  moreover have "F i < 262144"
    using owned_bound [of v "F i"] user_spaceD(1) [OF us] user_spaceD(5) [OF us i(1)] by (auto simp: vm_wf_def)
  then have "4096 * F i + unat a mod 4096 = 4096 * F j + unat b mod 4096"
    using eq i j \<open>F i = F j\<close> by (simp add: phys_def)
  then have "unat a mod 4096 = unat b mod 4096" using \<open>F i = F j\<close> by simp
  ultimately show "a = b" by (metis div_mult_mod_eq page_of_def word_unat_eq_iff)
qed simp

lemma store_byte_user:
  assumes us: "user_space L v0 d F 512 v" and a: "in_user a"
  obtains v' where "store_byte (pg d) a b v = Some v'" and "user_space L v0 d F 512 v'" and "frames v' = frames v"
    and "\<And>x. in_user x \<Longrightarrow> view d v' x = (if x = a then b else view d v x)"
proof -
  let ?v = "v\<lparr>pmem := (pmem v)(phys F a := b)\<rparr>"
  obtain i where i: "i < 512" "page_of a = 2048 + i" using in_user_page [OF a] by blast
  note tr = user_translate [OF us a]
  have us': "user_space L v0 d F 512 ?v"
    using user_spaceD(5) [OF us i(1)] tr(2) i(2) by (intro pmem_elsewhere(1) [OF us]) auto
  have "view d ?v x = (if x = a then b else view d v x)" if "in_user x" for x
    using user_translate(1) [OF us' that] user_translate(1) [OF us that] phys_inj [OF us that a] by (simp add: view_def)
  then show thesis using that [of ?v] us' tr(1) by (simp add: store_byte_def)
qed

lemma store_bytes_user:
  assumes "user_space L v0 d F 512 v" and "0x800000 \<le> unat a" and "unat a + length bs \<le> 0xA00000"
  obtains v' where "store_bytes (pg d) a bs v = Some v'" and "user_space L v0 d F 512 v'" and "frames v' = frames v"
    and "\<And>x. in_user x \<Longrightarrow> view d v' x = put_bytes a bs (view d v) x"
proof -
  have "\<exists>v'. store_bytes (pg d) a bs v = Some v' \<and> user_space L v0 d F 512 v' \<and> frames v' = frames v \<and>
      (\<forall>x. in_user x \<longrightarrow> view d v' x = put_bytes a bs (view d v) x)"
    using assms
  proof (induction bs arbitrary: a v)
    case Nil
    then show ?case by (auto simp: put_bytes_def)
  next
    case (Cons b bs)
    have a: "in_user a" "unat (a + 1) = unat a + 1" using Cons.prems by (auto simp: in_user_def unat_word_ariths)
    obtain v1 where v1: "store_byte (pg d) a b v = Some v1" "user_space L v0 d F 512 v1" "frames v1 = frames v"
      "\<And>x. in_user x \<Longrightarrow> view d v1 x = (if x = a then b else view d v x)" using store_byte_user [OF Cons.prems(1) a(1)] by metis
    obtain v2 where v2: "store_bytes (pg d) (a + 1) bs v1 = Some v2" "user_space L v0 d F 512 v2" "frames v2 = frames v1"
      "\<forall>x. in_user x \<longrightarrow> view d v2 x = put_bytes (a + 1) bs (view d v1) x"
      using Cons.IH [OF v1(2), of "a + 1"] Cons.prems(2,3) a(2) by auto
    have "view d v2 x = put_bytes a (b # bs) (view d v) x" if "in_user x" for x
    proof -
      have "x = a \<longleftrightarrow> unat x = unat a" by (simp add: word_unat_eq_iff)
      then show ?thesis using v2(4) v1(4) that a(2) by (auto simp: put_bytes_def nth_Cons' Suc_diff_Suc)
    qed
    then show ?case using v1 v2 by auto
  qed
  then show thesis using that by blast
qed

section \<open>The image of a program\<close>

text \<open>What the user range is to hold: each loadable segment in turn, file bytes and zeros; then the trampoline and the stack word.\<close>

definition seg_bytes :: "u8 list \<Rightarrow> elf32_phdr \<Rightarrow> u8 list" where
  "seg_bytes file p = take (unat (p_filesz p)) (drop (unat (p_offset p)) file) @ replicate (unat (p_memsz p) - unat (p_filesz p)) 0"

definition segments_image :: "u8 list \<Rightarrow> (u32 \<Rightarrow> u8) \<Rightarrow> u32 \<Rightarrow> u8" where
  "segments_image file = fold (\<lambda>p. put_bytes (p_vaddr p) (seg_bytes file p)) (filter (\<lambda>p. p_type p = PT_LOAD) (phdrs file))"

definition image :: "u8 list \<Rightarrow> (u32 \<Rightarrow> u8) \<Rightarrow> u32 \<Rightarrow> u8" where
  "image file f = put_bytes (USER_STACK_TOP - 4) (bytes32 USER_EXIT_TRAMP) (put_bytes USER_EXIT_TRAMP tramp_code (segments_image file f))"

text \<open>A loadable segment as the validation leaves it, when its end does not wrap around.\<close>

definition seg_fits :: "u8 list \<Rightarrow> elf32_phdr \<Rightarrow> bool" where
  "seg_fits file p \<longleftrightarrow> 0x800000 \<le> unat (p_vaddr p) \<and> unat (p_vaddr p) + unat (p_memsz p) \<le> 0xA00000 \<and>
     unat (p_offset p) + unat (p_filesz p) \<le> length file \<and> unat (p_filesz p) \<le> unat (p_memsz p)"

lemma put_bytes_append:
  assumes "unat a + length bs < 4294967296"
  shows "put_bytes (a + w32 (length bs)) cs (put_bytes a bs f) = put_bytes a (bs @ cs) f"
proof
  fix x
  have "unat (a + w32 (length bs)) = unat a + length bs"
    using assms by (simp add: unat_word_ariths)
  then show "put_bytes (a + w32 (length bs)) cs (put_bytes a bs f) x = put_bytes a (bs @ cs) f x"
    by (auto simp: put_bytes_def nth_append)
qed

lemma put_bytes_cong: "(\<And>x. in_user x \<Longrightarrow> f x = g x) \<Longrightarrow> in_user x \<Longrightarrow> put_bytes a bs f x = put_bytes a bs g x"
  by (simp add: put_bytes_def)

lemma load_segment_user:
  assumes us: "user_space L v0 d F 512 v" and fits: "p_type p = PT_LOAD \<Longrightarrow> seg_fits file p"
  obtains v' where "load_segment (pg d) file p v = Some v'" and "user_space L v0 d F 512 v'" and "frames v' = frames v"
    and "\<And>x. in_user x \<Longrightarrow> view d v' x = (if p_type p = PT_LOAD then put_bytes (p_vaddr p) (seg_bytes file p) (view d v) x else view d v x)"
proof (cases "p_type p = PT_LOAD")
  case True
  note fit = fits [OF True, unfolded seg_fits_def]
  let ?bs = "take (unat (p_filesz p)) (drop (unat (p_offset p)) file)"
  have len: "length ?bs = unat (p_filesz p)" using fit by auto
  obtain v1 where v1: "store_bytes (pg d) (p_vaddr p) ?bs v = Some v1" "user_space L v0 d F 512 v1" "frames v1 = frames v"
    "\<And>x. in_user x \<Longrightarrow> view d v1 x = put_bytes (p_vaddr p) ?bs (view d v) x"
    by (rule store_bytes_user [OF us, of "p_vaddr p" ?bs]) (use fit len in auto)
  show thesis
  proof (cases "p_memsz p > p_filesz p")
    case bss: True
    let ?z = "replicate (unat (p_memsz p - p_filesz p)) (0 :: u8)"
    have z: "unat (p_memsz p - p_filesz p) = unat (p_memsz p) - unat (p_filesz p)"
      using fit by (simp add: unat_sub word_le_nat_alt)
    have va: "unat (p_vaddr p + p_filesz p) = unat (p_vaddr p) + unat (p_filesz p)"
      using fit by (simp add: unat_word_ariths)
    obtain v2 where v2: "store_bytes (pg d) (p_vaddr p + p_filesz p) ?z v1 = Some v2" "user_space L v0 d F 512 v2" "frames v2 = frames v1"
      "\<And>x. in_user x \<Longrightarrow> view d v2 x = put_bytes (p_vaddr p + p_filesz p) ?z (view d v1) x"
      by (rule store_bytes_user [OF v1(2), of "p_vaddr p + p_filesz p" ?z]) (use fit va z in auto)
    have "put_bytes (p_vaddr p + p_filesz p) ?z (put_bytes (p_vaddr p) ?bs (view d v)) = put_bytes (p_vaddr p) (?bs @ ?z) (view d v)"
      using put_bytes_append [of "p_vaddr p" ?bs ?z "view d v"] fit len by simp
    then have "view d v2 x = put_bytes (p_vaddr p) (seg_bytes file p) (view d v) x" if "in_user x" for x
      using v2(4) [OF that] put_bytes_cong [OF v1(4) that] z by (simp add: seg_bytes_def)
    then show thesis using that [of v2] v1 v2 True bss by (simp add: load_segment_def)
  next
    case False
    then have "unat (p_memsz p) = unat (p_filesz p)" using fit by (simp add: word_less_nat_alt)
    then show thesis using that [of v1] v1 True False by (simp add: load_segment_def seg_bytes_def)
  qed
next
  case False
  then show thesis using that [of v] us by (simp add: load_segment_def)
qed

lemma fold_put_cong:
  "(\<And>x. in_user x \<Longrightarrow> f x = g x) \<Longrightarrow> in_user y \<Longrightarrow>
   fold (\<lambda>p. put_bytes (a p) (bs p)) qs f y = fold (\<lambda>p. put_bytes (a p) (bs p)) qs g y"
proof (induction qs arbitrary: f g)
  case (Cons q qs)
  have "put_bytes (a q) (bs q) f x = put_bytes (a q) (bs q) g x" if "in_user x" for x
    by (rule put_bytes_cong [OF Cons.prems(1) that])
  from Cons.IH [OF this Cons.prems(2)] show ?case by simp
qed simp

lemma load_segments_user:
  assumes "user_space L v0 d F 512 v" and "\<And>p. p \<in> set ps \<Longrightarrow> p_type p = PT_LOAD \<Longrightarrow> seg_fits file p"
  shows "\<exists>v'. load_segments (pg d) file ps v = Some v' \<and> user_space L v0 d F 512 v' \<and> frames v' = frames v \<and>
    (\<forall>x. in_user x \<longrightarrow> view d v' x =
       fold (\<lambda>p. put_bytes (p_vaddr p) (seg_bytes file p)) (filter (\<lambda>p. p_type p = PT_LOAD) ps) (view d v) x)"
  using assms
proof (induction ps arbitrary: v)
  case (Cons p ps)
  obtain v1 where v1: "load_segment (pg d) file p v = Some v1" "user_space L v0 d F 512 v1" "frames v1 = frames v"
    "\<And>x. in_user x \<Longrightarrow> view d v1 x = (if p_type p = PT_LOAD then put_bytes (p_vaddr p) (seg_bytes file p) (view d v) x else view d v x)"
    by (rule load_segment_user [OF Cons.prems(1) Cons.prems(2) [of p]]) auto
  obtain v2 where v2: "load_segments (pg d) file ps v1 = Some v2" "user_space L v0 d F 512 v2" "frames v2 = frames v1"
    "\<forall>x. in_user x \<longrightarrow> view d v2 x =
       fold (\<lambda>p. put_bytes (p_vaddr p) (seg_bytes file p)) (filter (\<lambda>p. p_type p = PT_LOAD) ps) (view d v1) x"
    using Cons.IH [OF v1(2)] Cons.prems(2) by auto
  let ?q = "filter (\<lambda>p. p_type p = PT_LOAD) ps" and ?g = "\<lambda>p. put_bytes (p_vaddr p) (seg_bytes file p)"
  have "fold ?g ?q (view d v1) x = fold ?g ?q (if p_type p = PT_LOAD then ?g p (view d v) else view d v) x" if "in_user x" for x
    using that by (intro fold_put_cong) (auto simp: v1(4))
  then show ?case using v1 v2 by simp
qed simp

lemma load_image_user:
  assumes us: "user_space L v0 d F 512 v" and fits: "\<And>p. p \<in> set (phdrs file) \<Longrightarrow> p_type p = PT_LOAD \<Longrightarrow> seg_fits file p"
  obtains v' where "load_image (pg d) file v = Some v'" and "user_space L v0 d F 512 v'" and "frames v' = frames v"
    and "\<And>x. in_user x \<Longrightarrow> view d v' x = image file (view d v) x"
proof -
  obtain v1 where v1: "load_segments (pg d) file (phdrs file) v = Some v1" "user_space L v0 d F 512 v1" "frames v1 = frames v"
    "\<And>x. in_user x \<Longrightarrow> view d v1 x = segments_image file (view d v) x"
    using load_segments_user [OF us fits, of "phdrs file"] by (auto simp: segments_image_def)
  obtain v2 where v2: "store_bytes (pg d) USER_EXIT_TRAMP tramp_code v1 = Some v2" "user_space L v0 d F 512 v2" "frames v2 = frames v1"
    "\<And>x. in_user x \<Longrightarrow> view d v2 x = put_bytes USER_EXIT_TRAMP tramp_code (view d v1) x"
    by (rule store_bytes_user [OF v1(2), of USER_EXIT_TRAMP tramp_code]) (simp_all add: USER_EXIT_TRAMP_def tramp_code_def)
  obtain v3 where v3: "store_bytes (pg d) (USER_STACK_TOP - 4) (bytes32 USER_EXIT_TRAMP) v2 = Some v3" "user_space L v0 d F 512 v3"
    "frames v3 = frames v2" "\<And>x. in_user x \<Longrightarrow> view d v3 x = put_bytes (USER_STACK_TOP - 4) (bytes32 USER_EXIT_TRAMP) (view d v2) x"
    by (rule store_bytes_user [OF v2(2), of "USER_STACK_TOP - 4" "bytes32 USER_EXIT_TRAMP"]) (simp_all add: USER_STACK_TOP_def bytes32_def)
  have "view d v3 x = image file (view d v) x" if "in_user x" for x
    unfolding image_def v3(4) [OF that]
    using put_bytes_cong [OF v2(4)] put_bytes_cong [OF put_bytes_cong [OF v1(4)]] that by simp
  then show thesis using that [of v3] v1 v2 v3 by (simp add: load_image_def)
qed

end
