(* ===== verification/ElfProps.thy ===== *)
theory ElfProps
  imports ElfSpace Ports
begin

text \<open>
  Properties of the program loader: what the validation of a file means, and what a call of the loader
  leaves behind.
\<close>

section \<open>Creating the address space\<close>

lemma copy_dir_other:
  assumes "t < 1048576" and "n \<le> 1024" and "page_of x \<noteq> t"
  shows "fold (\<lambda>i m. set_entry (pg t) (w32 i) (entry m (pg k) (w32 i)) m) [0..<n] m x = m x"
  using assms(2) by (induction n) (simp_all add: set_entry_other [OF assms(1) _ assms(3)])

lemma new_space:
  assumes wf: "vm_wf k v0" and kd: "kernel_page_dir v0 = pg k" and c: "page_dir_create v0 = (pd, v)" and pd: "pd \<noteq> 0"
  obtains d where "pd = pg d" and "d \<noteq> 0" and "within_budget v0 d F 0 (v\<lparr>pmem := set_entry pd USER_PDE_IDX 0 (pmem v)\<rparr>)"
    and "user_space (\<lambda>a. if unat a div 4194304 = 2 then None else lookup k v0 a) v0 d F 0 (v\<lparr>pmem := set_entry pd USER_PDE_IDX 0 (pmem v)\<rparr>)"
proof -
  have pfa: "pfa_wf (frames v0)" using wf by (simp add: vm_wf_def)
  then obtain f where f: "alloc_frame (frames v0) = (ADDR f, pfa_set_bit f (frames v0))" "ADDR f \<noteq> 0"
      "f < total_frames (frames v0)" "f < MAX_FRAMES" "\<not> test_bit (frames v0) f"
    by (cases rule: alloc_frame_cases) (use c pd in \<open>auto simp: page_dir_create_def\<close>)
  define d where "d = unat f"
  note N = page_dir_create_new [OF wf kd f(1,3,4,5), folded d_def]
  have v: "v = snd (page_dir_create v0)" "pd = pg d" using c N(5) f(2) by (auto simp: ADDR_pg d_def)
  have d: "d < 1048576" "\<not> owned v0 d" "d \<noteq> 0"
    using f(4,5) v(2) pd by (auto simp: d_def word_less_nat_alt pfa_consts owned_def pg_def)
  have two: "USER_PDE_IDX = w32 2" by (simp add: USER_PDE_IDX_def w32_def)
  have "v = v0\<lparr>frames := pfa_set_bit f (frames v0), pmem := fold (\<lambda>i m. set_entry (pg d) (w32 i) (entry m (pg k) (w32 i)) m) [0..<1024] (pmem v0)\<rparr>"
    using c f(1,2) by (auto simp: page_dir_create_def kd ADDR_pg d_def)
  moreover have "kept v0 \<dots>"
    using kept_pmem [OF kept_alloc [OF kept_refl [OF pfa], of f],
        of "fold (\<lambda>i m. set_entry (pg d) (w32 i) (entry m (pg k) (w32 i)) m) [0..<1024] (pmem v0)"]
      copy_dir_other [OF d(1), of 1024] d(2) by fastforce
  ultimately have k: "kept v0 v" by simp
  have kf: "k < 1048576" "d \<noteq> k" using owned_bound [OF pfa, of k] wf d(2) by (auto simp: vm_wf_def)
  have pdes: "pde d v i = pde (page_of (kernel_page_dir v0)) v0 i" if "i < 1024" for i
    using copy_upto [OF d(1) kf, of 1024 d i "pmem v0"] that d(1) kf(1) \<open>v = v0\<lparr>frames := _, pmem := _\<rparr>\<close>
    by (simp add: pde_def kd pg_def page_of_w32)
  note C = clear_pde [OF N(1), of 2, folded v(1) two]
  have "kept v0 (v\<lparr>pmem := set_entry pd USER_PDE_IDX 0 (pmem v)\<rparr>)"
    unfolding two v(2) using d(2) by (intro kept_pmem [OF k] set_entry_other [OF d(1)]) auto
  then have "user_space (\<lambda>a. if unat a div 4194304 = 2 then None else lookup k v0 a) v0 d F 0 (v\<lparr>pmem := set_entry pd USER_PDE_IDX 0 (pmem v)\<rparr>)"
    using C N(3) d(2) pdes by (simp add: user_space_def v)
  moreover have "within_budget v0 d F 0 (v\<lparr>pmem := set_entry pd USER_PDE_IDX 0 (pmem v)\<rparr>)"
    using C(3) [of 2] free_count_alloc [OF pfa] f(1) \<open>v = v0\<lparr>frames := _, pmem := _\<rparr>\<close> owned_mark [where v = v0 and f = f]
    by (auto simp: within_budget_def taken_def owned_def d_def v(2))
  ultimately show thesis using that v(2) d(3) by blast
qed

section \<open>The address space after loading\<close>

lemma view_phys: "user_space L v0 d F 512 v \<Longrightarrow> in_user a \<Longrightarrow> view d v a = pmem v (phys F a)"
  by (simp add: view_def user_translate)

lemma user_frame_of:
  assumes us: "user_space L v0 d F 512 v" and a: "in_user a"
  shows "owned v (page_of (phys F a))" "page_of (phys F a) \<notin> table_frames d v"
proof -
  obtain i where "i < 512" "page_of a = 2048 + i" using in_user_page [OF a] by blast
  then show "owned v (page_of (phys F a))" "page_of (phys F a) \<notin> table_frames d v"
    using user_spaceD(5) [OF us] user_translate(2) [OF us a] by simp_all
qed

lemma user_space_clear:
  assumes us: "user_space L v0 d F 512 v" and i: "i < 1024" "i \<noteq> 2"
  defines "v' \<equiv> v\<lparr>pmem := set_entry (pg d) (w32 i) 0 (pmem v)\<rparr>"
  shows "user_space (\<lambda>a. if unat a div 4194304 = i then None else L a) v0 d F 512 v'"
    and "in_user a \<Longrightarrow> view d v' a = view d v a"
proof -
  note U = user_spaceD [OF us] and C = clear_pde [OF user_spaceD(1) [OF us] i(1), folded v'_def]
  have d: "d < 1048576" using owned_bound [of v d] U(1) by (auto simp: vm_wf_def)
  have "kept v0 v'" unfolding v'_def using U(3) i by (intro kept_pmem [OF U(2)] set_entry_other [OF d]) auto
  moreover have "user_table d v' = user_table d v" using C(3) [of 2] i by (simp add: user_table_def)
  moreover have "owned v' t = owned v t" for t by (simp add: v'_def)
  ultimately show us': "user_space (\<lambda>a. if unat a div 4194304 = i then None else L a) v0 d F 512 v'"
    using U C user_page(2) i by (auto simp: user_space_def)
  show "view d v' a = view d v a" if "in_user a"
  proof -
    have "page_of (phys F a) \<noteq> d" using user_frame_of(2) [OF us that] by (auto simp: table_frames_def)
    then show ?thesis using view_phys [OF us that] view_phys [OF us' that] C(4) by simp
  qed
qed

text \<open>The frames of \<open>X\<close>, none of them in use before, are the ones taken.\<close>

definition grown :: "vm \<Rightarrow> nat set \<Rightarrow> vm \<Rightarrow> bool" where
  "grown v X v' \<longleftrightarrow> (\<forall>u. owned v' u \<longleftrightarrow> owned v u \<or> u \<in> X) \<and> (\<forall>u \<in> X. \<not> owned v u)"

lemma grown_trans: "grown v X v1 \<Longrightarrow> grown v1 Y v2 \<Longrightarrow> grown v (X \<union> Y) v2"
  by (auto simp: grown_def)

lemma grown_frame: "f < total_frames (frames v) \<Longrightarrow> \<not> owned v (unat f) \<Longrightarrow> grown v {unat f} (v\<lparr>frames := pfa_set_bit f (frames v)\<rparr>)"
  by (auto simp: grown_def owned_mark)

lemma grown_run:
  assumes wf: "pfa_wf (frames v)" and r: "free_run (frames v) b n"
  shows "grown v {unat b..<unat b + unat n} (v\<lparr>frames := fold pfa_set_bit (run_from b 0 n) (frames v)\<rparr>)"
proof -
  let ?p = "frames v"
  have le: "unat b + unat n \<le> unat (total_frames ?p)" and tot: "unat (total_frames ?p) \<le> 262144"
    using r wf by (auto simp: free_run_def pfa_wf_def word_le_nat_alt pfa_consts)
  have mem: "f \<in> set (run_from b 0 n) \<longleftrightarrow> unat b \<le> unat f \<and> unat f < unat b + unat n" for f
    using mem_run_from [of b n f] le tot by (simp add: word_le_nat_alt)
  have "test_bit (fold pfa_set_bit (run_from b 0 n) ?p) (w32 u) \<longleftrightarrow> test_bit ?p (w32 u) \<or> unat b \<le> u \<and> u < unat b + unat n"
    if "u < 4294967296" for u using that by (auto simp: frames.test_mark_all mem)
  moreover have "\<not> test_bit ?p (w32 u)" if "unat b \<le> u" "u < unat b + unat n" for u
  proof -
    have "w32 (unat b + (u - unat b)) = b + w32 (u - unat b)" by (simp add: w32_def)
    then have "w32 u = b + w32 (u - unat b)" using that by simp
    moreover have "w32 (u - unat b) < n" using that le tot by (simp add: word_less_nat_alt)
    ultimately show ?thesis using r by (simp add: free_run_def)
  qed
  ultimately show ?thesis using le tot unfolding grown_def owned_def by auto
qed

lemma grown_taken:
  assumes us: "user_space L v0 d F 512 v" and ex: "\<And>t. owned v t \<Longrightarrow> owned v0 t \<or> t \<in> taken d F 512 v"
  shows "grown v0 (taken d F 512 v) v"
proof -
  note U = user_spaceD [OF us]
  have "owned v u \<and> \<not> owned v0 u" if "u \<in> taken d F 512 v" for u
    using that U(1,3,4,5) user_present [OF us] user_table_owned [OF U(1)] by (auto simp: taken_def vm_wf_def split: if_splits)
  then show ?thesis using ex U(2) by (auto simp: grown_def kept_def)
qed

lemma user_space_alloc:
  assumes us: "user_space L v0 d F n v"
  shows "user_space L v0 d F n (v\<lparr>frames := fold pfa_set_bit fs (frames v)\<rparr>)"
  using us
proof (induction fs arbitrary: v)
  case (Cons f fs)
  let ?v = "v\<lparr>frames := pfa_set_bit f (frames v)\<rparr>"
  note U = user_spaceD [OF Cons.prems] and A = vm_wf_alloc [OF user_spaceD(1) [OF Cons.prems], of f]
  have "user_space L v0 d F n ?v"
    using U A kept_alloc [OF U(2), of f] by (auto simp: user_space_def owned_mark)
  from Cons.IH [OF this] show ?case by simp
qed simp

lemma view_frames [simp]: "view d (v\<lparr>frames := fr\<rparr>) a = view d v a"
  by (simp add: view_def translate_def Let_def)

section \<open>The new task\<close>

text \<open>The structures of the tasks of the ring lie in frames in use.\<close>

definition tasks_owned :: "vm \<Rightarrow> u32 list \<Rightarrow> bool" where
  "tasks_owned v ts \<longleftrightarrow> (\<forall>u \<in> set ts. \<exists>n < 1048576. u = pg n \<and> owned v n)"

lemma stack_push:
  assumes b: "b < MAX_FRAMES" and f: "fold push vs (ADDR b + TASK_STACK_SIZE, m) = (sp, m')" and vs: "length vs = 19"
  shows "sp = ADDR b + TASK_STACK_SIZE - 76" and "i < 19 \<Longrightarrow> rd32 m' (sp + 4 * w32 i) = rev vs ! i"
    and "page_of x \<noteq> unat b + 3 \<Longrightarrow> m' x = m x"
proof -
  let ?a = "4096 * unat b + 16384"
  have ub: "unat b < 262144" using b by (simp add: word_less_nat_alt pfa_consts)
  have a: "ADDR b + TASK_STACK_SIZE = w32 ?a" by (simp add: ADDR_pg pg_def TASK_STACK_SIZE_def w32_def)
  obtain m1 where m1: "fold push vs (w32 ?a, m) = (w32 (?a - 76), m1)" "\<forall>i < 19. rd32 m1 (w32 (?a - 76 + 4 * i)) = rev vs ! i"
    "same_outside (?a - 76) ?a m m1" using fold_push [of vs ?a m] vs ub by auto
  then have sp: "sp = w32 (?a - 76)" "m' = m1" using f a by auto
  have "w32 (?a - 76) = w32 ?a - 76" by (simp add: w32_def of_nat_diff)
  then show "sp = ADDR b + TASK_STACK_SIZE - 76" using sp a by simp
  show "rd32 m' (sp + 4 * w32 i) = rev vs ! i" if "i < 19"
  proof -
    have "sp + 4 * w32 i = w32 (?a - 76 + 4 * i)" unfolding sp by (simp add: w32_def)
    then show ?thesis using m1(2) that sp(2) by simp
  qed
  show "m' x = m x" if "page_of x \<noteq> unat b + 3"
  proof -
    have "unat x < ?a - 76 \<or> ?a \<le> unat x" using page_outside [of "unat x" "unat b + 3"] that by (auto simp: page_of_def)
    then show ?thesis using same_outsideD [OF m1(3)] sp(2) by simp
  qed
qed

section \<open>Groups of four frames\<close>

text \<open>The aligned groups of four free frames; while there is one, a stack can be allocated.\<close>

definition spare :: "pfa \<Rightarrow> nat set" where
  "spare p = {b. 4 * b + 4 \<le> unat (total_frames p) \<and> (\<forall>j < 4. \<not> test_bit p (w32 (4 * b + j)))}"

lemma finite_spare: "finite (spare p)"
  by (rule finite_subset [of _ "{..unat (total_frames p)}"]) (auto simp: spare_def)

lemma spare_grown:
  assumes g: "grown v X v'" and "finite X" and t: "total_frames (frames v') = total_frames (frames v)"
  shows "card (spare (frames v)) \<le> card (spare (frames v')) + card X"
proof -
  have "b \<in> spare (frames v') \<union> (\<lambda>u. u div 4) ` X" if b: "b \<in> spare (frames v)" for b
  proof (rule ccontr)
    assume n: "b \<notin> spare (frames v') \<union> (\<lambda>u. u div 4) ` X"
    then obtain j where j: "j < 4" "owned v' (4 * b + j)" using b t by (auto simp: spare_def owned_def)
    moreover have "\<not> owned v (4 * b + j)" using b j(1) by (auto simp: spare_def owned_def)
    ultimately have "4 * b + j \<in> X" using g by (auto simp: grown_def)
    moreover have "(4 * b + j) div 4 = b" using j(1) by simp
    ultimately show False using n by (metis UnI2 image_eqI)
  qed
  then have "card (spare (frames v)) \<le> card (spare (frames v') \<union> (\<lambda>u. u div 4) ` X)"
    using assms(2) finite_spare by (intro card_mono) auto
  also have "\<dots> \<le> card (spare (frames v')) + card X"
    using card_Un_le card_image_le [OF assms(2)] by (rule order_trans [OF _ add_left_mono])
  finally show ?thesis .
qed

lemma alloc_frames_no_run:
  assumes wf: "pfa_wf p" and a: "alloc_frames count p = (0, p')" and c: "count \<noteq> 0"
  shows "\<not> free_run p s count"
proof (cases "count > total_frames p")
  case True
  then show ?thesis by (simp add: free_run_def word_less_nat_alt)
next
  case False
  from wf have le: "total_frames p \<le> MAX_FRAMES" "count \<le> total_frames p" and zero: "test_bit p 0" using False by (simp_all add: pfa_wf_def)
  note low = run_scan_lowest [OF le]
  show ?thesis
  proof (cases "run_scan (Suc (unat (total_frames p - count))) p count 0")
    case None
    with low show ?thesis by (simp del: run_scan.simps)
  next
    case (Some b)
    with low have f: "free_run p b count" by (simp del: run_scan.simps)
    have "0 < count" using c by (simp add: word_neq_0_conv)
    with f zero have "b \<noteq> 0" by (auto simp: free_run_def)
    moreover have "b < MAX_FRAMES" using f \<open>0 < count\<close> le(1) by (auto simp: free_run_def word_nat)
    ultimately show ?thesis using a Some c False by (simp add: alloc_frames_def del: run_scan.simps split: if_splits)
  qed
qed

lemma alloc_stack_spare:
  assumes wf: "pfa_wf p" and a: "alloc_frames 4 p = (0, p')"
  shows "spare p = {}"
proof -
  have "b \<notin> spare p" for b
  proof
    assume b: "b \<in> spare p"
    have tot: "unat (total_frames p) \<le> 262144" using wf by (simp add: pfa_wf_def word_le_nat_alt pfa_consts)
    have "\<not> test_bit p (w32 (4 * b) + k)" if "k < 4" for k
    proof -
      have "w32 (4 * b) + k = w32 (4 * b + unat k)" by (simp add: w32_def)
      then show ?thesis using b that by (auto simp: spare_def word_less_nat_alt)
    qed
    then have "free_run p (w32 (4 * b)) 4" using b tot by (simp add: free_run_def spare_def)
    then show False using alloc_frames_no_run [OF wf a] by simp
  qed
  then show ?thesis by blast
qed

section \<open>Starting the task\<close>

text \<open>
  A task at \<open>t\<close> has been added that starts at \<open>eip\<close> in the address space of directory \<open>d\<close>. It took a
  frame for its structure and four for its stack.
\<close>

definition started :: "(u32 \<Rightarrow> u32 option) \<Rightarrow> vm \<Rightarrow> nat \<Rightarrow> (nat \<Rightarrow> nat) \<Rightarrow> u32 \<Rightarrow> u32 list \<Rightarrow> tsys \<Rightarrow> u32 \<Rightarrow> tsys \<Rightarrow> bool" where
  "started L v0 d F eip ts s t s' \<longleftrightarrow> user_space L v0 d F 512 (vm s') \<and> (\<forall>a. in_user a \<longrightarrow> view d (vm s') a = view d (vm s) a) \<and>
        t \<notin> set ts \<and> ring (store s') (ready_head s') (insert_after t ts) \<and>
        page_dir (store s' t) = pg d \<and> tstate (store s' t) = TASK_READY \<and> cpu_assigned (store s' t) = -1 \<and>
        pid (store s' t) = next_pid s \<and> pde d (vm s') 2 = pde d (vm s) 2 \<and> t = pg (page_of t) \<and> page_of t < 1048576 \<and>
        (\<exists>b. kernel_stack_base (store s' t) = pg b \<and> b + 4 \<le> 1048576 \<and> b \<noteq> 0 \<and> page_of t \<notin> {b..<b + 4} \<and>
           grown (vm s) (insert (page_of t) {b..<b + 4}) (vm s')) \<and>
        (\<forall>i < 19. rd32 (pmem (vm s')) (kernel_esp (store s' t) + 4 * w32 i) = rev (user_frame (USER_STACK_TOP - 4) eip) ! i)"

lemma start_user_result:
  assumes us: "user_space L v0 d F 512 (vm s)" and r: "ring (store s) (ready_head s) ts" and o: "tasks_owned (vm s) ts"
    and run: "start_user (pg d) eip s = (e, s')"
  shows "case e of
      Some x \<Rightarrow> (x = No_task \<and> get_free_frame_count (frames (vm s)) = 0 \<or> x = No_stack \<and> card (spare (frames (vm s))) \<le> 1) \<and> kept v0 (vm s') \<and> ring (store s') (ready_head s') ts
    | None \<Rightarrow> \<exists>t. started L v0 d F eip ts s t s'"
proof -
  note U = user_spaceD [OF us]
  have wf: "pfa_wf (frames (vm s))" using U(1) by (simp add: vm_wf_def)
  from wf show ?thesis
  proof (cases rule: alloc_task_cases)
    case full
    then have "e = Some No_task" "s' = s" using run by (simp_all add: start_user_def)
    moreover have "\<forall>f < total_frames (frames (vm s)). test_bit (frames (vm s)) f"
      using wf by (cases rule: alloc_frame_cases) (use full in \<open>auto simp: alloc_task_def\<close>)
    ultimately show ?thesis using U(2) r free_count_full by simp
  next
    case (frame f)
    let ?t = "ADDR f" and ?p1 = "pfa_set_bit f (frames (vm s))"
    let ?s1 = "upd ?t (\<lambda>_. zero_task\<lparr>pid := next_pid s, cpu_assigned := -1\<rparr>)
        (s\<lparr>vm := (vm s)\<lparr>frames := ?p1\<rparr>, next_pid := next_pid s + 1\<rparr>)"
    have f: "unat f < 1048576" "\<not> owned (vm s) (unat f)" "\<not> owned v0 (unat f)" "unat f \<noteq> 0"
      using frame(1-3) U(2) by (auto simp: word_less_nat_alt pfa_consts owned_def kept_def ADDR_pg pg_def)
    have t: "?t \<notin> set ts" using o f(1,2) by (auto simp: tasks_owned_def ADDR_pg)
    have r1: "ring (store ?s1) (ready_head ?s1) ts" using r t by (subst ring_cong [of ts _ "store s"]) auto
    have us1: "user_space L v0 d F 512 (vm ?s1)" using user_space_alloc [OF us, of "[f]"] by simp
    have "f < total_frames (frames (vm s))"
    proof (cases rule: alloc_frame_cases [OF wf])
      case (2 g)
      then have "ADDR g = ADDR f" using frame(1,4) by (auto simp: alloc_task_def Let_def)
      then have "FRAME (ADDR g) = FRAME (ADDR f)" by simp
      then show ?thesis using 2(3,4) frame(2) by simp
    qed (use frame(1,4) in \<open>simp add: alloc_task_def\<close>)
    then have g1: "grown (vm s) {unat f} (vm ?s1)" using grown_frame f(2) by simp
    have wf1: "pfa_wf ?p1" using pfa_wf_set_bit [OF wf] .
    obtain stack p2 where a: "alloc_frames 4 ?p1 = (stack, p2)" by fastforce
    show ?thesis
    proof (cases "stack = 0")
      case True
      have p2: "p2 = ?p1" using alloc_frames_null [OF wf1] a True by simp
      then have e: "e = Some No_stack" "s' = on_vm (free_page ?t) ?s1"
        using run frame(1,4) a True by (simp_all add: start_user_def Let_def on_vm_def)
      have "kept v0 (vm s')"
        using free_page_kept [OF user_spaceD(2) [OF us1] f(3,1,4)] by (simp add: e(2) on_vm_def ADDR_pg)
      moreover have "ring (store s') (ready_head s') ts" using r1 by (simp add: e(2) on_vm_def)
      moreover have "card (spare (frames (vm s))) \<le> 1"
        using spare_grown [OF g1] alloc_stack_spare [OF wf1] a True by simp
      ultimately show ?thesis by (simp add: e(1))
    next
      case False
      from alloc_frames_result [OF wf1 a False] obtain b where
        b: "stack = ADDR b" "b < MAX_FRAMES" "free_run ?p1 b 4" "p2 = fold pfa_set_bit (run_from b 0 4) ?p1" by blast
      obtain sp m where pu: "fold push (user_frame (USER_STACK_TOP - 4) eip) (stack + TASK_STACK_SIZE, pmem (vm s)) = (sp, m)"
        by fastforce
      note P = stack_push [OF b(2) pu [unfolded b(1)]]
      let ?s2 = "upd ?t (\<lambda>x. x\<lparr>kernel_stack_base := stack, kernel_esp := sp, page_dir := pg d, tstate := TASK_READY\<rparr>)
          (?s1\<lparr>vm := (vm s)\<lparr>frames := p2, pmem := m\<rparr>\<rparr>)"
      have e: "e = None" "s' = insert_ready ?t ?s2"
        using run frame(1,4) a False pu by (simp_all add: start_user_def Let_def on_vm_def)
      have vm': "vm s' = (vm s)\<lparr>frames := p2, pmem := m\<rparr>" by (simp add: e(2))
      have len: "length (user_frame (USER_STACK_TOP - 4) eip) = 19" by (simp add: user_frame_def)
      have "\<not> test_bit ?p1 (b + 3)" using b(3) by (simp add: free_run_def)
      moreover have "w32 (unat b + 3) = b + 3" by (simp add: w32_def)
      ultimately have nb: "\<not> owned (vm ?s1) (unat b + 3)" by (simp add: owned_def)
      define v2 where "v2 = (vm ?s1)\<lparr>frames := p2\<rparr>"
      have us2: "user_space L v0 d F 512 v2" using user_space_alloc [OF us1, of "run_from b 0 4"] by (simp add: v2_def b(4))
      have tf: "table_frames d v2 = table_frames d (vm ?s1)" by (simp add: v2_def table_frames_def pde_def)
      have "m x = pmem v2 x" if "page_of x \<in> table_frames d v2 \<or> owned v0 (page_of x)" for x
      proof -
        have "page_of x \<noteq> unat b + 3"
          using that nb table_frames_owned [OF user_spaceD(1) [OF us1]] user_spaceD(2) [OF us1] by (auto simp: tf kept_def)
        then show ?thesis using P(3) [OF len] by (simp add: v2_def)
      qed
      note E = pmem_elsewhere [OF us2 this]
      have us': "user_space L v0 d F 512 (vm s')" using E(1) by (simp add: vm' v2_def)
      moreover have "view d (vm s') a = view d (vm s) a" if "in_user a" for a
      proof -
        have "owned (vm ?s1) (page_of (phys F a))" by (rule user_frame_of(1) [OF us1 that])
        then have "page_of (phys F a) \<noteq> unat b + 3" using nb by metis
        then show ?thesis using view_phys [OF us' that] view_phys [OF us that] P(3) [OF len] by (simp add: vm')
      qed
      moreover have "ring (store ?s2) (ready_head ?s2) ts" using r1 t by (subst ring_cong [of ts _ "store ?s1"]) auto
      note R = insert_ready_ring [OF this t frame(1)]
      have "rd32 (pmem (vm s')) (kernel_esp (store s' ?t) + 4 * w32 i) = rev (user_frame (USER_STACK_TOP - 4) eip) ! i" if "i < 19" for i
        unfolding e(2) relinkedD(5) [OF R(2)] using P(2) [OF len that] by simp
      moreover have "page_dir (store s' ?t) = pg d" "tstate (store s' ?t) = TASK_READY" "cpu_assigned (store s' ?t) = -1"
        "pid (store s' ?t) = next_pid s" unfolding e(2) relinkedD(1-4) [OF R(2)] by simp_all
      moreover have "pde d (vm s') 2 = pde d (vm s) 2" using E(2) [of 2] by (simp add: vm' v2_def pde_def)
      moreover have "grown (vm s) (insert (page_of ?t) {unat b..<unat b + 4}) (vm s')" "page_of ?t \<notin> {unat b..<unat b + 4}"
      proof -
        have g2: "grown (vm ?s1) {unat b..<unat b + 4} v2" using grown_run [of "vm ?s1" b 4] wf1 b(3) by (simp add: v2_def b(4))
        have "grown (vm s) (insert (unat f) {unat b..<unat b + 4}) v2" using grown_trans [OF g1 g2] by simp
        moreover have "page_of ?t = unat f" using f(1) by (simp add: ADDR_pg pg_def page_of_w32)
        ultimately show "grown (vm s) (insert (page_of ?t) {unat b..<unat b + 4}) (vm s')" by (simp add: grown_def owned_def vm' v2_def)
        show "page_of ?t \<notin> {unat b..<unat b + 4}"
          using g2 g1 unfolding \<open>page_of ?t = unat f\<close> grown_def by blast
      qed
      moreover have "kernel_stack_base (store s' ?t) = pg (unat b)" unfolding e(2) relinkedD(6) [OF R(2)] by (simp add: b(1) ADDR_pg)
      moreover have "unat b + 4 \<le> 1048576" "unat b \<noteq> 0"
        using b(2) False b(1) by (auto simp: word_less_nat_alt pfa_consts ADDR_pg pg_def)
      moreover have "?t = pg (page_of ?t)" "page_of ?t < 1048576" using f(1) by (simp_all add: ADDR_pg pg_def page_of_w32)
      ultimately show ?thesis using R(1) t e unfolding started_def by auto
    qed
  qed
qed

section \<open>Validation\<close>

text \<open>A valid file, in unbounded arithmetic; \<open>wraps\<close> is what the check of the end of a segment lets pass besides.\<close>

definition wraps :: "elf32_phdr \<Rightarrow> bool" where
  "wraps p \<longleftrightarrow> 4294967296 \<le> unat (p_vaddr p) + unat (p_memsz p)"

definition seg_valid :: "u8 list \<Rightarrow> elf32_phdr \<Rightarrow> bool" where
  "seg_valid file p \<longleftrightarrow> 0x800000 \<le> unat (p_vaddr p) \<and> unat (p_vaddr p) < 0x900000 \<and>
     (unat (p_vaddr p) + unat (p_memsz p) \<le> 0xA00000 \<or> wraps p) \<and>
     unat (p_offset p) + unat (p_filesz p) \<le> length file \<and> unat (p_filesz p) \<le> unat (p_memsz p)"

definition elf_valid :: "u8 list \<Rightarrow> bool" where
  "elf_valid file \<longleftrightarrow> 52 \<le> length file \<and>
     (let h = get_ehdr file
      in file32 (e_ident h) 0 = ELF_MAGIC \<and> e_ident h ! 4 = 1 \<and> e_machine h = 3 \<and>
         0x800000 \<le> unat (e_entry h) \<and> unat (e_entry h) < 0x900000 \<and> 32 \<le> unat (e_phentsize h) \<and>
         unat (e_phoff h) + unat (e_phnum h) * unat (e_phentsize h) \<le> length file) \<and>
     (\<forall>p \<in> set (phdrs file). p_type p = PT_LOAD \<longrightarrow> seg_valid file p)"

lemma first_error_None: "first_error es = None \<longleftrightarrow> (\<forall>e \<in> set es. e = None)"
  by (induction es) (auto split: option.splits)

lemma sum_wraps:
  fixes a b :: u32
  shows "unat (a + b) = (if unat a + unat b < 4294967296 then unat a + unat b else unat a + unat b - 4294967296)"
proof -
  have "unat a + unat b < 2 * 4294967296" using unat_lt_2p32 [of a] unat_lt_2p32 [of b] by linarith
  then show ?thesis by (auto simp: unat_word_ariths mod_if)
qed

lemma phdr_error_None:
  assumes "length file < 4294967296"
  shows "phdr_error (w32 (length file)) p = None \<longleftrightarrow> (p_type p = PT_LOAD \<longrightarrow> seg_valid file p)"
proof -
  let ?a = "p_vaddr p" and ?m = "p_memsz p" and ?o = "p_offset p" and ?z = "p_filesz p"
  have bound: "unat ?m < 4294967296" "unat ?z < 4294967296" by simp_all
  have r: "?a < USER_ELF_BASE \<or> ?a \<ge> USER_ELF_LIMIT \<longleftrightarrow> \<not> (0x800000 \<le> unat ?a \<and> unat ?a < 0x900000)"
    by (auto simp: user_layout word_less_nat_alt word_le_nat_alt)
  have top: "?a + ?m > USER_STACK_TOP \<longleftrightarrow> \<not> (unat ?a + unat ?m \<le> 0xA00000 \<or> wraps p)" if "unat ?a < 0x900000"
    using that sum_wraps [of ?a ?m] bound(1) unfolding wraps_def USER_STACK_TOP_def word_less_nat_alt by (auto simp del: unat_lt_2p32)
  have fl: "?o + ?z < ?o \<or> ?o + ?z > w32 (length file) \<longleftrightarrow> \<not> unat ?o + unat ?z \<le> length file"
    using sum_wraps [of ?o ?z] bound(2) assms unfolding word_less_nat_alt by (auto simp del: unat_lt_2p32)
  have sz: "?z > ?m \<longleftrightarrow> \<not> unat ?z \<le> unat ?m" by (simp add: word_less_nat_alt not_le)
  show ?thesis using top unfolding phdr_error_def seg_valid_def r fl sz by auto
qed

lemma elf_check_iff:
  assumes "length file \<le> 131072"
  shows "elf_check file = None \<longleftrightarrow> elf_valid file"
proof (cases "52 \<le> length file")
  case True
  define h where "h = get_ehdr file"
  let ?n = "unat (e_phnum h)" and ?s = "unat (e_phentsize h)" and ?o = "unat (e_phoff h)"
  have bound: "?o < 4294967296" by simp
  have "?n \<le> 65535" "?s \<le> 65535" using unat_lt_2p16 [of "e_phnum h"] unat_lt_2p16 [of "e_phentsize h"] by linarith+
  then have "?n * ?s \<le> 65535 * 65535" by (rule mult_mono) simp_all
  then have prod: "unat (ucast (e_phnum h) * ucast (e_phentsize h) :: u32) = ?n * ?s"
    by (simp add: unat_word_ariths unat_ucast_widen)
  have over: "ucast (e_phnum h) * ucast (e_phentsize h) > 0xFFFFFFFF - e_phoff h \<longleftrightarrow> 4294967296 \<le> ?o + ?n * ?s"
    using bound unfolding word_less_nat_alt prod by (auto simp: unat_sub word_le_nat_alt simp del: unat_lt_2p32)
  have tab: "e_phoff h + ucast (e_phnum h) * ucast (e_phentsize h) > w32 (length file) \<longleftrightarrow> \<not> ?o + ?n * ?s \<le> length file"
    if "?o + ?n * ?s < 4294967296"
    using that assms sum_wraps [of "e_phoff h" "ucast (e_phnum h) * ucast (e_phentsize h)"]
    unfolding word_less_nat_alt prod by (simp add: not_le)
  have ent: "e_entry h < USER_ELF_BASE \<or> e_entry h \<ge> USER_ELF_LIMIT \<longleftrightarrow> \<not> (0x800000 \<le> unat (e_entry h) \<and> unat (e_entry h) < 0x900000)"
    by (auto simp: user_layout word_less_nat_alt word_le_nat_alt)
  have sm: "e_phentsize h < 32 \<longleftrightarrow> \<not> 32 \<le> ?s" by (simp add: word_less_nat_alt not_le)
  have seg: "first_error (map (phdr_error (w32 (length file))) (phdrs file)) = None \<longleftrightarrow>
      (\<forall>p \<in> set (phdrs file). p_type p = PT_LOAD \<longrightarrow> seg_valid file p)"
    using phdr_error_None assms by (simp add: first_error_None)
  show ?thesis
    using True assms tab unfolding elf_check_def elf_valid_def Let_def h_def [symmetric] over ent sm seg [symmetric] by auto
next
  case False
  then show ?thesis by (simp add: elf_check_def elf_valid_def Let_def)
qed

section \<open>Loading a program\<close>

lemma seg_valid_fits: "seg_valid file p \<Longrightarrow> \<not> wraps p \<Longrightarrow> seg_fits file p"
  by (simp add: seg_valid_def seg_fits_def)

lemma tasks_owned_kept: "tasks_owned v0 ts \<Longrightarrow> kept v0 v \<Longrightarrow> tasks_owned v ts"
  unfolding tasks_owned_def kept_def by blast

lemma below_user: "unat a < 0x800000 \<Longrightarrow> unat a div 4194304 = 0 \<or> unat a div 4194304 = 1"
proof -
  assume "unat a < 0x800000"
  then have "unat a div 4194304 < 2" by (simp add: div_less_iff_less_mult)
  then show ?thesis by linarith
qed

text \<open>The errors of a call that passed the validation: memory has run out.\<close>

definition memory_error :: "elf_error \<Rightarrow> pfa \<Rightarrow> bool" where
  "memory_error x p \<longleftrightarrow> x = No_stack \<and> card (spare p) \<le> 515 \<or> x \<in> {No_directory, No_pages, No_mapping, No_task} \<and> get_free_frame_count p \<le> 514"

text \<open>What a successful call leaves behind for the task at \<open>t\<close> with directory \<open>d\<close>.\<close>

definition user_task :: "u8 list \<Rightarrow> u32 \<Rightarrow> nat \<Rightarrow> tsys \<Rightarrow> bool" where
  "user_task file t d s \<longleftrightarrow> page_dir (store s t) = pg d \<and> tstate (store s t) = TASK_READY \<and> cpu_assigned (store s t) = -1 \<and>
     (\<exists>f. \<forall>a. in_user a \<longrightarrow> view d (vm s) a = image file f a) \<and>
     (\<forall>a. unat a < 0x800000 \<longrightarrow> lookup d (vm s) a = None) \<and>
     (\<forall>i < 19. rd32 (pmem (vm s)) (kernel_esp (store s t) + 4 * w32 i) = rev (user_frame (USER_STACK_TOP - 4) (e_entry (get_ehdr file))) ! i)"

text \<open>
  The memory of that task: its directory, table and pages, its stack, and its own structure, all of them frames
  that were free in \<open>v0\<close>; nothing else has been taken since.
\<close>

definition holds_memory :: "vm \<Rightarrow> u32 \<Rightarrow> nat \<Rightarrow> tsys \<Rightarrow> bool" where
  "holds_memory v0 t d s \<longleftrightarrow> (\<exists>L F b. user_space L v0 d F 512 (vm s) \<and> (\<forall>a. unat a div 4194304 = 2 \<longrightarrow> L a = None) \<and>
     page_dir (store s t) = pg d \<and> kernel_stack_base (store s t) = pg b \<and> b + 4 \<le> 1048576 \<and> b \<noteq> 0 \<and> t = pg (page_of t) \<and>
     page_of t \<notin> taken d F 512 (vm s) \<union> {b..<b + 4} \<and> d \<noteq> 0 \<and>
     grown v0 (insert (page_of t) (taken d F 512 (vm s) \<union> {b..<b + 4})) (vm s))"

lemma elf_load_valid:
  assumes wf: "vm_wf k (vm s)" and kd: "kernel_page_dir (vm s) = pg k" and r: "ring (store s) (ready_head s) ts"
    and o: "tasks_owned (vm s) ts" and chk: "elf_check file = None"
    and fits: "\<And>p. p \<in> set (phdrs file) \<Longrightarrow> p_type p = PT_LOAD \<Longrightarrow> seg_fits file p"
  shows "\<exists>e s'. elf_load cpu file s = Some (e, s') \<and> kept (vm s) (vm s') \<and>
    (case e of Some x \<Rightarrow> memory_error x (frames (vm s)) \<and> ring (store s') (ready_head s') ts
     | None \<Rightarrow> \<exists>t d. t \<notin> set ts \<and> ring (store s') (ready_head s') (insert_after t ts) \<and> user_task file t d s' \<and>
         holds_memory (vm s) t d s')"
proof -
  have pfa: "pfa_wf (frames (vm s))" using wf by (simp add: vm_wf_def)
  obtain pd v where c: "page_dir_create (vm s) = (pd, v)" by fastforce
  show ?thesis
  proof (cases "pd = 0")
    case True
    have "v = vm s \<and> get_free_frame_count (frames (vm s)) = 0"
      using pfa by (cases rule: alloc_frame_cases) (use c True free_count_full in \<open>auto simp: page_dir_create_def\<close>)
    then show ?thesis using True c chk r kept_refl [OF pfa] by (simp add: elf_load_def memory_error_def)
  next
    case False
    let ?v1 = "v\<lparr>pmem := set_entry pd USER_PDE_IDX 0 (pmem v)\<rparr>"
    let ?L0 = "\<lambda>a. if unat a div 4194304 = 2 then None else lookup k (vm s) a"
    obtain d where d: "pd = pg d" "d \<noteq> 0" "within_budget (vm s) d (\<lambda>_. 0) 0 ?v1" "user_space ?L0 (vm s) d (\<lambda>_. 0) 0 ?v1"
      by (rule new_space [OF wf kd c False, where F = "\<lambda>_. 0"])
    obtain e v2 where m: "map_user pd USER_ELF_BASE ?v1 = (e, v2)" by fastforce
    have base: "USER_ELF_BASE = user_page 0" by (simp add: USER_ELF_BASE_def user_page_def w32_def)
    have m': "map_user (pg d) (user_page 0) ?v1 = (e, v2)" using m d(1) base by simp
    note M = map_user_result [OF d(4) _ d(2) m' d(3)]
    show ?thesis
    proof (cases e)
      case (Some x)
      then show ?thesis using M c False chk m r by (auto simp: elf_load_def memory_error_def)
    next
      case None
      then obtain F where us: "user_space ?L0 (vm s) d F 512 v2" and ex: "\<And>t. owned v2 t \<Longrightarrow> owned (vm s) t \<or> t \<in> taken d F 512 v2"
        and cnt: "get_free_frame_count (frames (vm s)) \<le> get_free_frame_count (frames v2) + 514" using M by auto
      obtain v3 where v3: "load_image pd file v2 = Some v3" "user_space ?L0 (vm s) d F 512 v3" "frames v3 = frames v2"
        "\<And>x. in_user x \<Longrightarrow> view d v3 x = image file (view d v2) x"
        by (rule load_image_user [OF us fits, folded d(1)]) blast+
      let ?m4 = "set_entry pd 0 0 (pmem v3)"
      have z: "(0 :: u32) = w32 0" "(1 :: u32) = w32 1" by (simp_all add: w32_def)
      note C0 = user_space_clear [OF v3(2), of 0, folded d(1) z]
      note C1 = user_space_clear [OF C0(1), of 1, folded d(1) z, simplified]
      let ?s = "s\<lparr>vm := v3\<lparr>pmem := set_entry pd 1 0 ?m4\<rparr>, cpu_cr3 := (cpu_cr3 s)(cpu := kernel_page_dir v3)\<rparr>"
      obtain e' s' where st: "start_user pd (e_entry (get_ehdr file)) ?s = (e', s')" by fastforce
      let ?L = "\<lambda>a. if unat a div 4194304 = 1 then None else if unat a div 4194304 = 0 then None else ?L0 a"
      have us5: "user_space ?L (vm s) d F 512 (vm ?s)" using C1(1) by simp
      have vw: "view d (vm ?s) a = image file (view d v2) a" if "in_user a" for a
        using C1(2) [OF that] C0(2) [OF _ _ that] v3(4) [OF that] by simp
      have "ring (store ?s) (ready_head ?s) ts" using r by simp
      moreover have "start_user (pg d) (e_entry (get_ehdr file)) ?s = (e', s')" using st d(1) by simp
      ultimately have S: "case e' of
          Some x \<Rightarrow> (x = No_task \<and> get_free_frame_count (frames (vm ?s)) = 0 \<or> x = No_stack \<and> card (spare (frames (vm ?s))) \<le> 1) \<and> kept (vm s) (vm s') \<and> ring (store s') (ready_head s') ts
        | None \<Rightarrow> \<exists>t. started ?L (vm s) d F (e_entry (get_ehdr file)) ts ?s t s'"
        by (rule start_user_result [OF us5 _ tasks_owned_kept [OF o user_spaceD(2) [OF us5]]])
      have run: "elf_load cpu file s = Some (e', s')"
        using c False chk m None v3(1) st by (simp add: elf_load_def Let_def)
      show ?thesis
      proof (cases e')
        case (Some x)
        have "card (taken d F 512 v2) \<le> 514"
        proof -
          have "card (F ` {..<512}) \<le> 512" using card_image_le [of "{..<512 :: nat}" F] by simp
          then show ?thesis unfolding taken_def using card_insert_le_m1 [of 513 "F ` {..<512}" d] by (auto simp: card_insert_if)
        qed
        moreover have "card (spare (frames (vm s))) \<le> card (spare (frames v2)) + card (taken d F 512 v2)"
          using spare_grown [OF grown_taken [OF us ex]] user_spaceD(2) [OF us] by (simp add: kept_def taken_def)
        ultimately show ?thesis using Some S run cnt v3(3) by (auto simp: memory_error_def)
      next
        case None
        then obtain t where st: "started ?L (vm s) d F (e_entry (get_ehdr file)) ts ?s t s'" using S by auto
        then have t: "user_space ?L (vm s) d F 512 (vm s')" "\<forall>a. in_user a \<longrightarrow> view d (vm s') a = view d (vm ?s) a"
          "t \<notin> set ts" "ring (store s') (ready_head s') (insert_after t ts)" "page_dir (store s' t) = pg d" "tstate (store s' t) = TASK_READY"
          "cpu_assigned (store s' t) = -1"
          "\<forall>i < 19. rd32 (pmem (vm s')) (kernel_esp (store s' t) + 4 * w32 i) = rev (user_frame (USER_STACK_TOP - 4) (e_entry (get_ehdr file))) ! i"
          by (auto simp: started_def)
        have "lookup d (vm s') a = None" if "unat a < 0x800000" for a
          using user_spaceD(7) [OF t(1), of a] below_user [OF that] that by (auto simp: page_of_def div_less_iff_less_mult)
        then have "user_task file t d s'" using t vw unfolding user_task_def by auto
        moreover have "holds_memory (vm s) t d s'"
        proof -
          obtain b where b: "kernel_stack_base (store s' t) = pg b" "b + 4 \<le> 1048576" "b \<noteq> 0" "page_of t \<notin> {b..<b + 4}"
            "grown (vm ?s) (insert (page_of t) {b..<b + 4}) (vm s')" and tp: "t = pg (page_of t)" "pde d (vm s') 2 = pde d (vm ?s) 2"
            using st unfolding started_def by blast
          have tk: "taken d F 512 (vm ?s) = taken d F 512 v2"
            by (rule taken_same [OF us us5]) (use ex v3(3) in \<open>auto simp: owned_def\<close>)
          have "taken d F 512 (vm s') = taken d F 512 (vm ?s)" using tp(2) by (simp add: taken_def user_table_def)
          moreover have g: "grown (vm s) (taken d F 512 (vm ?s)) (vm ?s)"
            unfolding tk using grown_taken [OF us ex] v3(3) by (simp add: grown_def owned_def)
          moreover have "page_of t \<notin> taken d F 512 (vm ?s)" using b(5) g unfolding grown_def by blast
          moreover have "taken d F 512 (vm ?s) \<union> insert (page_of t) {b..<b + 4} = insert (page_of t) (taken d F 512 (vm ?s) \<union> {b..<b + 4})"
            by blast
          ultimately show ?thesis unfolding holds_memory_def
            using t(1,5) b tp(1) d(2) grown_trans [OF g b(5)] by (intro exI [of _ ?L] exI [of _ F] exI [of _ b]) simp
        qed
        ultimately show ?thesis using None run t(3,4) user_spaceD(2) [OF t(1)] by auto
      qed
    qed
  qed
qed

section \<open>Properties\<close>

text \<open>
  C22: The validation of an executable accepts exactly the valid files: in unbounded arithmetic, the
  header and the whole table of program headers lie inside the file, the entry point is in the user
  range, and of every loadable segment the bytes of the file lie inside the file, do not exceed its size in
  memory, and the segment begins and ends in the user range; with one exception, which
  is also exact: the end of a segment is compared after wrapping around, so a segment whose
  end lies beyond 4 GB is accepted.
\<close>

theorem elf_check_exact:
  assumes "length file \<le> 131072"
  shows "elf_check file = None \<longleftrightarrow> elf_valid file"
  by (rule elf_check_iff [OF assms])

text \<open>A program of one segment with two bytes of code and two bytes of zeros behind them.\<close>

definition ex_elf :: "u8 list" where
  "ex_elf = [0x7F, 0x45, 0x4C, 0x46, 1, 1, 1, 0, 0, 0, 0, 0, 0, 0, 0, 0, 2, 0, 3, 0, 1, 0, 0, 0,
     0, 0, 0x80, 0, 52, 0, 0, 0, 0, 0, 0, 0, 0, 0, 0, 0, 52, 0, 32, 0, 1, 0, 0, 0, 0, 0, 0, 0] @
     [1, 0, 0, 0, 84, 0, 0, 0, 0, 0, 0x80, 0, 0, 0, 0x80, 0, 2, 0, 0, 0, 4, 0, 0, 0, 5, 0, 0, 0, 0, 0, 0, 0] @ [0xEB, 0xFE]"

text \<open>The same program with a size in memory that wraps around.\<close>

definition ex_wrap :: "u8 list" where
  "ex_wrap = ex_elf[72 := 0, 73 := 0, 74 := 0x80, 75 := 0xFF]"

lemma ex_elf_headers:
  "get_ehdr ex_elf = \<lparr>e_ident = [0x7F, 0x45, 0x4C, 0x46, 1, 1, 1, 0, 0, 0, 0, 0, 0, 0, 0, 0], e_type = 2, e_machine = 3,
     e_version = 1, e_entry = 0x800000, e_phoff = 52, e_shoff = 0, e_flags = 0, e_ehsize = 52, e_phentsize = 32, e_phnum = 1,
     e_shentsize = 0, e_shnum = 0, e_shstrndx = 0\<rparr>"
  "phdrs ex_elf = [\<lparr>p_type = PT_LOAD, p_offset = 84, p_vaddr = 0x800000, p_paddr = 0x800000, p_filesz = 2, p_memsz = 4,
     p_flags = 5, p_align = 0\<rparr>]"
proof -
  show h: "get_ehdr ex_elf = \<lparr>e_ident = [0x7F, 0x45, 0x4C, 0x46, 1, 1, 1, 0, 0, 0, 0, 0, 0, 0, 0, 0], e_type = 2, e_machine = 3,
     e_version = 1, e_entry = 0x800000, e_phoff = 52, e_shoff = 0, e_flags = 0, e_ehsize = 52, e_phentsize = 32, e_phnum = 1,
     e_shentsize = 0, e_shnum = 0, e_shstrndx = 0\<rparr>"
    by (simp add: get_ehdr_def ex_elf_def file32_def file16_def de32_def ELF_MAGIC_def)
  show "phdrs ex_elf = [\<lparr>p_type = PT_LOAD, p_offset = 84, p_vaddr = 0x800000, p_paddr = 0x800000, p_filesz = 2, p_memsz = 4,
     p_flags = 5, p_align = 0\<rparr>]"
    unfolding phdrs_def h Let_def
    by (simp add: phdr_pos_def get_phdr_def ex_elf_def file32_def de32_def PT_LOAD_def)
qed

lemma ex_wrap_headers:
  "get_ehdr ex_wrap = get_ehdr ex_elf"
  "phdrs ex_wrap = [\<lparr>p_type = PT_LOAD, p_offset = 84, p_vaddr = 0x800000, p_paddr = 0x800000, p_filesz = 2, p_memsz = 0xFF800000,
     p_flags = 5, p_align = 0\<rparr>]"
proof -
  show h: "get_ehdr ex_wrap = get_ehdr ex_elf"
    by (simp add: get_ehdr_def ex_wrap_def file32_def file16_def)
  show "phdrs ex_wrap = [\<lparr>p_type = PT_LOAD, p_offset = 84, p_vaddr = 0x800000, p_paddr = 0x800000, p_filesz = 2, p_memsz = 0xFF800000,
     p_flags = 5, p_align = 0\<rparr>]"
    unfolding phdrs_def h ex_elf_headers Let_def
    by (simp add: phdr_pos_def get_phdr_def ex_wrap_def ex_elf_def file32_def de32_def PT_LOAD_def)
qed

lemma ex_length: "length ex_elf = 86" "length ex_wrap = 86"
  by (simp_all add: ex_wrap_def ex_elf_def)

lemma ex_valid: "elf_valid ex_elf" "elf_valid ex_wrap"
  by (simp_all add: elf_valid_def ex_length ex_elf_headers ex_wrap_headers seg_valid_def wraps_def file32_def de32_def ELF_MAGIC_def)

theorem elf_check_exact_witness:
  "elf_check ex_elf = None \<and> elf_check ex_wrap = None \<and> elf_check [0x7F] \<noteq> None \<and> wraps (hd (phdrs ex_wrap))"
proof -
  have "\<not> elf_valid [0x7F]" by (simp add: elf_valid_def)
  moreover have "wraps (hd (phdrs ex_wrap))" by (simp add: ex_wrap_headers wraps_def)
  ultimately show ?thesis using elf_check_exact [of ex_elf] elf_check_exact [of ex_wrap] elf_check_exact [of "[0x7F]"] ex_valid ex_length by simp
qed

text \<open>
  C1: Loading an executable always returns, without a page fault, when no segment
  wraps around; and whatever its result, the kernel keeps its mappings, no frame in use is freed
  and the contents of no frame in use change. It fails for an invalid file, or because at most 514
  frames were free, or at most 515 aligned groups of four free frames. Otherwise the ring of tasks has
  one more task, ready to run, whose
  address space shows the image of the program over the user range (every segment, zeros up to its
  size in memory, the exit trampoline, the return address on the stack), and whose kernel stack holds the frame that starts it in user mode at
  the entry point. The address space maps nothing below 8 MB, where the kernel lies.
\<close>

theorem elf_load_program:
  assumes wf: "vm_wf k (vm s)" and kd: "kernel_page_dir (vm s) = pg k" and r: "ring (store s) (ready_head s) ts"
    and o: "tasks_owned (vm s) ts" and len: "length file \<le> 131072"
    and nowrap: "\<forall>p \<in> set (phdrs file). p_type p = PT_LOAD \<longrightarrow> \<not> wraps p"
  shows "\<exists>e s'. elf_load cpu file s = Some (e, s') \<and> kept (vm s) (vm s') \<and> (\<forall>a. lookup k (vm s') a = lookup k (vm s) a) \<and>
    (case e of
       Some x \<Rightarrow> (elf_check file = Some x \<or> memory_error x (frames (vm s))) \<and> ring (store s') (ready_head s') ts
     | None \<Rightarrow> elf_valid file \<and>
         (\<exists>t d. t \<notin> set ts \<and> ring (store s') (ready_head s') (insert_after t ts) \<and> user_task file t d s'))"
proof (cases "elf_check file")
  case None
  then have valid: "elf_valid file" using elf_check_iff [OF len] by simp
  then have fits: "seg_fits file p" if "p \<in> set (phdrs file)" "p_type p = PT_LOAD" for p
    using that nowrap seg_valid_fits by (auto simp: elf_valid_def)
  obtain e s' where "elf_load cpu file s = Some (e, s')" "kept (vm s) (vm s')"
    "case e of Some x \<Rightarrow> memory_error x (frames (vm s)) \<and> ring (store s') (ready_head s') ts
     | None \<Rightarrow> \<exists>t d. t \<notin> set ts \<and> ring (store s') (ready_head s') (insert_after t ts) \<and> user_task file t d s' \<and>
         holds_memory (vm s) t d s'"
    using elf_load_valid [OF wf kd r o None fits] by blast
  moreover from this kept_kernel(1) [OF _ wf] have "\<forall>a. lookup k (vm s') a = lookup k (vm s) a" by blast
  ultimately show ?thesis using valid by (intro exI [of _ e] exI [of _ s']) (auto split: option.splits)
next
  case (Some x)
  then have "elf_load cpu file s = Some (Some x, s)" by (simp add: elf_load_def)
  then show ?thesis using Some r kept_refl wf by (auto simp: vm_wf_def)
qed

text \<open>A machine with 4096 frames, of which the first two are taken by nothing and by an empty directory.\<close>

definition big_sys :: tsys where
  "big_sys = boot_tsys\<lparr>vm := sample_vm\<lparr>frames := pfa_set_bit 1 \<lparr>bitmap = (\<lambda>i. if i = 0 then 1 else 0), total_frames = 4096\<rparr>\<rparr>\<rparr>"

lemma big_sys_wf: "vm_wf 1 (vm big_sys)" "kernel_page_dir (vm big_sys) = pg 1"
  and big_sys_room: "514 < get_free_frame_count (frames (vm big_sys))" "515 < card (spare (frames (vm big_sys)))"
proof -
  let ?p = "\<lparr>bitmap = (\<lambda>i. if i = 0 then 1 else 0), total_frames = 4096\<rparr>"
  have fr: "frames (vm big_sys) = pfa_set_bit 1 ?p" by (simp add: big_sys_def)
  have p: "pfa_wf (pfa_set_bit 1 ?p)" by (intro pfa_wf_set_bit) (simp add: pfa_wf_def test_bit_def pfa_consts)
  have o: "owned (vm big_sys) 1" by (simp add: owned_def fr frames.test_mark w32_def)
  have z: "pde 1 (vm big_sys) i = 0" for i
    by (simp add: pde_def entry_def big_sys_def sample_vm_def rd32_def de32_def)
  show "vm_wf 1 (vm big_sys)" using empty_dir(1) [OF p o fr z] .
  show "kernel_page_dir (vm big_sys) = pg 1" by (simp add: big_sys_def sample_vm_def)
  have free: "\<not> test_bit (pfa_set_bit 1 ?p) (w32 n)" if "8 \<le> n" "n < 4096" for n
  proof -
    have "unat (w32 n div 8) \<noteq> 0" "w32 n \<noteq> 1" using that by (auto simp: unat_div word_unat_eq_iff)
    moreover from this have "\<not> test_bit ?p (w32 n)" by (auto simp: test_bit_def)
    ultimately show ?thesis by (simp add: frames.test_mark)
  qed
  have "w32 ` {8..<600} \<subseteq> {f. f < 4096 \<and> \<not> test_bit (pfa_set_bit 1 ?p) f}"
    using free by (auto simp: word_less_nat_alt)
  then have "card (w32 ` {8..<600}) \<le> card {f. f < 4096 \<and> \<not> test_bit (pfa_set_bit 1 ?p) f}" by (intro card_mono) simp_all
  moreover have "card (w32 ` {8..<600}) = 592" by (subst card_image) (auto simp: inj_on_def)
  ultimately show "514 < get_free_frame_count (frames (vm big_sys))" by (simp add: free_count_card fr)
  have "{2..<1024} \<subseteq> spare (frames (vm big_sys))" unfolding spare_def fr using free by auto
  from card_mono [OF finite_spare this] show "515 < card (spare (frames (vm big_sys)))" by simp
qed

theorem elf_load_program_witness:
  "\<exists>e s'. elf_load 0 ex_elf big_sys = Some (e, s') \<and> kept (vm big_sys) (vm s') \<and>
     e = None \<and> (\<exists>t d. user_task ex_elf t d s')"
proof -
  have "ring (store big_sys) (ready_head big_sys) []" "tasks_owned (vm big_sys) []"
    by (simp_all add: big_sys_def boot_tsys_def ring_def tasks_owned_def)
  moreover have "length ex_elf \<le> 131072" "\<forall>p \<in> set (phdrs ex_elf). p_type p = PT_LOAD \<longrightarrow> \<not> wraps p"
    by (simp_all add: ex_length ex_elf_headers wraps_def)
  ultimately obtain e s' where e: "elf_load 0 ex_elf big_sys = Some (e, s')" "kept (vm big_sys) (vm s')"
    "case e of
       Some x \<Rightarrow> (elf_check ex_elf = Some x \<or> memory_error x (frames (vm big_sys))) \<and> ring (store s') (ready_head s') []
     | None \<Rightarrow> elf_valid ex_elf \<and>
         (\<exists>t d. t \<notin> set [] \<and> ring (store s') (ready_head s') (insert_after t []) \<and> user_task ex_elf t d s')"
    using elf_load_program [OF big_sys_wf(1,2), of "[]" ex_elf 0] by blast
  moreover have "elf_check ex_elf = None" using elf_check_iff [of ex_elf] ex_valid ex_length by simp
  ultimately show ?thesis using big_sys_room by (cases e) (auto simp: memory_error_def)
qed

end
