(* ===== verification/Serial.thy ===== *)
theory Serial
  imports Ports
begin

text \<open>
  The serial line of \<^verbatim>\<open>kernel/drivers/serial.c\<close>, and the formatting of numbers that it shares with
  the screen. A string is the list of its bytes, up to a terminator if there is one. \<open>None\<close> stands for a
  transmitter that never becomes empty.
\<close>

section \<open>Numbers\<close>

definition hex_digit :: "u32 \<Rightarrow> u8" where
  "hex_digit nibble = (if nibble < 10 then 48 + ucast nibble else 65 + ucast nibble - 10)"

text \<open>The loops fill the buffer from its end.\<close>

fun hex_loop :: "nat \<Rightarrow> u32 \<Rightarrow> u8 list \<Rightarrow> u8 list" where
  "hex_loop 0 num acc = acc"
| "hex_loop (Suc i) num acc = hex_loop i (drop_bit 4 num) (hex_digit (num AND 0x0F) # acc)"

definition hex_string :: "u32 \<Rightarrow> u8 list" where
  "hex_string num = [48, 120] @ hex_loop 8 num []"

fun dec_loop :: "nat \<Rightarrow> u32 \<Rightarrow> u8 list \<Rightarrow> u8 list" where
  "dec_loop 0 num acc = acc"
| "dec_loop (Suc i) num acc = (if num = 0 then acc else dec_loop i (num div 10) ((48 + ucast (num mod 10)) # acc))"

definition dec_string :: "u32 \<Rightarrow> u8 list" where
  "dec_string num = (if num = 0 then [48] else dec_loop 11 num [])"

section \<open>The line\<close>

definition COM1 :: u16 where "COM1 = 0x3F8"

definition init_serial :: "'a io_scheme \<Rightarrow> 'a io_scheme" where
  "init_serial s =
     (let s = outb (COM1 + 1) 0x00 s;
          s = outb (COM1 + 3) 0x80 s;
          s = outb (COM1 + 0) 0x01 s;
          s = outb (COM1 + 1) 0x00 s;
          s = outb (COM1 + 3) 0x03 s;
          s = outb (COM1 + 2) 0xC7 s
      in outb (COM1 + 4) 0x0B s)"

definition is_transmit_empty :: "'a io_scheme \<Rightarrow> bool \<times> 'a io_scheme" where
  "is_transmit_empty s = (case inb (COM1 + 5) s of (v, s) \<Rightarrow> (v AND 0x20 \<noteq> 0, s))"

partial_function (option) tx_wait :: "'a io_scheme \<Rightarrow> 'a io_scheme option" where
  "tx_wait s = (case is_transmit_empty s of (ok, s) \<Rightarrow> if ok then Some s else tx_wait s)"

definition serial_write_char :: "u8 \<Rightarrow> 'a io_scheme \<Rightarrow> 'a io_scheme option" where
  "serial_write_char c s = Option.bind (tx_wait s) (\<lambda>s. Some (outb COM1 c (if c = 10 then outb COM1 13 s else s)))"

fun serial_write_string :: "u8 list \<Rightarrow> 'a io_scheme \<Rightarrow> 'a io_scheme option" where
  "serial_write_string [] s = Some s"
| "serial_write_string (c # cs) s = (if c = 0 then Some s else Option.bind (serial_write_char c s) (serial_write_string cs))"

definition serial_write_hex :: "u32 \<Rightarrow> 'a io_scheme \<Rightarrow> 'a io_scheme option" where
  "serial_write_hex num s = serial_write_string (hex_string num) s"

definition serial_write_int :: "u32 \<Rightarrow> 'a io_scheme \<Rightarrow> 'a io_scheme option" where
  "serial_write_int num s = serial_write_string (dec_string num) s"

definition serial_data_available :: "'a io_scheme \<Rightarrow> bool \<times> 'a io_scheme" where
  "serial_data_available s = (case inb (COM1 + 5) s of (v, s) \<Rightarrow> (v AND 1 \<noteq> 0, s))"

partial_function (option) rx_wait :: "'a io_scheme \<Rightarrow> 'a io_scheme option" where
  "rx_wait s = (case serial_data_available s of (ok, s) \<Rightarrow> if ok then Some s else rx_wait s)"

definition serial_read_char :: "'a io_scheme \<Rightarrow> (u8 \<times> 'a io_scheme) option" where
  "serial_read_char s = Option.bind (rx_wait s) (\<lambda>s. Some (inb COM1 s))"

section \<open>What is printed\<close>

text \<open>The value of a string of digits.\<close>

definition dec_value :: "u8 list \<Rightarrow> nat" where
  "dec_value cs = foldl (\<lambda>v c. 10 * v + (unat c - 48)) 0 cs"

definition hex_value :: "u8 list \<Rightarrow> nat" where
  "hex_value cs = foldl (\<lambda>v c. 16 * v + (if c < 58 then unat c - 48 else unat c - 55)) 0 cs"

lemma foldl_digits: "foldl (\<lambda>v c. b * v + f c) x cs = x * b ^ length cs + foldl (\<lambda>v c. b * v + f c) 0 cs" for b :: nat
proof (induction cs arbitrary: x)
  case (Cons c cs)
  show ?case using Cons.IH [of "b * x + f c"] Cons.IH [of "f c"] by (simp add: algebra_simps)
qed simp

lemma dec_digit: "unat (48 + ucast (num mod 10) :: u8) = 48 + unat num mod 10" for num :: u32
proof -
  have "unat (num mod 10) = unat num mod 10" by (simp add: unat_mod)
  then have "unat (ucast (num mod 10) :: u8) = unat num mod 10" by (simp add: unsigned_ucast_eq take_bit_nat_eq_self)
  then show ?thesis by (simp add: unat_word_ariths)
qed

lemma dec_loop_value:
  "unat num < 10 ^ n \<Longrightarrow> \<exists>ds. dec_loop n num acc = ds @ acc \<and> dec_value ds = unat num \<and>
     (\<forall>c \<in> set ds. 48 \<le> c \<and> c \<le> 57) \<and> (unat num \<noteq> 0 \<longrightarrow> ds \<noteq> [] \<and> hd ds \<noteq> 48)"
proof (induction n arbitrary: num acc)
  case 0
  then show ?case by (auto simp: dec_value_def)
next
  case (Suc n)
  show ?case
  proof (cases "num = 0")
    case False
    let ?d = "48 + ucast (num mod 10) :: u8"
    have q: "unat (num div 10) = unat num div 10" by (simp add: unat_div)
    then have "unat (num div 10) < 10 ^ n" using Suc.prems by (simp add: div_less_iff_less_mult)
    from Suc.IH [OF this, of "?d # acc"] obtain ds where ds: "dec_loop n (num div 10) (?d # acc) = ds @ ?d # acc"
      "dec_value ds = unat num div 10" "\<forall>c \<in> set ds. 48 \<le> c \<and> c \<le> 57" "unat num div 10 \<noteq> 0 \<longrightarrow> ds \<noteq> [] \<and> hd ds \<noteq> 48" using q by auto
    have d: "unat ?d = 48 + unat num mod 10" by (rule dec_digit)
    have "dec_value (ds @ [?d]) = unat num" using ds(2) d by (simp add: dec_value_def)
    moreover have "48 \<le> ?d" "?d \<le> 57" unfolding word_le_nat_alt d by simp_all
    moreover have "hd (ds @ [?d]) \<noteq> 48"
    proof (cases "unat num div 10 = 0")
      case True
      have "unat num \<noteq> 0" using False by (simp add: unat_eq_0)
      then have "?d \<noteq> 48" using True d by (auto simp: word_unat_eq_iff)
      moreover have "ds = []" using ds(1) True q by (cases n) (auto simp: word_unat_eq_iff)
      ultimately show ?thesis by simp
    qed (use ds(4) in auto)
    ultimately show ?thesis using ds(1,3) False by (intro exI [of _ "ds @ [?d]"]) auto
  qed (auto simp: dec_value_def intro: exI [of _ "[]"])
qed

text \<open>The decimal numeral of a number, without leading zeros, in at most ten digits.\<close>

lemma dec_string_value:
  "dec_value (dec_string num) = unat num \<and> (\<forall>c \<in> set (dec_string num). 48 \<le> c \<and> c \<le> 57) \<and>
   (num = 0 \<longrightarrow> dec_string num = [48]) \<and> (num \<noteq> 0 \<longrightarrow> hd (dec_string num) \<noteq> 48)"
proof (cases "num = 0")
  case True
  then show ?thesis by (simp add: dec_string_def dec_value_def)
next
  case False
  have "unat num < 10 ^ 11" using unat_lt_2p32 [of num] by (simp del: unat_lt_2p32)
  from dec_loop_value [OF this, of "[]"] False show ?thesis by (auto simp: dec_string_def unat_eq_0)
qed

lemma hex_digit_value: "nib < 16 \<Longrightarrow> (if hex_digit nib < 58 then unat (hex_digit nib) - 48 else unat (hex_digit nib) - 55) = unat nib"
  for nib :: u32
proof -
  assume n: "nib < 16"
  then have u: "unat (ucast nib :: u8) = unat nib" by (simp add: unsigned_ucast_eq take_bit_nat_eq_self word_less_nat_alt)
  show ?thesis
  proof (cases "nib < 10")
    case True
    then have "unat (48 + ucast nib :: u8) = 48 + unat nib" using u by (simp add: unat_word_ariths word_less_nat_alt)
    then show ?thesis using True by (simp add: hex_digit_def word_less_nat_alt)
  next
    case False
    have "unat (55 + ucast nib :: u8) = 55 + unat nib" using u n by (simp add: unat_word_ariths word_less_nat_alt)
    then show ?thesis using False n by (simp add: hex_digit_def word_less_nat_alt)
  qed
qed

lemma hex_loop_value:
  "\<exists>ds. hex_loop n num acc = ds @ acc \<and> length ds = n \<and> hex_value ds = unat num mod 16 ^ n"
proof (induction n arbitrary: num acc)
  case 0
  then show ?case by (simp add: hex_value_def)
next
  case (Suc n)
  let ?d = "hex_digit (num AND 0x0F)"
  have q: "unat (drop_bit 4 num) = unat num div 16" by (simp add: drop_bit_eq_div unat_div)
  have "num AND 0x0F = take_bit 4 num" by (simp add: take_bit_eq_mask mask_eq_exp_minus_1)
  then have "num AND 0x0F = num mod 16" by (simp add: take_bit_eq_mod)
  then have r: "unat (num AND 0x0F) = unat num mod 16" by (simp add: unat_mod)
  then have "num AND 0x0F < 16" by (simp add: word_less_nat_alt)
  from hex_digit_value [OF this] r have dv: "(if ?d < 58 then unat ?d - 48 else unat ?d - 55) = unat num mod 16" by simp
  obtain ds where ds: "hex_loop n (drop_bit 4 num) (?d # acc) = ds @ ?d # acc" "length ds = n" "hex_value ds = unat num div 16 mod 16 ^ n"
    using Suc.IH [of "drop_bit 4 num" "?d # acc"] q by auto
  have "hex_value (ds @ [?d]) = 16 * (unat num div 16 mod 16 ^ n) + unat num mod 16"
    using ds(3) dv by (simp add: hex_value_def)
  also have "\<dots> = unat num mod 16 ^ Suc n" by (simp add: mod_mult2_eq [of "unat num" 16 "16 ^ n"])
  finally show ?case using ds by (intro exI [of _ "ds @ [?d]"]) simp
qed

lemma hex_string_value: "\<exists>ds. hex_string num = [48, 120] @ ds \<and> length ds = 8 \<and> hex_value ds = unat num"
proof -
  have "unat num mod 16 ^ 8 = unat num" using unat_lt_2p32 [of num] by (simp del: unat_lt_2p32)
  then show ?thesis using hex_loop_value [of 8 num "[]"] by (auto simp: hex_string_def)
qed

section \<open>What is sent\<close>

text \<open>The transmitter becomes empty again and again.\<close>

definition tx_live :: "'a io_scheme \<Rightarrow> bool" where
  "tx_live s \<longleftrightarrow> (\<forall>k. \<exists>n \<ge> k. (ucast (port_in s (COM1 + 5) n) :: u8) AND 0x20 \<noteq> 0)"

definition sent :: "'a io_scheme \<Rightarrow> u8 list" where
  "sent s = map (\<lambda>w. ucast (snd w)) (filter (\<lambda>w. fst w = COM1) (port_out s))"

text \<open>Line feeds are preceded by carriage returns.\<close>

definition with_cr :: "u8 list \<Rightarrow> u8 list" where
  "with_cr cs = concat (map (\<lambda>c. if c = 10 then [13, 10] else [c]) cs)"

lemma tx_live_inb: "tx_live s \<Longrightarrow> tx_live (snd (inb p s))"
proof (cases "p = COM1 + 5")
  case True
  assume l: "tx_live s"
  show ?thesis unfolding tx_live_def
  proof
    fix k
    obtain n where n: "n \<ge> Suc k" "(ucast (port_in s (COM1 + 5) n) :: u8) AND 0x20 \<noteq> 0" using l unfolding tx_live_def by blast
    then show "\<exists>n \<ge> k. (ucast (port_in (snd (inb p s)) (COM1 + 5) n) :: u8) AND 0x20 \<noteq> 0"
      using True by (intro exI [of _ "n - 1"]) (auto simp: inb_def inl_def)
  qed
qed (auto simp: tx_live_def inb_def inl_def)

lemma sent_inb [simp]: "sent (snd (inb p s)) = sent s" by (simp add: sent_def inb_def inl_def)

lemma tx_wait_returns:
  assumes "tx_live s"
  shows "\<exists>s'. tx_wait s = Some s' \<and> tx_live s' \<and> sent s' = sent s \<and> io.more s' = io.more s"
proof -
  obtain n where n: "(ucast (port_in s (COM1 + 5) n) :: u8) AND 0x20 \<noteq> 0" using assms unfolding tx_live_def by blast
  then show ?thesis using assms
  proof (induction n arbitrary: s)
    case 0
    obtain v s1 where i: "inb (COM1 + 5) s = (v, s1)" by fastforce
    then have "v AND 0x20 \<noteq> 0" using 0 by (auto simp: inb_def inl_def)
    then show ?case using i tx_live_inb [OF 0(2), of "COM1 + 5"] sent_inb [of "COM1 + 5" s] io_more(3) [of "COM1 + 5" s]
      by (simp add: tx_wait.simps [of s] is_transmit_empty_def)
  next
    case (Suc n)
    obtain v s1 where i: "inb (COM1 + 5) s = (v, s1)" by fastforce
    have s1: "tx_live s1" "sent s1 = sent s" "io.more s1 = io.more s"
      using i tx_live_inb [OF Suc.prems(2), of "COM1 + 5"] sent_inb [of "COM1 + 5" s] io_more(3) [of "COM1 + 5" s] by simp_all
    have "(ucast (port_in s1 (COM1 + 5) n) :: u8) AND 0x20 \<noteq> 0" using Suc.prems(1) i by (auto simp: inb_def inl_def)
    from Suc.IH [OF this s1(1)] s1 i show ?case by (auto simp: tx_wait.simps [of s] is_transmit_empty_def)
  qed
qed

lemma tx_live_outb [simp]: "tx_live (outb p v s) = tx_live s" by (simp add: tx_live_def outb_def outl_def)

lemma ucast_u8_u32 [simp]: "ucast (ucast (c :: u8) :: u32) = c"
  by (rule bit_word_eqI) (simp add: bit_ucast_iff)

lemma sent_outb: "sent (outb p v s) = (if p = COM1 then sent s @ [v] else sent s)"
  by (simp add: sent_def outb_def outl_def)

text \<open>The whole string goes out, once.\<close>

lemma serial_write_string_sent:
  assumes "tx_live s"
  shows "\<exists>s'. serial_write_string cs s = Some s' \<and> tx_live s' \<and>
     sent s' = sent s @ with_cr (takeWhile (\<lambda>c. c \<noteq> 0) cs) \<and> io.more s' = io.more s"
  using assms
proof (induction cs arbitrary: s)
  case (Cons c cs)
  obtain s1 where s1: "tx_wait s = Some s1" "tx_live s1" "sent s1 = sent s" "io.more s1 = io.more s"
    using tx_wait_returns [OF Cons.prems] by blast
  let ?s = "outb COM1 c (if c = 10 then outb COM1 13 s1 else s1)"
  have "serial_write_char c s = Some ?s" "tx_live ?s" "io.more ?s = io.more s" using s1 by (simp_all add: serial_write_char_def)
  moreover have "sent ?s = sent s @ with_cr [c]" using s1 by (simp add: sent_outb with_cr_def)
  ultimately show ?case using Cons.IH [of ?s] Cons.prems by (auto simp: with_cr_def)
qed (simp add: with_cr_def)

end
