(* ===== verification/Graphics.thy ===== *)
theory Graphics
  imports Ports
begin

text \<open>
  The frame buffer of \<^verbatim>\<open>kernel/drivers/graphics.c\<close> and the font of \<^verbatim>\<open>kernel/drivers/font.h\<close>. The
  memory of the frame buffer is indexed by the distance from \<open>lfb_ptr\<close>, which may be negative where
  the code computes such an address.
\<close>

section \<open>The font\<close>

definition FONT_WIDTH :: int where "FONT_WIDTH = 8"
definition FONT_HEIGHT :: int where "FONT_HEIGHT = 16"
definition FONT_FIRST_CHAR :: u8 where "FONT_FIRST_CHAR = 32"
definition FONT_LAST_CHAR :: u8 where "FONT_LAST_CHAR = 126"

definition font_data :: "u8 list list" where
  "font_data =
    [[0, 0, 0, 0, 0, 0, 0, 0, 0, 0, 0, 0, 0, 0, 0, 0],
     [0, 0, 24, 60, 60, 60, 24, 24, 24, 0, 24, 24, 0, 0, 0, 0],
     [0, 102, 102, 102, 102, 0, 0, 0, 0, 0, 0, 0, 0, 0, 0, 0],
     [0, 0, 102, 102, 255, 102, 102, 255, 102, 102, 0, 0, 0, 0, 0, 0],
     [0, 24, 62, 96, 96, 60, 6, 6, 124, 24, 0, 0, 0, 0, 0, 0],
     [0, 0, 99, 102, 12, 24, 48, 102, 198, 0, 0, 0, 0, 0, 0, 0],
     [0, 0, 56, 108, 108, 56, 118, 220, 204, 118, 0, 0, 0, 0, 0, 0],
     [0, 48, 48, 48, 96, 0, 0, 0, 0, 0, 0, 0, 0, 0, 0, 0],
     [0, 0, 12, 24, 48, 48, 48, 48, 48, 24, 12, 0, 0, 0, 0, 0],
     [0, 0, 48, 24, 12, 12, 12, 12, 12, 24, 48, 0, 0, 0, 0, 0],
     [0, 0, 0, 102, 60, 255, 60, 102, 0, 0, 0, 0, 0, 0, 0, 0],
     [0, 0, 0, 24, 24, 126, 24, 24, 0, 0, 0, 0, 0, 0, 0, 0],
     [0, 0, 0, 0, 0, 0, 0, 0, 24, 24, 24, 48, 0, 0, 0, 0],
     [0, 0, 0, 0, 0, 126, 0, 0, 0, 0, 0, 0, 0, 0, 0, 0],
     [0, 0, 0, 0, 0, 0, 0, 0, 24, 24, 0, 0, 0, 0, 0, 0],
     [0, 0, 3, 6, 12, 24, 48, 96, 192, 0, 0, 0, 0, 0, 0, 0],
     [0, 0, 60, 102, 110, 118, 102, 102, 102, 60, 0, 0, 0, 0, 0, 0],
     [0, 0, 24, 56, 24, 24, 24, 24, 24, 126, 0, 0, 0, 0, 0, 0],
     [0, 0, 60, 102, 6, 12, 24, 48, 96, 126, 0, 0, 0, 0, 0, 0],
     [0, 0, 60, 102, 6, 28, 6, 6, 102, 60, 0, 0, 0, 0, 0, 0],
     [0, 0, 12, 28, 60, 108, 204, 254, 12, 12, 0, 0, 0, 0, 0, 0],
     [0, 0, 126, 96, 96, 124, 6, 6, 102, 60, 0, 0, 0, 0, 0, 0],
     [0, 0, 60, 102, 96, 124, 102, 102, 102, 60, 0, 0, 0, 0, 0, 0],
     [0, 0, 126, 6, 6, 12, 24, 48, 48, 48, 0, 0, 0, 0, 0, 0],
     [0, 0, 60, 102, 102, 60, 102, 102, 102, 60, 0, 0, 0, 0, 0, 0],
     [0, 0, 60, 102, 102, 102, 62, 6, 102, 60, 0, 0, 0, 0, 0, 0],
     [0, 0, 0, 24, 24, 0, 0, 0, 24, 24, 0, 0, 0, 0, 0, 0],
     [0, 0, 0, 24, 24, 0, 0, 0, 24, 24, 24, 48, 0, 0, 0, 0],
     [0, 0, 6, 12, 24, 48, 24, 12, 6, 0, 0, 0, 0, 0, 0, 0],
     [0, 0, 0, 0, 126, 0, 126, 0, 0, 0, 0, 0, 0, 0, 0, 0],
     [0, 0, 96, 48, 24, 12, 24, 48, 96, 0, 0, 0, 0, 0, 0, 0],
     [0, 0, 60, 102, 6, 12, 24, 24, 0, 24, 24, 0, 0, 0, 0, 0],
     [0, 0, 60, 102, 110, 110, 110, 96, 102, 60, 0, 0, 0, 0, 0, 0],
     [0, 0, 24, 60, 102, 102, 102, 126, 102, 102, 0, 0, 0, 0, 0, 0],
     [0, 0, 124, 102, 102, 124, 102, 102, 102, 124, 0, 0, 0, 0, 0, 0],
     [0, 0, 60, 102, 96, 96, 96, 96, 102, 60, 0, 0, 0, 0, 0, 0],
     [0, 0, 120, 108, 102, 102, 102, 102, 108, 120, 0, 0, 0, 0, 0, 0],
     [0, 0, 126, 96, 96, 124, 96, 96, 96, 126, 0, 0, 0, 0, 0, 0],
     [0, 0, 126, 96, 96, 124, 96, 96, 96, 96, 0, 0, 0, 0, 0, 0],
     [0, 0, 60, 102, 96, 96, 110, 102, 102, 62, 0, 0, 0, 0, 0, 0],
     [0, 0, 102, 102, 102, 126, 102, 102, 102, 102, 0, 0, 0, 0, 0, 0],
     [0, 0, 60, 24, 24, 24, 24, 24, 24, 60, 0, 0, 0, 0, 0, 0],
     [0, 0, 30, 6, 6, 6, 6, 6, 102, 60, 0, 0, 0, 0, 0, 0],
     [0, 0, 102, 108, 120, 112, 120, 108, 102, 102, 0, 0, 0, 0, 0, 0],
     [0, 0, 96, 96, 96, 96, 96, 96, 96, 126, 0, 0, 0, 0, 0, 0],
     [0, 0, 198, 238, 254, 254, 214, 198, 198, 198, 0, 0, 0, 0, 0, 0],
     [0, 0, 102, 118, 126, 126, 110, 102, 102, 102, 0, 0, 0, 0, 0, 0],
     [0, 0, 60, 102, 102, 102, 102, 102, 102, 60, 0, 0, 0, 0, 0, 0],
     [0, 0, 124, 102, 102, 102, 124, 96, 96, 96, 0, 0, 0, 0, 0, 0],
     [0, 0, 60, 102, 102, 102, 102, 110, 60, 6, 0, 0, 0, 0, 0, 0],
     [0, 0, 124, 102, 102, 102, 124, 108, 102, 102, 0, 0, 0, 0, 0, 0],
     [0, 0, 60, 102, 96, 60, 6, 6, 102, 60, 0, 0, 0, 0, 0, 0],
     [0, 0, 126, 24, 24, 24, 24, 24, 24, 24, 0, 0, 0, 0, 0, 0],
     [0, 0, 102, 102, 102, 102, 102, 102, 102, 60, 0, 0, 0, 0, 0, 0],
     [0, 0, 102, 102, 102, 102, 102, 102, 60, 24, 0, 0, 0, 0, 0, 0],
     [0, 0, 198, 198, 198, 198, 214, 254, 108, 108, 0, 0, 0, 0, 0, 0],
     [0, 0, 102, 102, 60, 24, 60, 102, 102, 102, 0, 0, 0, 0, 0, 0],
     [0, 0, 102, 102, 102, 60, 24, 24, 24, 24, 0, 0, 0, 0, 0, 0],
     [0, 0, 126, 6, 12, 24, 48, 96, 96, 126, 0, 0, 0, 0, 0, 0],
     [0, 0, 60, 48, 48, 48, 48, 48, 48, 60, 0, 0, 0, 0, 0, 0],
     [0, 0, 192, 96, 48, 24, 12, 6, 3, 0, 0, 0, 0, 0, 0, 0],
     [0, 0, 60, 12, 12, 12, 12, 12, 12, 60, 0, 0, 0, 0, 0, 0],
     [0, 24, 60, 102, 0, 0, 0, 0, 0, 0, 0, 0, 0, 0, 0, 0],
     [0, 0, 0, 0, 0, 0, 0, 0, 0, 0, 0, 0, 126, 0, 0, 0],
     [0, 48, 24, 12, 0, 0, 0, 0, 0, 0, 0, 0, 0, 0, 0, 0],
     [0, 0, 0, 0, 60, 6, 62, 102, 102, 62, 0, 0, 0, 0, 0, 0],
     [0, 0, 96, 96, 124, 102, 102, 102, 102, 124, 0, 0, 0, 0, 0, 0],
     [0, 0, 0, 0, 60, 102, 96, 96, 102, 60, 0, 0, 0, 0, 0, 0],
     [0, 0, 6, 6, 62, 102, 102, 102, 102, 62, 0, 0, 0, 0, 0, 0],
     [0, 0, 0, 0, 60, 102, 126, 96, 102, 60, 0, 0, 0, 0, 0, 0],
     [0, 0, 28, 48, 124, 48, 48, 48, 48, 48, 0, 0, 0, 0, 0, 0],
     [0, 0, 0, 0, 62, 102, 102, 102, 102, 62, 6, 102, 60, 0, 0, 0],
     [0, 0, 96, 96, 124, 102, 102, 102, 102, 102, 0, 0, 0, 0, 0, 0],
     [0, 0, 24, 24, 0, 56, 24, 24, 24, 60, 0, 0, 0, 0, 0, 0],
     [0, 0, 6, 6, 0, 14, 6, 6, 6, 6, 102, 102, 60, 0, 0, 0],
     [0, 0, 96, 96, 102, 108, 120, 120, 108, 102, 0, 0, 0, 0, 0, 0],
     [0, 0, 56, 24, 24, 24, 24, 24, 24, 60, 0, 0, 0, 0, 0, 0],
     [0, 0, 0, 0, 108, 254, 214, 214, 214, 198, 0, 0, 0, 0, 0, 0],
     [0, 0, 0, 0, 124, 102, 102, 102, 102, 102, 0, 0, 0, 0, 0, 0],
     [0, 0, 0, 0, 60, 102, 102, 102, 102, 60, 0, 0, 0, 0, 0, 0],
     [0, 0, 0, 0, 124, 102, 102, 102, 102, 124, 96, 96, 96, 0, 0, 0],
     [0, 0, 0, 0, 62, 102, 102, 102, 102, 62, 6, 6, 6, 0, 0, 0],
     [0, 0, 0, 0, 124, 102, 102, 96, 96, 96, 0, 0, 0, 0, 0, 0],
     [0, 0, 0, 0, 62, 96, 60, 6, 6, 124, 0, 0, 0, 0, 0, 0],
     [0, 0, 48, 48, 124, 48, 48, 48, 48, 28, 0, 0, 0, 0, 0, 0],
     [0, 0, 0, 0, 102, 102, 102, 102, 102, 62, 0, 0, 0, 0, 0, 0],
     [0, 0, 0, 0, 102, 102, 102, 102, 60, 24, 0, 0, 0, 0, 0, 0],
     [0, 0, 0, 0, 198, 198, 214, 214, 108, 108, 0, 0, 0, 0, 0, 0],
     [0, 0, 0, 0, 102, 60, 24, 24, 60, 102, 0, 0, 0, 0, 0, 0],
     [0, 0, 0, 0, 102, 102, 102, 102, 102, 62, 6, 102, 60, 0, 0, 0],
     [0, 0, 0, 0, 126, 12, 24, 48, 96, 126, 0, 0, 0, 0, 0, 0],
     [0, 0, 14, 24, 24, 48, 96, 48, 24, 24, 14, 0, 0, 0, 0, 0],
     [0, 0, 24, 24, 24, 24, 24, 24, 24, 24, 0, 0, 0, 0, 0, 0],
     [0, 0, 112, 24, 24, 12, 6, 12, 24, 24, 112, 0, 0, 0, 0, 0],
     [0, 0, 0, 0, 115, 254, 206, 0, 0, 0, 0, 0, 0, 0, 0, 0]]"

section \<open>The frame buffer\<close>

record gfx = io +
  lfb_ptr :: u32
  lfb :: "int \<Rightarrow> u8"
  fb_active :: bool
  fb_width :: u16
  fb_height :: u16
  fb_pitch :: u16
  fb_bpp :: u16
  fb_bpp_bytes :: u16

definition pixel_write :: "int \<Rightarrow> u32 \<Rightarrow> 'a gfx_scheme \<Rightarrow> 'a gfx_scheme" where
  "pixel_write p color s =
     (let m = (lfb s)(p := byte_of 0 color, p + 1 := byte_of 8 color, p + 2 := byte_of 16 color)
      in s\<lparr>lfb := if fb_bpp_bytes s = 4 then m(p + 3 := byte_of 24 color) else m\<rparr>)"

definition init_graphics :: "u32 \<Rightarrow> u16 \<Rightarrow> u16 \<Rightarrow> u16 \<Rightarrow> u16 \<Rightarrow> 'a gfx_scheme \<Rightarrow> 'a gfx_scheme" where
  "init_graphics ptr width height pitch bpp s =
     s\<lparr>lfb_ptr := ptr, fb_width := width, fb_height := height, fb_pitch := pitch, fb_bpp := bpp,
       fb_bpp_bytes := bpp div 8, fb_active := True\<rparr>"

definition is_graphics_active :: "'a gfx_scheme \<Rightarrow> bool" where
  "is_graphics_active s = fb_active s"

text \<open>The address \<open>lfb_ptr + y * fb_pitch + x * fb_bpp_bytes\<close>.\<close>

definition pixel_pos :: "int \<Rightarrow> int \<Rightarrow> 'a gfx_scheme \<Rightarrow> int" where
  "pixel_pos x y s = y * uint (fb_pitch s) + x * uint (fb_bpp_bytes s)"

definition draw_pixel :: "int \<Rightarrow> int \<Rightarrow> u32 \<Rightarrow> 'a gfx_scheme \<Rightarrow> 'a gfx_scheme" where
  "draw_pixel x y color s =
     (if x < 0 \<or> x \<ge> uint (fb_width s) \<or> y < 0 \<or> y \<ge> uint (fb_height s) then s
      else pixel_write (pixel_pos x y s) color s)"

definition fill_row :: "int \<Rightarrow> int \<Rightarrow> int \<Rightarrow> u32 \<Rightarrow> 'a gfx_scheme \<Rightarrow> 'a gfx_scheme" where
  "fill_row x w row color s =
     (let max_col = (if x + w > uint (fb_width s) then uint (fb_width s) else x + w)
      in fold (\<lambda>col s. pixel_write (pixel_pos col row s) color s) [x..max_col - 1] s)"

definition fill_rect :: "int \<Rightarrow> int \<Rightarrow> int \<Rightarrow> int \<Rightarrow> u32 \<Rightarrow> 'a gfx_scheme \<Rightarrow> 'a gfx_scheme" where
  "fill_rect x y w h color s =
     fold (\<lambda>row. fill_row x w row color) [y..min (y + h) (uint (fb_height s)) - 1] s"

definition char_row :: "u8 \<Rightarrow> int \<Rightarrow> u8" where
  "char_row c row =
     (let c = (if c < FONT_FIRST_CHAR \<or> c > FONT_LAST_CHAR then 63 else c)
      in font_data ! unat (c - FONT_FIRST_CHAR) ! nat row)"

definition draw_char_gfx :: "int \<Rightarrow> int \<Rightarrow> u8 \<Rightarrow> u32 \<Rightarrow> u32 \<Rightarrow> 'a gfx_scheme \<Rightarrow> 'a gfx_scheme" where
  "draw_char_gfx x y c fg bg s =
     fold (\<lambda>row s. let bits = char_row c row in
             fold (\<lambda>col s. if bits AND drop_bit (nat col) 0x80 \<noteq> 0 then pixel_write (pixel_pos (x + col) (y + row) s) fg s
                           else if bg \<noteq> 0xFFFFFFFF then pixel_write (pixel_pos (x + col) (y + row) s) bg s else s)
               [0..FONT_WIDTH - 1] s)
       [0..FONT_HEIGHT - 1] s"

definition fb_cols :: "'a gfx_scheme \<Rightarrow> int" where "fb_cols s = uint (fb_width s)"
definition fb_rows :: "'a gfx_scheme \<Rightarrow> int" where "fb_rows s = uint (fb_height s)"

definition scroll_gfx :: "int \<Rightarrow> 'a gfx_scheme \<Rightarrow> 'a gfx_scheme" where
  "scroll_gfx lines s =
     (if lines \<le> 0 \<or> lines * FONT_HEIGHT \<ge> uint (fb_height s)
      then fill_rect 0 0 (fb_cols s) (fb_rows s) 0 s
      else let pixel_lines = lines * FONT_HEIGHT; src = pixel_lines * uint (fb_pitch s);
               copy_bytes = (uint (fb_height s) - pixel_lines) * uint (fb_pitch s);
               s = s\<lparr>lfb := fold (\<lambda>i m. m(i := m (src + i))) [0..copy_bytes - 1] (lfb s)\<rparr>
           in fill_rect 0 (uint (fb_height s) - pixel_lines) (fb_cols s) pixel_lines 0 s)"

section \<open>Bounds\<close>

lemma font_shape: "length font_data = 95" "\<forall>r \<in> set font_data. length r = 16"
  by (simp_all add: font_data_def)

text \<open>Every character has a row of the font for every line.\<close>

lemma char_row_in_font: "0 \<le> row \<Longrightarrow> row < FONT_HEIGHT \<Longrightarrow>
    \<exists>r \<in> set font_data. char_row c row = r ! nat row \<and> nat row < length r"
proof -
  assume row: "0 \<le> row" "row < FONT_HEIGHT"
  let ?c = "if c < FONT_FIRST_CHAR \<or> c > FONT_LAST_CHAR then 63 else c"
  have "32 \<le> unat ?c" "unat ?c \<le> 126" by (auto simp: FONT_FIRST_CHAR_def FONT_LAST_CHAR_def word_less_nat_alt)
  then have "unat (?c - FONT_FIRST_CHAR) < 95"
    by (simp only: FONT_FIRST_CHAR_def) (simp add: unat_sub word_le_nat_alt)
  then have "font_data ! unat (?c - FONT_FIRST_CHAR) \<in> set font_data" using font_shape(1) by (intro nth_mem) simp
  moreover from this have "nat row < length (font_data ! unat (?c - FONT_FIRST_CHAR))" using font_shape(2) row by (auto simp: FONT_HEIGHT_def)
  ultimately show ?thesis by (auto simp: char_row_def Let_def)
qed

text \<open>The bytes that belong to pixel (x, y), and a frame buffer whose rows hold its pixels.\<close>

definition fb_wf :: "'a gfx_scheme \<Rightarrow> bool" where
  "fb_wf s \<longleftrightarrow> fb_bpp_bytes s \<in> {3, 4} \<and> uint (fb_width s) * uint (fb_bpp_bytes s) \<le> uint (fb_pitch s)"

definition inside_fb :: "'a gfx_scheme \<Rightarrow> int \<Rightarrow> bool" where
  "inside_fb s i \<longleftrightarrow> 0 \<le> i \<and> i < uint (fb_height s) * uint (fb_pitch s)"

lemma pixel_write_other: "\<not> (p \<le> i \<and> i < p + uint (fb_bpp_bytes s)) \<Longrightarrow> fb_bpp_bytes s \<in> {3, 4} \<Longrightarrow> lfb (pixel_write p color s) i = lfb s i"
  by (auto simp: pixel_write_def Let_def)

lemma pixel_inside:
  assumes "fb_wf s" and "0 \<le> x" "x < uint (fb_width s)" "0 \<le> y" "y < uint (fb_height s)"
    and "pixel_pos x y s \<le> i" "i < pixel_pos x y s + uint (fb_bpp_bytes s)"
  shows "inside_fb s i"
proof -
  let ?b = "uint (fb_bpp_bytes s)" and ?p = "uint (fb_pitch s)"
  have "(x + 1) * ?b \<le> uint (fb_width s) * ?b" using assms(3) by (intro mult_right_mono) auto
  then have "x * ?b + ?b \<le> ?p" using assms(1) by (simp add: fb_wf_def algebra_simps)
  moreover have "(y + 1) * ?p \<le> uint (fb_height s) * ?p" using assms(5) by (intro mult_right_mono) auto
  moreover have "0 \<le> y * ?p" "0 \<le> x * ?b" using assms(2,4) by simp_all
  ultimately show ?thesis using assms(6,7) by (simp add: inside_fb_def pixel_pos_def algebra_simps)
qed

text \<open>\<open>draw_pixel\<close> checks its coordinates, so it writes inside the frame buffer only.\<close>

lemma draw_pixel_safe: "fb_wf s \<Longrightarrow> \<not> inside_fb s i \<Longrightarrow> lfb (draw_pixel x y color s) i = lfb s i"
  using pixel_inside [of s x y i] by (auto simp: draw_pixel_def fb_wf_def intro!: pixel_write_other)

text \<open>\<open>fill_rect\<close> clips on the right and at the bottom only: a negative row writes in front of the frame buffer.\<close>

lemma fill_rect_unsafe:
  assumes "fb_wf s" and "0 < uint (fb_width s)" "0 < uint (fb_height s)"
  shows "lfb (fill_rect 0 (-1) 1 1 color s) (- uint (fb_pitch s)) = byte_of 0 color"
proof -
  have r: "min (- 1 + 1) (uint (fb_height s)) - 1 = (- 1 :: int)" using assms by simp
  have "(if 0 + 1 > uint (fb_width s) then uint (fb_width s) else 0 + 1) - 1 = (0 :: int)" using assms by simp
  then have "fill_rect 0 (-1) 1 1 color s = pixel_write (pixel_pos 0 (-1) s) color s"
    using assms by (simp add: fill_rect_def r fill_row_def)
  then show ?thesis by (simp add: pixel_write_def pixel_pos_def Let_def)
qed

end
