(* ===== verification/Screen.thy ===== *)
theory Screen
  imports Serial Graphics
begin

text \<open>
  The screen of \<^verbatim>\<open>kernel/drivers/screen.c\<close> in text and graphics mode, and the capture of output in a
  buffer. The text memory is indexed by cells from \<open>VIDEO_MEMORY\<close>; an index outside the 25 rows of 80 columns
  is memory that does not belong to the screen. In text mode the screen is shown to be a simple
  terminal. The lock makes every function one step.
\<close>

section \<open>State\<close>

definition GFX_FG :: u32 where "GFX_FG = 0x00C0C0C0"
definition GFX_BG :: u32 where "GFX_BG = 0x00000000"
definition MAX_ROWS :: int where "MAX_ROWS = 25"
definition MAX_COLS :: int where "MAX_COLS = 80"
definition CAPTURE_SIZE :: nat where "CAPTURE_SIZE = 4096"

lemmas screen_size = MAX_ROWS_def MAX_COLS_def CAPTURE_SIZE_def

text \<open>\<open>(WHITE_ON_BLACK << 8) | c\<close>\<close>

definition cell :: "u8 \<Rightarrow> u16" where
  "cell c = push_bit 8 0x0F OR ucast c"

record scr = gfx +
  cursor_x :: int
  cursor_y :: int
  capture_mode :: bool
  capture_buf :: "u8 list"
  capture_pos :: nat
  video :: "int \<Rightarrow> u16"

section \<open>Operations\<close>

definition set_capture :: "bool \<Rightarrow> scr \<Rightarrow> scr" where
  "set_capture on s =
     (let s = s\<lparr>capture_mode := on\<rparr>;
          s = (if on then s\<lparr>capture_pos := 0\<rparr> else s);
          s = (if capture_pos s \<ge> CAPTURE_SIZE then s\<lparr>capture_pos := CAPTURE_SIZE - 1\<rparr> else s)
      in s\<lparr>capture_buf := (capture_buf s)[capture_pos s := 0]\<rparr>)"

definition get_capture :: "scr \<Rightarrow> u8 list \<times> scr" where
  "get_capture s =
     (let s = (if capture_pos s \<ge> CAPTURE_SIZE then s\<lparr>capture_pos := CAPTURE_SIZE - 1\<rparr> else s);
          s = s\<lparr>capture_buf := (capture_buf s)[capture_pos s := 0]\<rparr>
      in (capture_buf s, s))"

definition set_cursor :: "int \<Rightarrow> int \<Rightarrow> scr \<Rightarrow> scr" where
  "set_cursor x y s =
     (let s = s\<lparr>cursor_x := x, cursor_y := y\<rparr>
      in if \<not> is_graphics_active s
         then let pos = word_of_int (y * MAX_COLS + x) :: u16;
                  s = outb 0x3D4 0x0F s;
                  s = outb 0x3D5 (ucast (pos AND 0xFF)) s;
                  s = outb 0x3D4 0x0E s
              in outb 0x3D5 (ucast (drop_bit 8 pos AND 0xFF)) s
         else s)"

definition fill_cells :: "int \<Rightarrow> int \<Rightarrow> scr \<Rightarrow> scr" where
  "fill_cells from to s = s\<lparr>video := fold (\<lambda>i v. v(i := cell 32)) [from..to - 1] (video s)\<rparr>"

definition clear_screen :: "scr \<Rightarrow> scr" where
  "clear_screen s =
     (if is_graphics_active s
      then (fill_rect 0 0 (fb_cols s) (fb_rows s) GFX_BG s)\<lparr>cursor_x := 0, cursor_y := 0\<rparr>
      else set_cursor 0 0 ((fill_cells 0 (MAX_ROWS * MAX_COLS) s)\<lparr>cursor_x := 0, cursor_y := 0\<rparr>))"

definition init_screen :: "scr \<Rightarrow> scr" where
  "init_screen s = clear_screen s"

definition scroll :: "scr \<Rightarrow> scr" where
  "scroll s =
     (let s = s\<lparr>video := fold (\<lambda>i v. v(i := v (i + MAX_COLS))) [0..(MAX_ROWS - 1) * MAX_COLS - 1] (video s)\<rparr>
      in (fill_cells ((MAX_ROWS - 1) * MAX_COLS) (MAX_ROWS * MAX_COLS) s)\<lparr>cursor_y := MAX_ROWS - 1\<rparr>)"

text \<open>\<open>(x + 8) & ~7\<close>, and the comparison of a signed character with a blank.\<close>

definition tab_stop :: "int \<Rightarrow> int" where
  "tab_stop x = (x + 8) AND NOT 7"

definition printable :: "u8 \<Rightarrow> bool" where
  "printable c \<longleftrightarrow> 32 \<le> c \<and> c < 128"

definition capture_char :: "u8 \<Rightarrow> scr \<Rightarrow> scr" where
  "capture_char c s =
     (if (c = 10 \<or> printable c) \<and> capture_pos s < CAPTURE_SIZE - 1
      then s\<lparr>capture_buf := (capture_buf s)[capture_pos s := c], capture_pos := capture_pos s + 1\<rparr> else s)"

definition print_gfx :: "u8 \<Rightarrow> scr \<Rightarrow> scr" where
  "print_gfx c s =
     (let s = (if c = 10 then s\<lparr>cursor_x := 0, cursor_y := cursor_y s + 1\<rparr>
               else if c = 8 then (if cursor_x s > 0 then s\<lparr>cursor_x := cursor_x s - 1\<rparr> else s)
               else if c = 13 then fill_rect 0 (cursor_y s * FONT_HEIGHT) (fb_cols s) FONT_HEIGHT GFX_BG (s\<lparr>cursor_x := 0\<rparr>)
               else if c = 9 then s\<lparr>cursor_x := tab_stop (cursor_x s)\<rparr>
               else if printable c
               then (draw_char_gfx (cursor_x s * FONT_WIDTH) (cursor_y s * FONT_HEIGHT) c GFX_FG GFX_BG s)\<lparr>cursor_x := cursor_x s + 1\<rparr>
               else s);
          max_cols = fb_cols s div FONT_WIDTH; max_rows = fb_rows s div FONT_HEIGHT;
          s = (if cursor_x s \<ge> max_cols then s\<lparr>cursor_x := 0, cursor_y := cursor_y s + 1\<rparr> else s)
      in if cursor_y s \<ge> max_rows then (scroll_gfx 1 s)\<lparr>cursor_y := max_rows - 1\<rparr> else s)"

definition print_text :: "u8 \<Rightarrow> scr \<Rightarrow> scr" where
  "print_text c s =
     (if c = 13
      then let s = fill_cells (cursor_y s * MAX_COLS) (cursor_y s * MAX_COLS + MAX_COLS) (s\<lparr>cursor_x := 0\<rparr>)
           in set_cursor (cursor_x s) (cursor_y s) s
      else let s = (if c = 10 then s\<lparr>cursor_x := 0, cursor_y := cursor_y s + 1\<rparr>
                    else if c = 8 then (if cursor_x s > 0 then s\<lparr>cursor_x := cursor_x s - 1\<rparr> else s)
                    else if c = 9 then s\<lparr>cursor_x := tab_stop (cursor_x s)\<rparr>
                    else s\<lparr>video := (video s)(cursor_y s * MAX_COLS + cursor_x s := cell c), cursor_x := cursor_x s + 1\<rparr>);
               s = (if cursor_x s \<ge> MAX_COLS then s\<lparr>cursor_x := 0, cursor_y := cursor_y s + 1\<rparr> else s);
               s = (if cursor_y s \<ge> MAX_ROWS then scroll s else s)
           in set_cursor (cursor_x s) (cursor_y s) s)"

definition print_char :: "u8 \<Rightarrow> scr \<Rightarrow> scr" where
  "print_char c s =
     (if capture_mode s then capture_char c s else if is_graphics_active s then print_gfx c s else print_text c s)"

fun print_chars :: "u8 list \<Rightarrow> scr \<Rightarrow> scr" where
  "print_chars [] s = s"
| "print_chars (c # cs) s = (if c = 0 then s else print_chars cs (print_char c s))"

definition print_string :: "u8 list \<Rightarrow> scr \<Rightarrow> scr option" where
  "print_string str s =
     Option.bind (if \<not> capture_mode s then serial_write_string str s else Some s) (\<lambda>s. Some (print_chars str s))"

definition print_hex :: "u32 \<Rightarrow> scr \<Rightarrow> scr option" where
  "print_hex num s = Option.bind (serial_write_hex num s) (\<lambda>s. Some (print_chars (hex_string num) s))"

definition print_int :: "u32 \<Rightarrow> scr \<Rightarrow> scr option" where
  "print_int num s = Option.bind (serial_write_int num s) (\<lambda>s. Some (print_chars (dec_string num) s))"

definition get_cursor_x :: "scr \<Rightarrow> int" where "get_cursor_x s = cursor_x s"
definition get_cursor_y :: "scr \<Rightarrow> int" where "get_cursor_y s = cursor_y s"

section \<open>A terminal\<close>

text \<open>A page of 25 rows of 80 cells and a position on it.\<close>

type_synonym tty = "u16 list \<times> nat"

definition blank_row :: "u16 list" where "blank_row = replicate 80 (cell 32)"

definition tty_put :: "u8 \<Rightarrow> tty \<Rightarrow> tty" where
  "tty_put c t =
     (case t of (page, pos) \<Rightarrow>
      let row = pos div 80 * 80
      in if c = 13 then (take row page @ blank_row @ drop (row + 80) page, row)
         else let (page, pos) =
                (if c = 10 then (page, row + 80)
                 else if c = 8 then (page, if pos mod 80 = 0 then pos else pos - 1)
                 else if c = 9 then (page, (pos + 8) div 8 * 8)
                 else (page[pos := cell c], pos + 1))
              in if pos < 2000 then (page, pos) else (drop 80 page @ blank_row, pos - 80))"

definition tty_of :: "scr \<Rightarrow> tty" where
  "tty_of s = (map (video s) [0..1999], nat (cursor_y s * 80 + cursor_x s))"

text \<open>In text mode, with the cursor on the screen and room in the capture buffer.\<close>

definition scr_ok :: "scr \<Rightarrow> bool" where
  "scr_ok s \<longleftrightarrow> \<not> fb_active s \<and> 0 \<le> cursor_x s \<and> cursor_x s < 80 \<and> 0 \<le> cursor_y s \<and> cursor_y s < 25 \<and>
     length (capture_buf s) = CAPTURE_SIZE \<and> capture_pos s < CAPTURE_SIZE"

definition off_screen :: "scr \<Rightarrow> scr \<Rightarrow> bool" where
  "off_screen s s' \<longleftrightarrow> (\<forall>i. i < 0 \<or> 2000 \<le> i \<longrightarrow> video s' i = video s i)"

section \<open>Loops over the text memory\<close>

lemma fold_fill: "fold (\<lambda>i v. v(i := c)) xs v j = (if j \<in> set xs then c else v j)"
  by (induction xs arbitrary: v) auto

lemma fold_shift:
  assumes "0 < k"
  shows "fold (\<lambda>i v. v(i := v (i + k))) [a..a + int n - 1] v j = (if a \<le> j \<and> j < a + int n then v (j + k) else v j)"
proof (induction n arbitrary: j)
  case (Suc n)
  have "[a..a + int (Suc n) - 1] = [a..a + int n - 1] @ [a + int n]" using upto_rec2 [of a "a + int n"] by simp
  then show ?case using Suc.IH assms by auto
qed auto

lemma tab_stop_div: "tab_stop x = (x + 8) div 8 * 8"
proof -
  have "(x + 8) AND NOT 7 = push_bit 3 (drop_bit 3 (x + 8))"
  proof (rule bit_eqI)
    fix n
    have seven: "(7 :: int) = mask 3" by (simp add: mask_eq_exp_minus_1)
    have "bit (mask 3 :: int) n \<longleftrightarrow> n < 3" by (simp only: bit_mask_iff possible_bit_int simp_thms)
    then show "bit ((x + 8) AND NOT 7) n = bit (push_bit 3 (drop_bit 3 (x + 8))) n"
      unfolding seven by (auto simp: bit_and_iff bit_not_int_iff bit_push_bit_iff bit_drop_bit_eq not_less)
  qed
  then show ?thesis by (simp add: tab_stop_def push_bit_eq_mult drop_bit_eq_div)
qed

lemma set_cursor_simps [simp]:
  "video (set_cursor x y s) = video s" "cursor_x (set_cursor x y s) = x" "cursor_y (set_cursor x y s) = y"
  "capture_buf (set_cursor x y s) = capture_buf s" "capture_pos (set_cursor x y s) = capture_pos s"
  "fb_active (set_cursor x y s) = fb_active s" "capture_mode (set_cursor x y s) = capture_mode s"
  by (simp_all add: set_cursor_def Let_def outb_def outl_def)

lemma fill_cells_simps [simp]:
  "video (fill_cells a b s) j = (if a \<le> j \<and> j < b then cell 32 else video s j)"
  "cursor_x (fill_cells a b s) = cursor_x s" "cursor_y (fill_cells a b s) = cursor_y s"
  "capture_buf (fill_cells a b s) = capture_buf s" "capture_pos (fill_cells a b s) = capture_pos s"
  "fb_active (fill_cells a b s) = fb_active s" "capture_mode (fill_cells a b s) = capture_mode s"
  by (simp_all add: fill_cells_def fold_fill)

lemma scroll_simps [simp]:
  "video (scroll s) j = (if 0 \<le> j \<and> j < 1920 then video s (j + 80) else if 1920 \<le> j \<and> j < 2000 then cell 32 else video s j)"
  "cursor_x (scroll s) = cursor_x s" "cursor_y (scroll s) = 24"
  "capture_buf (scroll s) = capture_buf s" "capture_pos (scroll s) = capture_pos s"
  "fb_active (scroll s) = fb_active s" "capture_mode (scroll s) = capture_mode s"
  using fold_shift [of 80 0 1920 "video s" j]
  by (simp_all add: scroll_def screen_size)

section \<open>The screen is a terminal\<close>

definition page :: "scr \<Rightarrow> u16 list" where "page s = map (video s) [0..1999]"

lemma page_simps [simp]: "length (page s) = 2000" "k < 2000 \<Longrightarrow> page s ! k = video s (int k)"
  by (simp_all add: page_def nth_upto)

lemma page_eqI: "length xs = 2000 \<Longrightarrow> (\<And>k. k < 2000 \<Longrightarrow> video s (int k) = xs ! k) \<Longrightarrow> page s = xs"
  by (rule nth_equalityI) simp_all

lemma page_clear_row:
  assumes "y < 25"
  shows "page (fill_cells (int y * 80) (int y * 80 + 80) s) = take (y * 80) (page s) @ blank_row @ drop (y * 80 + 80) (page s)"
  using assms by (intro page_eqI) (auto simp: nth_append blank_row_def)

lemma page_scroll: "page (scroll s) = drop 80 (page s) @ blank_row"
  by (intro page_eqI) (auto simp: nth_append blank_row_def add.commute)

lemma page_cong: "video s = video s' \<Longrightarrow> page s = page s'"
  by (simp add: page_def)

lemma page_put: "k < 2000 \<Longrightarrow> page (s\<lparr>video := (video s)(int k := c)\<rparr>) = (page s)[k := c]"
  by (intro page_eqI) (auto simp: nth_list_update)

lemma tty_of_page: "tty_of s = (page s, nat (cursor_y s * 80 + cursor_x s))"
  by (simp add: tty_of_def page_def)

text \<open>The end of \<open>print_text\<close>: wrapping at the end of a row and scrolling at the end of the page.\<close>

definition settle :: "scr \<Rightarrow> scr" where
  "settle s =
     (let s = (if cursor_x s \<ge> MAX_COLS then s\<lparr>cursor_x := 0, cursor_y := cursor_y s + 1\<rparr> else s);
          s = (if cursor_y s \<ge> MAX_ROWS then scroll s else s)
      in set_cursor (cursor_x s) (cursor_y s) s)"

lemma settle_tty:
  assumes x: "cursor_x s = int x" "x \<le> 80" and y: "cursor_y s = int y" "y < 25 \<or> y = 25 \<and> x = 0"
  defines "p \<equiv> y * 80 + x"
  shows "tty_of (settle s) = (if p < 2000 then (page s, p) else (drop 80 (page s) @ blank_row, p - 80))"
    and "off_screen s (settle s)"
    and "0 \<le> cursor_x (settle s)" "cursor_x (settle s) < 80" "0 \<le> cursor_y (settle s)" "cursor_y (settle s) < 25"
proof -
  define s1 where "s1 = (if cursor_x s \<ge> MAX_COLS then s\<lparr>cursor_x := 0, cursor_y := cursor_y s + 1\<rparr> else s)"
  obtain x1 y1 where s1: "cursor_x s1 = int x1" "cursor_y s1 = int y1" "x1 < 80" "y1 * 80 + x1 = p" "y1 < 25 \<or> y1 = 25 \<and> x1 = 0"
    "video s1 = video s"
  proof (cases "x = 80")
    case True
    then have "y < 24 \<or> y = 24" using y(2) by auto
    then show thesis using that [of 0 "y + 1"] True x y by (auto simp: s1_def p_def screen_size)
  next
    case False
    then show thesis using that [of x y] x y by (auto simp: s1_def p_def screen_size)
  qed
  have lt: "p < 2000 \<longleftrightarrow> y1 < 25" using s1(3,4,5) by auto
  have e: "settle s = (let s = (if cursor_y s1 \<ge> MAX_ROWS then scroll s1 else s1) in set_cursor (cursor_x s) (cursor_y s) s)"
    by (simp add: settle_def s1_def Let_def)
  have pg: "page s1 = page s" by (rule page_cong [OF s1(6)])
  show "tty_of (settle s) = (if p < 2000 then (page s, p) else (drop 80 (page s) @ blank_row, p - 80))"
  proof (cases "y1 < 25")
    case True
    then have "settle s = set_cursor (cursor_x s1) (cursor_y s1) s1" using s1(2) by (simp add: e screen_size)
    then show ?thesis using True lt s1 pg by (simp add: tty_of_page page_cong [OF set_cursor_simps(1)] nat_add_distrib nat_mult_distrib)
  next
    case False
    then have "y1 = 25" "x1 = 0" using s1(5) by auto
    then have "settle s = set_cursor 0 24 (scroll s1)" using s1(1,2) by (simp add: e screen_size)
    then show ?thesis using False lt s1(4) \<open>y1 = 25\<close> \<open>x1 = 0\<close> pg by (simp add: tty_of_page page_cong [OF set_cursor_simps(1)] page_scroll)
  qed
  show "off_screen s (settle s)" "0 \<le> cursor_x (settle s)" "cursor_x (settle s) < 80" "0 \<le> cursor_y (settle s)" "cursor_y (settle s) < 25"
    using s1 by (auto simp: e off_screen_def screen_size)
qed

lemma settle_other [simp]:
  "capture_buf (settle s) = capture_buf s" "capture_pos (settle s) = capture_pos s" "fb_active (settle s) = fb_active s"
  "capture_mode (settle s) = capture_mode s"
  by (simp_all add: settle_def Let_def)

lemma print_text_settle:
  "c \<noteq> 13 \<Longrightarrow> print_text c s =
     settle (if c = 10 then s\<lparr>cursor_x := 0, cursor_y := cursor_y s + 1\<rparr>
             else if c = 8 then (if cursor_x s > 0 then s\<lparr>cursor_x := cursor_x s - 1\<rparr> else s)
             else if c = 9 then s\<lparr>cursor_x := tab_stop (cursor_x s)\<rparr>
             else s\<lparr>video := (video s)(cursor_y s * MAX_COLS + cursor_x s := cell c), cursor_x := cursor_x s + 1\<rparr>)"
  unfolding print_text_def settle_def by (simp only: Let_def if_False simp_thms)

lemma print_text_tty:
  assumes ok: "scr_ok s"
  shows "tty_of (print_text c s) = tty_put c (tty_of s)" and "scr_ok (print_text c s)" and "off_screen s (print_text c s)"
proof -
  define x y where "x = nat (cursor_x s)" and "y = nat (cursor_y s)"
  have xy: "cursor_x s = int x" "cursor_y s = int y" "x < 80" "y < 25" using ok by (auto simp: x_def y_def scr_ok_def)
  have t: "tty_of s = (page s, y * 80 + x)" using xy by (simp add: tty_of_page nat_add_distrib nat_mult_distrib)
  have dm: "(y * 80 + x) div 80 = y" "(y * 80 + x) mod 80 = x" using xy by auto
  have "tty_of (print_text c s) = tty_put c (tty_of s) \<and> scr_ok (print_text c s) \<and> off_screen s (print_text c s)"
  proof (cases "c = 13")
    case True
    let ?s = "fill_cells (int y * 80) (int y * 80 + 80) (s\<lparr>cursor_x := 0\<rparr>)"
    have e: "print_text c s = set_cursor 0 (int y) ?s" using True xy by (simp add: print_text_def Let_def screen_size)
    have "page (set_cursor 0 (int y) ?s) = page ?s" by (rule page_cong) simp
    also have "\<dots> = take (y * 80) (page s) @ blank_row @ drop (y * 80 + 80) (page s)"
      using page_clear_row [OF xy(4), of "s\<lparr>cursor_x := 0\<rparr>"] page_cong [of "s\<lparr>cursor_x := 0\<rparr>" s] by simp
    finally have "tty_of (print_text c s) = tty_put c (tty_of s)"
      using True dm(1) unfolding t e by (simp add: tty_of_page tty_put_def nat_mult_distrib Let_def)
    then show ?thesis using ok xy by (auto simp: e scr_ok_def off_screen_def)
  next
    case False
    note e = print_text_settle [OF False, of s]
    have cap: "length (capture_buf s) = CAPTURE_SIZE" "capture_pos s < CAPTURE_SIZE" "\<not> fb_active s" using ok by (auto simp: scr_ok_def)
    consider (nl) "c = 10" | (bs) "c = 8" | (tab) "c = 9" | (put) "c \<noteq> 10" "c \<noteq> 8" "c \<noteq> 9" by blast
    then show ?thesis
    proof cases
      case nl
      let ?s = "s\<lparr>cursor_x := 0, cursor_y := cursor_y s + 1\<rparr>"
      have "cursor_x ?s = int 0" "cursor_y ?s = int (y + 1)" "y + 1 < 25 \<or> y + 1 = 25 \<and> (0 :: nat) = 0" using xy by auto
      note S = settle_tty [OF this(1) _ this(2,3)]
      have "page ?s = page s" "off_screen ?s (settle ?s) = off_screen s (settle ?s)" by (auto simp: off_screen_def intro: page_cong)
      moreover have "(y + 1) * 80 + 0 = y * 80 + 80" by simp
      ultimately show ?thesis using S cap nl dm(1) unfolding e t by (simp add: tty_put_def scr_ok_def Let_def)
    next
      case bs
      let ?s = "if cursor_x s > 0 then s\<lparr>cursor_x := cursor_x s - 1\<rparr> else s"
      have "cursor_x ?s = int (x - 1)" "cursor_y ?s = int y" "x - 1 \<le> 80" "y < 25 \<or> y = 25 \<and> x - 1 = 0" using xy by auto
      note S = settle_tty [OF this(1,3,2,4)]
      have "page ?s = page s" "off_screen ?s (settle ?s) = off_screen s (settle ?s)" by (auto simp: off_screen_def intro: page_cong)
      moreover have "y * 80 + (x - 1) = (if x = 0 then y * 80 + x else y * 80 + x - 1)" "y * 80 + (x - 1) < 2000" using xy by auto
      ultimately show ?thesis using S cap bs dm(2) unfolding e t by (simp add: tty_put_def scr_ok_def Let_def)
    next
      case tab
      let ?s = "s\<lparr>cursor_x := tab_stop (cursor_x s)\<rparr>" and ?x = "(x + 8) div 8 * 8"
      have le: "?x \<le> 80" using xy by (simp add: less_mult_imp_div_less div_le_mono)
      have "cursor_x ?s = int ?x" "cursor_y ?s = int y" "y < 25 \<or> y = 25 \<and> ?x = 0" using xy by (simp_all add: tab_stop_div zdiv_int)
      note S = settle_tty [OF this(1) le this(2,3)]
      have "page ?s = page s" "off_screen ?s (settle ?s) = off_screen s (settle ?s)" by (auto simp: off_screen_def intro: page_cong)
      moreover have "y * 80 + ?x = (y * 80 + x + 8) div 8 * 8"
      proof -
        have "y * 80 + x + 8 = (x + 8) + 10 * y * 8" by simp
        then have "(y * 80 + x + 8) div 8 = (x + 8) div 8 + 10 * y" by (metis div_mult_self1 add.commute zero_neq_numeral)
        then show ?thesis by simp
      qed
      ultimately show ?thesis using S cap tab unfolding e t by (simp add: tty_put_def scr_ok_def Let_def)
    next
      case put
      let ?s = "s\<lparr>video := (video s)(cursor_y s * MAX_COLS + cursor_x s := cell c), cursor_x := cursor_x s + 1\<rparr>"
      have i: "cursor_y s * MAX_COLS + cursor_x s = int (y * 80 + x)" "y * 80 + x < 2000" using xy by (auto simp: screen_size)
      have "cursor_x ?s = int (x + 1)" "cursor_y ?s = int y" "x + 1 \<le> 80" "y < 25 \<or> y = 25 \<and> x + 1 = 0" using xy by auto
      note S = settle_tty [OF this(1,3,2,4)]
      have "page ?s = (page s)[y * 80 + x := cell c]"
        using page_put [OF i(2), of s "cell c"] page_cong [of ?s "s\<lparr>video := (video s)(int (y * 80 + x) := cell c)\<rparr>"] i(1) by simp
      moreover have "off_screen s (settle ?s)" using S(2) i by (auto simp: off_screen_def)
      ultimately show ?thesis using S cap put False unfolding e t by (simp add: tty_put_def scr_ok_def Let_def)
    qed
  qed
  then show "tty_of (print_text c s) = tty_put c (tty_of s)" and "scr_ok (print_text c s)" and "off_screen s (print_text c s)"
    by blast+
qed

lemma capture_mode_print_text: "capture_mode (print_text c s) = capture_mode s"
  by (cases "c = 13") (simp_all add: print_text_settle, simp add: print_text_def Let_def)

lemma fold_tty:
  assumes "scr_ok s" "\<not> capture_mode s"
  shows "tty_of (print_chars cs s) = fold tty_put (takeWhile (\<lambda>c. c \<noteq> 0) cs) (tty_of s) \<and>
         scr_ok (print_chars cs s) \<and> off_screen s (print_chars cs s)"
  using assms
proof (induction cs arbitrary: s)
  case (Cons c cs)
  have e: "print_char c s = print_text c s" using Cons.prems by (simp add: print_char_def scr_ok_def is_graphics_active_def)
  note p = print_text_tty [OF Cons.prems(1), of c]
  have "\<not> capture_mode (print_text c s)" using Cons.prems(2) by (simp add: capture_mode_print_text)
  then show ?case using Cons.IH [OF p(2)] Cons.prems(1) p by (auto simp: e off_screen_def)
qed (simp add: off_screen_def)

lemma sent_print_text: "sent (print_text c s) = sent s"
proof -
  have "sent (set_cursor x y t) = sent t" for x y t by (simp add: set_cursor_def Let_def sent_outb COM1_def) (simp add: sent_def)
  then show ?thesis by (simp add: print_text_def Let_def scroll_def fill_cells_def) (simp add: sent_def)
qed

lemma sent_print_chars: "scr_ok s \<Longrightarrow> \<not> capture_mode s \<Longrightarrow> sent (print_chars cs s) = sent s"
proof (induction cs arbitrary: s)
  case (Cons c cs)
  have e: "print_char c s = print_text c s" using Cons.prems by (simp add: print_char_def scr_ok_def is_graphics_active_def)
  show ?case using Cons print_text_tty(2) [OF Cons.prems(1), of c] capture_mode_print_text [of c s]
    by (simp add: e sent_print_text)
qed simp

lemma scr_more:
  assumes "io.more s = io.more (s' :: scr)"
  shows "video s = video s'" "cursor_x s = cursor_x s'" "cursor_y s = cursor_y s'" "fb_active s = fb_active s'"
    "capture_mode s = capture_mode s'" "capture_buf s = capture_buf s'" "capture_pos s = capture_pos s'"
  using assms by (cases s; cases s'; simp)+

text \<open>
  C7: printing a string in text mode, on a serial line that keeps accepting bytes, always returns. It sends the
  string once, with a carriage return before every line feed, and shows it the way a terminal of 25 rows of
  80 columns does, for every character, line wrapping and scrolling included. The cursor stays on the
  screen and no memory outside the 2000 cells is written.
\<close>

theorem print_string_terminal:
  assumes "scr_ok s" "\<not> capture_mode s" "tx_live s"
  shows "\<exists>s'. print_string str s = Some s' \<and>
     tty_of s' = fold tty_put (takeWhile (\<lambda>c. c \<noteq> 0) str) (tty_of s) \<and>
     sent s' = sent s @ with_cr (takeWhile (\<lambda>c. c \<noteq> 0) str) \<and> scr_ok s' \<and> off_screen s s'"
proof -
  obtain s1 where s1: "serial_write_string str s = Some s1" "sent s1 = sent s @ with_cr (takeWhile (\<lambda>c. c \<noteq> 0) str)"
    "io.more s1 = io.more s" using serial_write_string_sent [OF assms(3)] by blast
  note m = scr_more [OF s1(3)]
  have "scr_ok s1" "\<not> capture_mode s1" "tty_of s1 = tty_of s" using assms m by (simp_all add: scr_ok_def tty_of_def)
  then show ?thesis using fold_tty [of s1 str] sent_print_chars [of s1 str] s1 assms(2) m
    by (simp add: print_string_def off_screen_def)
qed

definition blank_screen :: scr where
  "blank_screen = \<lparr>port_in = \<lambda>p k. 0x20, port_out = [], tick_in = \<lambda>k. 0, lfb_ptr = 0, lfb = \<lambda>a. 0, fb_active = False,
     fb_width = 0, fb_height = 0, fb_pitch = 0, fb_bpp = 0, fb_bpp_bytes = 0, cursor_x = 78, cursor_y = 24, capture_mode = False, capture_buf = replicate 4096 0,
     capture_pos = 0, video = \<lambda>i. cell 32\<rparr>"

theorem print_string_terminal_witness:
  "\<exists>s'. print_string [72, 105, 10, 0] blank_screen = Some s' \<and> snd (tty_of s') = 1920 \<and> sent s' = [72, 105, 13, 10] \<and> scr_ok s'"
proof -
  have "scr_ok blank_screen" "\<not> capture_mode blank_screen" "tx_live blank_screen" "sent blank_screen = []"
    by (auto simp: blank_screen_def scr_ok_def tx_live_def screen_size sent_def)
  moreover have "snd (fold tty_put [72, 105, 10] (tty_of blank_screen)) = 1920"
    by (simp add: tty_put_def tty_of_page blank_screen_def Let_def)
  ultimately show ?thesis using print_string_terminal [of blank_screen "[72, 105, 10, 0]"] by (auto simp: with_cr_def)
qed

section \<open>Capture\<close>

text \<open>
  While output is captured nothing is shown. The buffer holds the printable characters and line feeds
  up to its capacity, and the last byte is left for the terminator.
\<close>

definition captured :: "scr \<Rightarrow> u8 list" where
  "captured s = take (capture_pos s) (capture_buf s)"

lemma capture_char_captured:
  assumes "scr_ok s" "capture_mode s"
  shows "captured (capture_char c s) = take 4095 (captured s @ filter (\<lambda>c. c = 10 \<or> printable c) [c])"
    and "scr_ok (capture_char c s)" and "video (capture_char c s) = video s" and "capture_mode (capture_char c s)"
proof -
  have "capture_pos s < 4095 \<or> capture_pos s = 4095" using assms(1) by (auto simp: scr_ok_def screen_size)
  then show "captured (capture_char c s) = take 4095 (captured s @ filter (\<lambda>c. c = 10 \<or> printable c) [c])"
    using assms by (auto simp: captured_def capture_char_def scr_ok_def screen_size take_Suc_conv_app_nth min_def)
qed (use assms in \<open>auto simp: capture_char_def scr_ok_def screen_size\<close>)

lemma captured_take: "scr_ok s \<Longrightarrow> take 4095 (captured s) = captured s"
  by (simp add: captured_def scr_ok_def screen_size)

lemma take_twice: "take n (take n (xs @ ys) @ zs) = take n (xs @ ys @ zs)"
  by (cases "length (xs @ ys) \<le> n") (simp_all add: take_append [of _ "xs @ ys" zs, simplified] min_def)

lemma capture_chars:
  assumes "scr_ok s" "capture_mode s"
  shows "captured (print_chars cs s) = take 4095 (captured s @ filter (\<lambda>c. c = 10 \<or> printable c) (takeWhile (\<lambda>c. c \<noteq> 0) cs)) \<and>
         scr_ok (print_chars cs s) \<and> video (print_chars cs s) = video s"
  using assms
proof (induction cs arbitrary: s)
  case Nil
  then show ?case by (simp add: captured_def scr_ok_def screen_size)
next
  case (Cons c cs)
  have e: "print_char c s = capture_char c s" using Cons.prems by (simp add: print_char_def)
  note p = capture_char_captured [OF Cons.prems, of c]
  let ?f = "filter (\<lambda>c. c = 10 \<or> printable c)"
  show ?case
  proof (cases "c = 0")
    case False
    then have "?f (takeWhile (\<lambda>c. c \<noteq> 0) (c # cs)) = ?f [c] @ ?f (takeWhile (\<lambda>c. c \<noteq> 0) cs)" by simp
    then show ?thesis using Cons.IH [OF p(2,4)] p(1,3) False by (simp only: print_chars.simps e if_False take_twice)
  qed (use Cons.prems captured_take in simp)
qed

lemma get_capture_captured:
  assumes "scr_ok s"
  shows "take (capture_pos s) (fst (get_capture s)) = captured s" and "fst (get_capture s) ! capture_pos s = 0"
    and "scr_ok (snd (get_capture s))"
  using assms by (auto simp: get_capture_def captured_def scr_ok_def Let_def)

end
