(* ===== verification/Syscall.thy ===== *)
theory Syscall
  imports Elf Keyboard Screen HeapAlloc
begin

text \<open>
  The system calls of \<^verbatim>\<open>kernel/elf.c\<close>: the handler of interrupt 0x80 over the states of the components
  it calls. A pointer that a program passes is followed through the address space of the CPU;
  \<open>None\<close> stands for a page fault in the kernel or a loop that does not end.
\<close>

section \<open>State\<close>

text \<open>\<open>registers_t\<close>, which the entry code saves on the kernel stack.\<close>

record regs =
  seg_gs :: u32 seg_fs :: u32 seg_es :: u32 seg_ds :: u32
  edi :: u32 esi :: u32 ebp :: u32 esp_saved :: u32 ebx :: u32 edx :: u32 ecx :: u32 eax :: u32
  int_no :: u32 err_code :: u32
  eip_saved :: u32 seg_cs :: u32 eflags :: u32 useresp :: u32 seg_ss :: u32

record kernel =
  tsk :: tsys
  files :: fs
  keys :: kbd
  display :: scr

text \<open>
  What a call depends on besides: the keyboard interrupts while \<open>read_char\<close> waits, what uninitialised structures
  on the stack hold, the buffer \<open>nvfs_append\<close> gets, and the addresses of the string constants.
\<close>

record env =
  irqs :: "bool list list"
  junk :: "nvfs_extent list"
  junk_size :: u32
  junk_type :: u8
  append_got :: bool
  append_heap :: "nat \<Rightarrow> u8"
  rodata :: "string \<Rightarrow> u32"

definition SYS_EXIT :: u32 where "SYS_EXIT = 0"
definition SYS_CLEAR_SCREEN :: u32 where "SYS_CLEAR_SCREEN = 1"
definition SYS_PRINT_CHAR :: u32 where "SYS_PRINT_CHAR = 2"
definition SYS_PRINT_STRING :: u32 where "SYS_PRINT_STRING = 3"
definition SYS_PRINT_HEX :: u32 where "SYS_PRINT_HEX = 4"
definition SYS_PRINT_INT :: u32 where "SYS_PRINT_INT = 5"
definition SYS_SET_CURSOR :: u32 where "SYS_SET_CURSOR = 6"
definition SYS_GET_CHAR :: u32 where "SYS_GET_CHAR = 7"
definition SYS_READ_CHAR :: u32 where "SYS_READ_CHAR = 8"
definition SYS_IS_GRAPHICS :: u32 where "SYS_IS_GRAPHICS = 9"
definition SYS_DRAW_PIXEL :: u32 where "SYS_DRAW_PIXEL = 10"
definition SYS_FILL_RECT :: u32 where "SYS_FILL_RECT = 11"
definition SYS_FB_COLS :: u32 where "SYS_FB_COLS = 12"
definition SYS_FB_ROWS :: u32 where "SYS_FB_ROWS = 13"
definition SYS_SLEEP_MS :: u32 where "SYS_SLEEP_MS = 14"
definition SYS_GET_TICKS :: u32 where "SYS_GET_TICKS = 15"
definition SYS_MALLOC :: u32 where "SYS_MALLOC = 16"
definition SYS_FREE :: u32 where "SYS_FREE = 17"
definition SYS_NVFS_READ :: u32 where "SYS_NVFS_READ = 18"
definition SYS_NVFS_WRITE :: u32 where "SYS_NVFS_WRITE = 19"
definition SYS_NVFS_APPEND :: u32 where "SYS_NVFS_APPEND = 20"
definition SYS_NVFS_DELETE :: u32 where "SYS_NVFS_DELETE = 21"
definition SYS_NVFS_MKDIR :: u32 where "SYS_NVFS_MKDIR = 22"
definition SYS_NVFS_RMDIR :: u32 where "SYS_NVFS_RMDIR = 23"
definition SYS_NVFS_CHDIR :: u32 where "SYS_NVFS_CHDIR = 24"
definition SYS_NVFS_GET_CWD :: u32 where "SYS_NVFS_GET_CWD = 25"
definition SYS_NVFS_LIST :: u32 where "SYS_NVFS_LIST = 26"
definition SYS_NVFS_STRERROR :: u32 where "SYS_NVFS_STRERROR = 27"
definition SYS_NVFS_IS_MOUNTED :: u32 where "SYS_NVFS_IS_MOUNTED = 28"
definition SYS_YIELD :: u32 where "SYS_YIELD = 29"

lemmas sys_consts = SYS_EXIT_def SYS_CLEAR_SCREEN_def SYS_PRINT_CHAR_def SYS_PRINT_STRING_def SYS_PRINT_HEX_def
  SYS_PRINT_INT_def SYS_SET_CURSOR_def SYS_GET_CHAR_def SYS_READ_CHAR_def SYS_IS_GRAPHICS_def SYS_DRAW_PIXEL_def
  SYS_FILL_RECT_def SYS_FB_COLS_def SYS_FB_ROWS_def SYS_SLEEP_MS_def SYS_GET_TICKS_def SYS_MALLOC_def SYS_FREE_def
  SYS_NVFS_READ_def SYS_NVFS_WRITE_def SYS_NVFS_APPEND_def SYS_NVFS_DELETE_def SYS_NVFS_MKDIR_def SYS_NVFS_RMDIR_def
  SYS_NVFS_CHDIR_def SYS_NVFS_GET_CWD_def SYS_NVFS_LIST_def SYS_NVFS_STRERROR_def SYS_NVFS_IS_MOUNTED_def SYS_YIELD_def

section \<open>Memory of the caller\<close>

partial_function (option) read_cstr :: "u32 \<Rightarrow> vm \<Rightarrow> u32 \<Rightarrow> u8 list option" where
  "read_cstr dir v a =
     (case translate dir v a of None \<Rightarrow> None | Some p \<Rightarrow>
      if pmem v p = 0 then Some [] else Option.bind (read_cstr dir v (a + 1)) (\<lambda>cs. Some (pmem v p # cs)))"

fun read_bytes :: "u32 \<Rightarrow> vm \<Rightarrow> u32 \<Rightarrow> nat \<Rightarrow> u8 list option" where
  "read_bytes dir v a 0 = Some []"
| "read_bytes dir v a (Suc n) =
     (case translate dir v a of None \<Rightarrow> None | Some p \<Rightarrow>
      Option.bind (read_bytes dir v (a + 1) n) (\<lambda>bs. Some (pmem v p # bs)))"

declare read_cstr.simps [code]

definition user_string :: "nat \<Rightarrow> u32 \<Rightarrow> kernel \<Rightarrow> u8 list option" where
  "user_string cpu a k = read_cstr (cpu_cr3 (tsk k) cpu) (vm (tsk k)) a"

definition user_store :: "nat \<Rightarrow> u32 \<Rightarrow> u8 list \<Rightarrow> kernel \<Rightarrow> kernel option" where
  "user_store cpu a bs k =
     Option.bind (store_bytes (cpu_cr3 (tsk k) cpu) a bs (vm (tsk k))) (\<lambda>v. Some (k\<lparr>tsk := (tsk k)\<lparr>vm := v\<rparr>\<rparr>))"

text \<open>
  An operation of the heap on the memory that the address space of the CPU shows at the addresses of the heap.
\<close>

definition on_heap :: "nat \<Rightarrow> (mem \<Rightarrow> ('r \<times> mem) option) \<Rightarrow> kernel \<Rightarrow> ('r \<times> kernel) option" where
  "on_heap cpu f k =
     (let dir = cpu_cr3 (tsk k) cpu; v = vm (tsk k);
          m = (\<lambda>a. case translate dir v a of None \<Rightarrow> 0 | Some p \<Rightarrow> pmem v p)
      in Option.bind (f m) (\<lambda>(r, m).
         Option.bind (user_store cpu HEAP_START (map (\<lambda>i. m (HEAP_START + w32 i)) [0..<unat HEAP_SIZE]) k) (\<lambda>k. Some (r, k))))"

definition malloc_user :: "nat \<Rightarrow> u32 \<Rightarrow> kernel \<Rightarrow> (u32 \<times> kernel) option" where
  "malloc_user cpu sz = on_heap cpu (malloc_impl sz)"

definition free_user :: "nat \<Rightarrow> u32 \<Rightarrow> kernel \<Rightarrow> kernel option" where
  "free_user cpu ptr k = map_option snd (on_heap cpu (\<lambda>m. Some ((), free_impl ptr m)) k)"

section \<open>The end of a task\<close>

definition free_task_resources :: "u32 \<Rightarrow> tsys \<Rightarrow> tsys" where
  "free_task_resources t s =
     (let dir = page_dir (store s t);
          s = (if dir \<noteq> 0 \<and> dir \<noteq> kernel_page_dir (vm s)
               then upd t (\<lambda>x. x\<lparr>page_dir := kernel_page_dir (vm s)\<rparr>) (on_vm (free_user_dir dir) s) else s);
          stack = kernel_stack_base (store s t)
      in if stack \<noteq> 0
         then upd t (\<lambda>x. x\<lparr>kernel_stack_base := 0\<rparr>)
                (on_vm (\<lambda>v. v\<lparr>frames := free_frames stack (drop_bit 12 TASK_STACK_SIZE) (frames v)\<rparr>) s)
         else s)"

definition exit_next :: "(u32 \<Rightarrow> task) \<Rightarrow> u32 \<Rightarrow> u32 \<Rightarrow> bool" where
  "exit_next st cur t \<longleftrightarrow>
     tstate (st t) = TASK_READY \<and> cpu_assigned (st t) < 0 \<and> kernel_esp (st t) \<noteq> 0 \<and> t \<noteq> cur"

partial_function (option) exit_scan :: "(u32 \<Rightarrow> task) \<Rightarrow> u32 \<Rightarrow> u32 \<Rightarrow> u32 \<Rightarrow> u32 option option" where
  "exit_scan st head cur t =
     (if exit_next st cur t then Some (Some t)
      else if link (st t) \<noteq> head then exit_scan st head cur (link (st t)) else Some None)"

declare exit_scan.simps [code]

text \<open>\<open>dispatch\<close> makes the task found the running one, as in a context switch.\<close>

definition sys_exit :: "nat \<Rightarrow> tsys \<Rightarrow> (u32 \<times> tsys) option" where
  "sys_exit cpu s =
     (let cur = current_task s cpu
      in if cur = 0 then Some (0, s)
         else let s = free_task_resources cur s;
                  s = upd cur (\<lambda>x. x\<lparr>tstate := TASK_FREE, cpu_assigned := -1\<rparr>) s
              in case (if ready_head s = 0 then Some None else exit_scan (store s) (ready_head s) cur (ready_head s)) of
                   None \<Rightarrow> None
                 | Some None \<Rightarrow> Some (0, s\<lparr>current_task := (current_task s)(cpu := 0),
                                        cpu_cr3 := (cpu_cr3 s)(cpu := kernel_page_dir (vm s))\<rparr>)
                 | Some (Some nxt) \<Rightarrow> let s = dispatch cpu nxt s in Some (kernel_esp (store s nxt), s))"

section \<open>Output\<close>

definition chars :: "string \<Rightarrow> u8 list" where "chars s = map of_char s"

definition on_display :: "(scr \<Rightarrow> scr option) \<Rightarrow> kernel \<Rightarrow> kernel option" where
  "on_display f k = map_option (\<lambda>d. k\<lparr>display := d\<rparr>) (f (display k))"

text \<open>The lines that \<open>nvfs_list\<close> prints, and what it prints instead when it finds no directory.\<close>

definition list_line :: "u32 \<Rightarrow> u8 \<Rightarrow> u8 list \<times> (u8 \<times> u32) option \<Rightarrow> scr \<Rightarrow> scr option" where
  "list_line jsz jty l d =
     (case l of (name, info) \<Rightarrow>
      let ty = (case info of None \<Rightarrow> jty | Some (ty, _) \<Rightarrow> ty); sz = (case info of None \<Rightarrow> jsz | Some (_, sz) \<Rightarrow> sz);
          type_str = (if info \<noteq> None \<and> ty = NVFS_TYPE_DIR then ''[DIR] '' else ''      '')
      in Option.bind (print_string (chars ''  '') d) (\<lambda>d.
         Option.bind (print_string (chars type_str) d) (\<lambda>d.
         Option.bind (print_string name d) (\<lambda>d.
         Option.bind (print_string (chars ''  '') d) (\<lambda>d.
         Option.bind (print_int sz d) (\<lambda>d.
         print_string (chars (if ty = NVFS_TYPE_DIR then '' <DIR>'' else '' bytes'') @ [10]) d))))))"

fun list_lines :: "u32 \<Rightarrow> u8 \<Rightarrow> (u8 list \<times> (u8 \<times> u32) option) list \<Rightarrow> scr \<Rightarrow> scr option" where
  "list_lines jsz jty [] d = Some d"
| "list_lines jsz jty (l # ls) d = Option.bind (list_line jsz jty l d) (list_lines jsz jty ls)"

definition list_message :: "u8 list \<Rightarrow> fs \<Rightarrow> u8 list" where
  "list_message pathname f =
     (if \<not> mounted f \<or> pathname = [] then []
      else case resolve_path pathname f of
             (None, f) \<Rightarrow> chars ''Path not found'' @ [10]
           | (Some (parent, name), f) \<Rightarrow>
               if name = [] then []
               else case dir_find parent name f of (inum, f) \<Rightarrow>
                    if inum < 0 then chars ''Not found'' @ [10]
                    else case inode_read (of_int inum) f of
                           (None, f) \<Rightarrow> []
                         | (Some inode, f) \<Rightarrow> if itype inode \<noteq> NVFS_TYPE_DIR then chars ''Not a directory'' @ [10] else [])"

section \<open>The handler\<close>

type_synonym outcome = "(u32 \<times> regs \<times> kernel) option"

text \<open>The end of most cases: the result in EAX, and the program goes on with the registers at \<open>p\<close>.\<close>

definition ret :: "u32 \<Rightarrow> regs \<Rightarrow> u32 \<Rightarrow> kernel \<Rightarrow> outcome" where
  "ret p r v k = Some (p, r\<lparr>eax := v\<rparr>, k)"

definition sys_display :: "u32 \<Rightarrow> regs \<Rightarrow> (scr \<Rightarrow> scr option) \<Rightarrow> kernel \<Rightarrow> outcome" where
  "sys_display p r f k = Option.bind (on_display f k) (ret p r 0)"

definition sys_path :: "nat \<Rightarrow> u32 \<Rightarrow> regs \<Rightarrow> (u8 list \<Rightarrow> fs \<Rightarrow> int \<times> fs) \<Rightarrow> kernel \<Rightarrow> outcome" where
  "sys_path cpu p r f k =
     Option.bind (user_string cpu (ebx r) k) (\<lambda>pathname.
       case f pathname (files k) of (res, fl) \<Rightarrow> ret p r (word_of_int res) (k\<lparr>files := fl\<rparr>))"

text \<open>
  The calls that pass data take it from the address in ECX, with its length in EDX. Data that is not mapped
  is taken as a fault also where the code returns an error before it reads the data.
\<close>

definition sys_data :: "nat \<Rightarrow> u32 \<Rightarrow> regs \<Rightarrow> (u8 list \<Rightarrow> (nat \<Rightarrow> u8) \<Rightarrow> u32 \<Rightarrow> fs \<Rightarrow> int \<times> fs) \<Rightarrow> kernel \<Rightarrow> outcome" where
  "sys_data cpu p r f k =
     Option.bind (read_bytes (cpu_cr3 (tsk k) cpu) (vm (tsk k)) (ecx r) (unat (edx r))) (\<lambda>bs.
       sys_path cpu p r (\<lambda>pathname. f pathname (\<lambda>i. if i < length bs then bs ! i else 0) (edx r)) k)"

definition sys_read :: "nat \<Rightarrow> u32 \<Rightarrow> regs \<Rightarrow> kernel \<Rightarrow> outcome" where
  "sys_read cpu p r k =
     Option.bind (user_string cpu (ebx r) k) (\<lambda>pathname.
       case nvfs_read pathname (edx r) (files k) of
         (None, fl) \<Rightarrow> ret p r (-1) (k\<lparr>files := fl\<rparr>)
       | (Some bs, fl) \<Rightarrow> Option.bind (user_store cpu (ecx r) bs (k\<lparr>files := fl\<rparr>)) (ret p r (w32 (length bs))))"

definition sys_chdir :: "nat \<Rightarrow> u32 \<Rightarrow> regs \<Rightarrow> kernel \<Rightarrow> outcome" where
  "sys_chdir cpu p r k =
     Option.bind (if ebx r = 0 then Some [] else user_string cpu (ebx r) k) (\<lambda>pathname.
       case nvfs_chdir pathname (files k) of (res, out, fl) \<Rightarrow>
       let k = k\<lparr>files := fl\<rparr>
       in Option.bind (case out of Some i \<Rightarrow> if ecx r \<noteq> 0 then user_store cpu (ecx r) (bytes32 i) k else Some k | None \<Rightarrow> Some k)
            (ret p r (word_of_int res)))"

definition sys_list :: "nat \<Rightarrow> env \<Rightarrow> u32 \<Rightarrow> regs \<Rightarrow> kernel \<Rightarrow> outcome" where
  "sys_list cpu e p r k =
     Option.bind (if ebx r = 0 then Some [] else user_string cpu (ebx r) k) (\<lambda>pathname.
       case nvfs_list pathname (files k) of (res, ls, fl) \<Rightarrow>
       Option.bind (on_display (\<lambda>d. Option.bind (print_string (list_message pathname (files k)) d) (list_lines (junk_size e) (junk_type e) ls))
                      (k\<lparr>files := fl\<rparr>))
         (ret p r (word_of_int res)))"

definition sys_sleep :: "nat \<Rightarrow> u32 \<Rightarrow> regs \<Rightarrow> kernel \<Rightarrow> outcome" where
  "sys_sleep cpu p r k =
     Option.bind (task_block_and_switch cpu p (tick_count (tsk k) + (ebx r + 9) div 10) (tsk k))
       (\<lambda>(esp, s). Some (esp, r, k\<lparr>tsk := s\<rparr>))"

definition sys_yield :: "nat \<Rightarrow> u32 \<Rightarrow> regs \<Rightarrow> kernel \<Rightarrow> outcome" where
  "sys_yield cpu p r k =
     Option.bind (task_yield cpu p (tsk k)) (\<lambda>(esp, s).
       let k = k\<lparr>tsk := s\<rparr> in if esp \<noteq> 0 then Some (esp, r, k) else ret p r 0 k)"

definition sys_unknown :: "u32 \<Rightarrow> regs \<Rightarrow> kernel \<Rightarrow> outcome" where
  "sys_unknown p r k =
     Option.bind (on_display (\<lambda>d.
       Option.bind (serial_write_string (chars ''[elf] unknown syscall: '') d) (\<lambda>d.
       Option.bind (serial_write_hex (eax r) d) (\<lambda>d. serial_write_string [10] d))) k) (ret p r 0xFFFFFFFF)"

definition syscall_handler :: "nat \<Rightarrow> env \<Rightarrow> u32 \<Rightarrow> regs \<Rightarrow> kernel \<Rightarrow> outcome" where
  "syscall_handler cpu e p r k =
     (let num = eax r; b = ebx r; c = ecx r; d = edx r in
      if num = SYS_EXIT
      then Option.bind (on_display (serial_write_string (chars ''[elf] user task exit'' @ [10])) k) (\<lambda>k.
           Option.bind (sys_exit cpu (tsk k)) (\<lambda>(esp, s). Some (esp, r, k\<lparr>tsk := s\<rparr>)))
      else if num = SYS_CLEAR_SCREEN then sys_display p r (\<lambda>s. Some (clear_screen s)) k
      else if num = SYS_PRINT_CHAR then sys_display p r (\<lambda>s. Some (print_char (ucast b) s)) k
      else if num = SYS_PRINT_STRING then Option.bind (user_string cpu b k) (\<lambda>cs. sys_display p r (print_string cs) k)
      else if num = SYS_PRINT_HEX then sys_display p r (print_hex b) k
      else if num = SYS_PRINT_INT then sys_display p r (print_int b) k
      else if num = SYS_SET_CURSOR then sys_display p r (\<lambda>s. Some (set_cursor (sint b) (sint c) s)) k
      else if num = SYS_GET_CHAR then (case get_char (keys k) of (ch, s) \<Rightarrow> ret p r (ucast ch) (k\<lparr>keys := s\<rparr>))
      else if num = SYS_READ_CHAR
      then Option.bind (read_char (irqs e) (keys k)) (\<lambda>(ch, s). ret p r (ucast ch) (k\<lparr>keys := s\<rparr>))
      else if num = SYS_IS_GRAPHICS then ret p r (if is_graphics_active (display k) then 1 else 0) k
      else if num = SYS_DRAW_PIXEL then sys_display p r (\<lambda>s. Some (draw_pixel (sint b) (sint c) d s)) k
      else if num = SYS_FILL_RECT then sys_display p r (\<lambda>s. Some (fill_rect (sint b) (sint c) (sint d) (sint (esi r)) (edi r) s)) k
      else if num = SYS_FB_COLS then ret p r (word_of_int (fb_cols (display k))) k
      else if num = SYS_FB_ROWS then ret p r (word_of_int (fb_rows (display k))) k
      else if num = SYS_SLEEP_MS then sys_sleep cpu p r k
      else if num = SYS_YIELD then sys_yield cpu p r k
      else if num = SYS_GET_TICKS then ret p r (tick_count (tsk k)) k
      else if num = SYS_MALLOC then Option.bind (malloc_user cpu b k) (\<lambda>(a, k). ret p r a k)
      else if num = SYS_FREE then Option.bind (free_user cpu b k) (ret p r 0)
      else if num = SYS_NVFS_READ then sys_read cpu p r k
      else if num = SYS_NVFS_WRITE then sys_data cpu p r (nvfs_write (junk e)) k
      else if num = SYS_NVFS_APPEND then sys_data cpu p r (nvfs_append (append_got e) (append_heap e)) k
      else if num = SYS_NVFS_DELETE then sys_path cpu p r nvfs_delete k
      else if num = SYS_NVFS_MKDIR then sys_path cpu p r (nvfs_mkdir (junk e)) k
      else if num = SYS_NVFS_RMDIR then sys_path cpu p r nvfs_rmdir k
      else if num = SYS_NVFS_CHDIR then sys_chdir cpu p r k
      else if num = SYS_NVFS_GET_CWD then ret p r (nvfs_get_cwd (files k)) k
      else if num = SYS_NVFS_LIST then sys_list cpu e p r k
      else if num = SYS_NVFS_STRERROR then ret p r (rodata e (nvfs_strerror (sint b))) k
      else if num = SYS_NVFS_IS_MOUNTED then ret p r (if nvfs_is_mounted (files k) then 1 else 0) k
      else sys_unknown p r k)"

end
