(* ===== verification/UserExit.thy ===== *)
theory UserExit
  imports Syscall ElfProps
begin

text \<open>
  The end of a user task: the memory that a loaded program holds is returned exactly, and the CPU goes on
  with another task.
\<close>

section \<open>Freeing frames\<close>

text \<open>The frames of \<open>S\<close>, and no others, are free; the memory itself has not changed.\<close>

definition freed :: "nat set \<Rightarrow> vm \<Rightarrow> vm \<Rightarrow> bool" where
  "freed S v v' \<longleftrightarrow> pmem v' = pmem v \<and> kernel_page_dir v' = kernel_page_dir v \<and> (\<forall>u. owned v' u \<longleftrightarrow> owned v u \<and> u \<notin> S)"

lemma freed_refl: "freed {} v v"
  by (simp add: freed_def)

lemma freed_trans: "freed S v v1 \<Longrightarrow> freed S' v1 v2 \<Longrightarrow> freed (S \<union> S') v v2"
  by (auto simp: freed_def)

lemma FRAME_pg: "t < 1048576 \<Longrightarrow> FRAME (pg t) = w32 t"
  by (rule w32_eq_unatI) (simp_all add: FRAME_def FRAME_SIZE_def pg_def unat_div)

lemma freed_page:
  assumes "t < 1048576" "t \<noteq> 0"
  shows "freed {t} v (free_page (pg t) v)"
proof -
  have "pg t \<noteq> 0" using assms by (simp add: pg_def)
  moreover have "w32 u = w32 t \<longleftrightarrow> u = t" if "u < unat (total_frames (frames v))" for u
    using that assms(1) order_less_trans [OF that unat_lt_2p32] by simp
  moreover have "w32 t < total_frames (frames v) \<longleftrightarrow> t < unat (total_frames (frames v))"
    using assms(1) by (simp add: word_less_nat_alt)
  ultimately show ?thesis
    using assms by (auto simp: freed_def owned_def free_page_def free_frame_def Let_def FRAME_pg frames.test_clear)
qed

lemma freed_fold:
  assumes "\<And>x w. x \<in> set xs \<Longrightarrow> pmem w = pmem v \<Longrightarrow> kernel_page_dir w = kernel_page_dir v \<Longrightarrow> freed (S x) w (f x w)"
  shows "freed (\<Union>x \<in> set xs. S x) v (fold f xs v)"
  using assms
proof (induction xs arbitrary: v)
  case (Cons x xs)
  have h: "freed (S x) v (f x v)" using Cons.prems by simp
  then have "freed (\<Union>x \<in> set xs. S x) (f x v) (fold f xs (f x v))" using Cons.prems by (intro Cons.IH) (auto simp: freed_def)
  then show ?case using freed_trans [OF h] by simp
qed (simp add: freed_refl)

lemma freed_run:
  assumes "b + 4 \<le> 1048576"
  shows "freed {b..<b + 4} v (v\<lparr>frames := free_frames (pg b) 4 (frames v)\<rparr>)"
proof -
  have mem: "w32 u \<in> set (run_from (w32 b) 0 4) \<longleftrightarrow> b \<le> u \<and> u < b + 4" if "u < 4294967296" for u
    using mem_run_from [of "w32 b" 4 "w32 u"] assms that by (simp add: word_le_nat_alt)
  let ?p = "frames v"
  have "owned (v\<lparr>frames := free_frames (pg b) 4 ?p\<rparr>) u \<longleftrightarrow> owned v u \<and> u \<notin> {b..<b + 4}" for u
  proof -
    have tot: "total_frames (free_frames (pg b) 4 ?p) = total_frames ?p" by (rule free_stack_bits(2))
    have "test_bit (free_frames (pg b) 4 ?p) (w32 u) \<longleftrightarrow> test_bit ?p (w32 u) \<and> \<not> (w32 u < total_frames ?p \<and> w32 u \<in> set (run_from (w32 b) 0 4))"
      using assms by (simp add: free_frames_def clear_run_fold frames.test_clear_all FRAME_pg) blast
    moreover have "w32 u < total_frames ?p" "u < 4294967296" if "u < unat (total_frames ?p)"
      using that order_less_trans [OF that unat_lt_2p32] by (simp_all add: word_less_nat_alt)
    ultimately show ?thesis using mem [of u] by (auto simp: owned_def tot)
  qed
  then show ?thesis by (simp add: freed_def)
qed

section \<open>The address space of a task\<close>

lemma pte_value_frame: "t < 1048576 \<Longrightarrow> pte_value (pg t) user_flags AND 0xFFFFF000 = pg t"
  unfolding pte_value_def using pg_mask [of t] mask_or_flags [of t "PAGE_PRESENT OR (user_flags AND (PAGE_WRITE OR PAGE_USER OR PAGE_PRESENT))"]
  by simp

lemma user_pte:
  assumes us: "user_space L v0 d F 512 v" and L: "\<And>a. unat a div 4194304 = 2 \<Longrightarrow> L a = None" and j: "j < 1024"
  defines "e \<equiv> entry (pmem v) (pg (user_table d v)) (w32 j)"
  shows "j < 512 \<Longrightarrow> present e \<and> e AND 0xFFFFF000 = pg (F j)" and "512 \<le> j \<Longrightarrow> \<not> present e"
proof -
  note U = user_spaceD [OF us]
  obtain T where T: "tables d v T" using U(1) by (auto simp: vm_wf_def)
  have pr: "present (pde d v 2)" using user_present [OF us] by simp
  let ?a = "w32 (0x800000 + 4096 * j)"
  have a: "unat ?a = 0x800000 + 4096 * j" using j by simp
  have pa: "unat ?a div 4096 = j + 2 * 1024" unfolding a by simp
  then have "unat ?a div 4096 mod 1024 = j" using j by (simp only: mod_mult_self1 mod_less)
  then have ix: "unat ?a div 4194304 = 2" "unat ?a div 4096 mod 1024 = j" "page_of ?a = 2048 + j"
    using j pa by (simp_all add: page_of_def div_nat_eqI)
  have "lookup d v ?a = (if present (pde d v 2) \<and> present e then Some e else None)"
    unfolding lookup_tables [OF T] ix e_def user_table_T [OF U(1) T pr] by simp
  then have l: "lookup d v ?a = (if present e then Some e else None)" using pr by simp
  show "present e \<and> e AND 0xFFFFF000 = pg (F j)" if "j < 512"
  proof -
    have "page_of ?a = page_of (user_page j)" using ix(3) user_page(1) [OF that] by simp
    then have "lookup d v ?a = lookup d v (user_page j)" by (rule same_page_lookup)
    then have "lookup d v ?a = Some (pte_value (pg (F j)) user_flags)" using U(5) [OF that] by simp
    then have e: "present e" "e = pte_value (pg (F j)) user_flags" using l by (auto split: if_splits)
    have "F j < 1048576" using owned_bound [of v "F j"] U(1) U(5) [OF that] by (fastforce simp: vm_wf_def)
    then show ?thesis using e pte_value_frame by simp
  qed
  show "\<not> present e" if "512 \<le> j"
    using l U(7) [of ?a] L [OF ix(1)] ix(3) that by (auto split: if_splits)
qed

lemma freed_table:
  assumes us: "user_space L v0 d F 512 v" and L: "\<And>a. unat a div 4194304 = 2 \<Longrightarrow> L a = None"
    and z: "owned v0 0" and w: "pmem w = pmem v"
  shows "freed (insert (user_table d v) (F ` {..<512})) w (free_table (pg (user_table d v)) w)"
proof -
  let ?T = "user_table d v" and ?P = "\<lambda>j. entry (pmem v) (pg (user_table d v)) (w32 j)"
  note U = user_spaceD [OF us]
  have pfa: "pfa_wf (frames v)" using U(1) by (simp add: vm_wf_def)
  have T: "?T < 1048576" "?T \<noteq> 0"
    using user_table_owned [OF U(1)] user_present [OF us] owned_bound [OF pfa, of ?T] U(4) z by (cases "?T = 0"; simp)+
  have F: "F j < 1048576" "F j \<noteq> 0" if "j < 512" for j
    using U(5) [OF that] owned_bound [OF pfa, of "F j"] z by (cases "F j = 0"; simp)+
  have "freed (\<Union>j \<in> set [0..<1024]. if j < 512 then {F j} else {}) w
      (fold (\<lambda>j v. if entry (pmem v) (pg ?T) (w32 j) AND PAGE_PRESENT \<noteq> 0
                   then free_page (entry (pmem v) (pg ?T) (w32 j) AND 0xFFFFF000) v else v) [0..<1024] w)"
  proof (rule freed_fold)
    fix j and x :: vm assume j: "j \<in> set [0..<1024]" and "pmem x = pmem w"
    then have x: "pmem x = pmem v" "j < 1024" using w by simp_all
    show "freed (if j < 512 then {F j} else {}) x
        (if entry (pmem x) (pg ?T) (w32 j) AND PAGE_PRESENT \<noteq> 0 then free_page (entry (pmem x) (pg ?T) (w32 j) AND 0xFFFFF000) x else x)"
    proof (cases "j < 512")
      case True
      then show ?thesis using user_pte(1) [OF us L x(2) True] freed_page [OF F(1,2) [OF True], of x] by (simp add: x(1) present_def)
    next
      case False
      then show ?thesis using user_pte(2) [OF us L x(2)] freed_refl by (simp add: x(1) present_def)
    qed
  qed
  moreover have "(\<Union>j \<in> {0..<1024}. if j < 512 then {F j} else {}) = F ` {..<512}" by (auto split: if_splits) force
  ultimately have "freed (F ` {..<512}) w
      (fold (\<lambda>j v. if entry (pmem v) (pg ?T) (w32 j) AND PAGE_PRESENT \<noteq> 0
                   then free_page (entry (pmem v) (pg ?T) (w32 j) AND 0xFFFFF000) v else v) [0..<1024] w)" by (simp only: set_upt)
  from freed_trans [OF this freed_page [OF T]] show ?thesis unfolding free_table_def by simp
qed

lemma freed_user_dir:
  assumes us: "user_space L v0 d F 512 v" and L: "\<And>a. unat a div 4194304 = 2 \<Longrightarrow> L a = None" and z: "owned v0 0"
    and wf: "vm_wf k v0" and kd: "kernel_page_dir v0 = pg k"
  shows "freed (taken d F 512 v) v (free_user_dir (pg d) v)"
proof -
  note U = user_spaceD [OF us]
  have pfa: "pfa_wf (frames v)" "pfa_wf (frames v0)" using U(1) wf by (simp_all add: vm_wf_def)
  have d: "d < 1048576" "d \<noteq> 0" using U(1,3) owned_bound [OF pfa(1), of d] z by (auto simp: vm_wf_def) (use U(3) z in \<open>cases "d = 0"; simp\<close>)
  have k: "owned v0 k" "k < 1048576" using wf owned_bound [OF pfa(2), of k] by (auto simp: vm_wf_def)
  have kv: "kernel_page_dir v = pg k" "page_of (kernel_page_dir v0) = k"
    using U(2) kd k(2) by (simp_all add: kept_def pg_def page_of_w32)
  have pr: "present (pde d v 2)" using user_present [OF us] by simp
  have kent: "entry (pmem v) (pg k) (w32 i) = pde k v0 i" if "i < 1024" for i
    unfolding pde_def using U(2) k that by (intro entry_cong) (auto simp: kept_def)
  have T: "pde d v 2 AND 0xFFFFF000 = pg (user_table d v)" using U(1) user_table_T [OF U(1) _ pr] tablesD(1) [OF _ _ pr] by (auto simp: vm_wf_def)
  have ne: "pde d v 2 \<noteq> pde k v0 2"
  proof
    assume e: "pde d v 2 = pde k v0 2"
    obtain Tk where Tk: "tables k v0 Tk" using wf by (auto simp: vm_wf_def)
    have "pg (Tk 2) = pg (user_table d v)" using tablesD(1) [OF Tk, of 2] e pr T by simp
    moreover have "Tk 2 < 1048576" "user_table d v < 1048576"
      using vm_bounds(2) [OF wf Tk, of 2] e pr owned_bound [OF pfa(1) user_table_owned [OF U(1) pr]] by simp_all
    ultimately have "Tk 2 = user_table d v" by simp
    then show False using tablesD(2) [OF Tk, of 2] e pr U(4) [OF pr] by simp
  qed
  let ?f = "\<lambda>i v. if entry (pmem v) (pg d) (w32 i) = entry (pmem v) (kernel_page_dir v) (w32 i) then v
                 else if entry (pmem v) (pg d) (w32 i) AND PAGE_PRESENT \<noteq> 0
                      then free_table (entry (pmem v) (pg d) (w32 i) AND 0xFFFFF000) v else v"
  let ?S = "\<lambda>i. if i = 2 then insert (user_table d v) (F ` {..<512}) else {}"
  have "freed (\<Union>i \<in> set [0..<1024]. ?S i) v (fold ?f [0..<1024] v)"
  proof (rule freed_fold)
    fix i and x :: vm assume "i \<in> set [0..<1024]" and x: "pmem x = pmem v" "kernel_page_dir x = kernel_page_dir v"
    then have i: "i < 1024" by simp
    have en: "entry (pmem x) (pg d) (w32 i) = pde d v i" "entry (pmem x) (kernel_page_dir x) (w32 i) = pde k v0 i"
      using x kent [OF i] kv by (simp_all add: pde_def)
    show "freed (?S i) x (?f i x)"
    proof (cases "i = 2")
      case True
      then show ?thesis using ne pr T freed_table [OF us L z x(1)] unfolding en by (simp add: present_def)
    next
      case False
      then show ?thesis using U(8) [OF i False] freed_refl [of x] unfolding en kv(2) by (auto simp: present_def)
    qed
  qed
  moreover have "(\<Union>i \<in> set [0..<1024]. ?S i) = insert (user_table d v) (F ` {..<512})" by (auto split: if_splits)
  ultimately have "freed (insert (user_table d v) (F ` {..<512})) v (fold ?f [0..<1024] v)" by (simp only:)
  from freed_trans [OF this freed_page [OF d]] show ?thesis
    using pr unfolding free_user_dir_def taken_def by (simp add: insert_commute)
qed

section \<open>The task\<close>

lemma free_task_resources_frames:
  assumes h: "holds_memory v0 t d s" and z: "owned v0 0" and wf: "vm_wf k v0" and kd: "kernel_page_dir v0 = pg k"
  defines "s' \<equiv> free_task_resources t s"
  shows "owned (vm s') u \<longleftrightarrow> owned v0 u \<or> u = page_of t"
    and "pmem (vm s') = pmem (vm s)" and "kernel_page_dir (vm s') = kernel_page_dir v0"
    and "store s' = (store s)(t := (store s t)\<lparr>page_dir := kernel_page_dir v0, kernel_stack_base := 0\<rparr>)"
    and "ready_head s' = ready_head s" and "current_task s' = current_task s" and "kept v0 (vm s)"
proof -
  obtain L F b where us: "user_space L v0 d F 512 (vm s)" and L: "\<And>a. unat a div 4194304 = 2 \<Longrightarrow> L a = None"
    and t: "page_dir (store s t) = pg d" "kernel_stack_base (store s t) = pg b" "b + 4 \<le> 1048576" "b \<noteq> 0"
      "page_of t \<notin> taken d F 512 (vm s) \<union> {b..<b + 4}" "d \<noteq> 0"
    and g: "grown v0 (insert (page_of t) (taken d F 512 (vm s) \<union> {b..<b + 4})) (vm s)"
    using h unfolding holds_memory_def by blast
  note U = user_spaceD [OF us]
  show "kept v0 (vm s)" by (rule U(2))
  then have kd': "kernel_page_dir (vm s) = pg k" using kd by (simp add: kept_def)
  have d: "d < 1048576" using U(1) owned_bound [of "vm s" d] by (auto simp: vm_wf_def)
  have k: "owned v0 k" "k < 1048576" using wf owned_bound [of v0 k] by (auto simp: vm_wf_def)
  have "pg d \<noteq> 0" "pg d \<noteq> pg k" "pg b \<noteq> 0" using d k U(3) t(3,4,6) by (auto simp: pg_def)
  then have e: "s' = upd t (\<lambda>x. x\<lparr>kernel_stack_base := 0\<rparr>) (on_vm (\<lambda>v. v\<lparr>frames := free_frames (pg b) 4 (frames v)\<rparr>)
      (upd t (\<lambda>x. x\<lparr>page_dir := kernel_page_dir (vm s)\<rparr>) (on_vm (free_user_dir (pg d)) s)))"
    unfolding s'_def free_task_resources_def using t(1,2) kd' by (simp add: Let_def on_vm_def)
  have f: "freed (taken d F 512 (vm s) \<union> {b..<b + 4}) (vm s) (vm s')"
    unfolding e using freed_trans [OF freed_user_dir [OF us L z wf kd] freed_run [OF t(3)]] by (simp add: on_vm_def)
  then show "pmem (vm s') = pmem (vm s)" "kernel_page_dir (vm s') = kernel_page_dir v0" using kd kd' by (simp_all add: freed_def)
  show "owned (vm s') u \<longleftrightarrow> owned v0 u \<or> u = page_of t" using f g t(5) unfolding freed_def grown_def by blast
  show "store s' = (store s)(t := (store s t)\<lparr>page_dir := kernel_page_dir v0, kernel_stack_base := 0\<rparr>)"
    using kd kd' by (simp add: e on_vm_def)
  show "ready_head s' = ready_head s" "current_task s' = current_task s" by (simp_all add: e on_vm_def)
qed

lemma exit_scan_find:
  "path st t (t # ts) h \<Longrightarrow> h \<notin> set ts \<Longrightarrow> exit_scan st h c t = Some (find (exit_next st c) (t # ts))"
proof (induction ts arbitrary: t)
  case Nil
  then show ?case by (subst exit_scan.simps) simp
next
  case (Cons u ts)
  then have "exit_scan st h c u = Some (find (exit_next st c) (u # ts))" by simp
  with Cons.prems show ?case by (subst exit_scan.simps) auto
qed

lemma exit_scan_ring:
  assumes r: "ring st h ts"
  shows "(if h = 0 then Some None else exit_scan st h c h) = Some (find (exit_next st c) ts)"
proof (cases ts)
  case Nil
  then show ?thesis using r by (simp add: ring_def)
next
  case (Cons t us)
  then have "h = t" "t \<noteq> 0" "path st t (t # us) t" "t \<notin> set us" using r by (auto simp: ring_def)
  then show ?thesis using exit_scan_find [of st t us t c] Cons by simp
qed

lemma sys_exit_frees:
  assumes h: "holds_memory v0 t d s" and z: "owned v0 0" and wf: "vm_wf k v0" and kd: "kernel_page_dir v0 = pg k"
    and r: "ring (store s) (ready_head s) ts" and t: "t \<in> set ts" and c: "current_task s c = t"
  obtains esp s2 where "sys_exit c s = Some (esp, s2)" and "\<And>u. owned (vm s2) u \<longleftrightarrow> owned v0 u \<or> u = page_of t"
    and "pmem (vm s2) = pmem (vm s)" and "tstate (store s2 t) = TASK_FREE"
    and "case find (exit_next (store s) t) ts of
          None \<Rightarrow> esp = 0 \<and> current_task s2 c = 0 \<and> cpu_cr3 s2 c = pg k
        | Some n \<Rightarrow> esp = kernel_esp (store s n) \<and> current_task s2 c = n \<and> cpu_cr3 s2 c = page_dir (store s n) \<and>
            tstate (store s2 n) = TASK_RUNNING"
proof -
  note R = free_task_resources_frames [OF h z wf kd]
  let ?s = "upd t (\<lambda>x. x\<lparr>tstate := TASK_FREE, cpu_assigned := -1\<rparr>) (free_task_resources t s)"
  have t0: "t \<noteq> 0" using r t by (auto simp: ring_def)
  have "ring (store ?s) (ready_head s) ts" using r by (subst ring_cong [of ts _ "store s"]) (simp_all add: R(4))
  note scan' = exit_scan_ring [OF this, of t]
  have "find (exit_next (store ?s) t) ts = find (exit_next (store s) t) ts"
    by (rule find_cong) (simp add: R(4) exit_next_def)
  then have scan: "(if ready_head ?s = 0 then Some None else exit_scan (store ?s) (ready_head ?s) t (ready_head ?s)) =
      Some (find (exit_next (store s) t) ts)"
    using scan' R(5) by (simp only: upd_other)
  show thesis
  proof (cases "find (exit_next (store s) t) ts")
    case None
    let ?s2 = "?s\<lparr>current_task := (current_task ?s)(c := 0), cpu_cr3 := (cpu_cr3 ?s)(c := kernel_page_dir (vm ?s))\<rparr>"
    have "sys_exit c s = Some (0, ?s2)" unfolding sys_exit_def Let_def c scan using t0 None by simp
    then show thesis using None R kd by (intro that [of 0 ?s2]) simp_all
  next
    case (Some n)
    then have n: "n \<noteq> t" using find_Some_mem [OF Some] by (simp add: exit_next_def)
    have "sys_exit c s = Some (kernel_esp (store (dispatch c n ?s) n), dispatch c n ?s)"
      unfolding sys_exit_def Let_def c scan using t0 Some by simp
    then show thesis using Some R n by (intro that [of _ "dispatch c n ?s"]) simp_all
  qed
qed



end
