(* ===== verification/Acpi.thy ===== *)
theory Acpi
  imports Elf
begin

text \<open>
  The tables of the firmware, \<^verbatim>\<open>kernel/acpi/rsdp.c\<close> and \<^verbatim>\<open>kernel/acpi/madt.c\<close>: the search for the root
  pointer, the walk over the root table, and the list of processors. The code runs with paging on, so every
  byte is read through the current page directory; \<open>None\<close> stands for a page fault or for a loop that never ends.
\<close>

section \<open>Reading memory\<close>

definition byte_at :: "vm \<Rightarrow> u32 \<Rightarrow> u8 option" where
  "byte_at v a = map_option (pmem v) (translate (cr3 v) v a)"

fun bytes_at :: "vm \<Rightarrow> u32 \<Rightarrow> nat \<Rightarrow> u8 list option" where
  "bytes_at v a 0 = Some []"
| "bytes_at v a (Suc n) =
     Option.bind (byte_at v a) (\<lambda>b. Option.bind (bytes_at v (a + 1) n) (\<lambda>bs. Some (b # bs)))"

fun little_endian :: "u8 list \<Rightarrow> u32" where
  "little_endian [] = 0"
| "little_endian (b # bs) = ucast b OR push_bit 8 (little_endian bs)"

definition word_at_addr :: "vm \<Rightarrow> u32 \<Rightarrow> u32 option" where
  "word_at_addr v a = map_option little_endian (bytes_at v a 4)"

section \<open>The root pointer\<close>

definition RSDP_SIGNATURE :: "u8 list" where "RSDP_SIGNATURE = map of_char ''RSD PTR ''"

definition rsdp_at :: "vm \<Rightarrow> u32 \<Rightarrow> bool option" where
  "rsdp_at v p =
     Option.bind (bytes_at v p 8) (\<lambda>sig.
       if sig = RSDP_SIGNATURE then map_option (\<lambda>bs. sum_list bs = 0) (bytes_at v p 20) else Some False)"

partial_function (option) rsdp_scan :: "vm \<Rightarrow> u32 \<Rightarrow> u32 \<Rightarrow> u32 option" where
  "rsdp_scan v p stop =
     (if p + 20 \<le> stop
      then Option.bind (rsdp_at v p) (\<lambda>found. if found then Some p else rsdp_scan v (p + 16) stop)
      else Some 0)"

declare rsdp_scan.simps [code]

definition rsdp_search_region :: "vm \<Rightarrow> u32 \<Rightarrow> u32 \<Rightarrow> u32 option" where
  "rsdp_search_region v p len = rsdp_scan v p (p + len)"

definition acpi_find_rsdp :: "vm \<Rightarrow> u32 option" where
  "acpi_find_rsdp v =
     Option.bind (bytes_at v 0x040E 2) (\<lambda>seg.
       let ebda_seg = little_endian seg
       in Option.bind (if ebda_seg \<noteq> 0 then rsdp_search_region v (ebda_seg * 16) 1024 else Some 0) (\<lambda>rsdp.
          if rsdp \<noteq> 0 then Some rsdp else rsdp_search_region v 0x000E0000 0x00020000))"

section \<open>Mapping the tables\<close>

definition acpi_checksum :: "vm \<Rightarrow> u32 \<Rightarrow> u32 \<Rightarrow> bool option" where
  "acpi_checksum v a len = map_option (\<lambda>bs. sum_list bs = 0) (bytes_at v a (unat len))"

text \<open>Both ends of the loop are multiples of the page size, so it visits the pages from one to the other.\<close>

definition identity_map_region :: "u32 \<Rightarrow> u32 \<Rightarrow> vm \<Rightarrow> vm" where
  "identity_map_region phys sz v =
     (let first = phys AND NOT 0xFFF; last = (phys + sz + 0xFFF) AND NOT 0xFFF
      in fold (\<lambda>n v. snd (map_page (pg n) (pg n) PAGE_WRITE v)) [page_of first..<page_of last] v)"

definition map_access :: "u32 \<Rightarrow> u32 \<Rightarrow> vm \<Rightarrow> u32 \<times> vm" where
  "map_access phys min_size v = (phys, identity_map_region phys min_size v)"

section \<open>Processors\<close>

datatype cpu_state = CPU_UNINITIALIZED | CPU_RUNNING | CPU_IDLE | CPU_HALTED

text \<open>The fields \<open>current_task\<close> and \<open>resched_pending\<close> of the structure belong to the state of the scheduler.\<close>

record cpu_info =
  cpu_id :: nat
  apic_id :: u32
  cpu_st :: cpu_state
  stack_top :: u32

definition MADT_TYPE_PROCESSOR :: u8 where "MADT_TYPE_PROCESSOR = 0"
definition MADT_TYPE_IOAPIC :: u8 where "MADT_TYPE_IOAPIC = 1"
definition SDT_HEADER_SIZE :: u32 where "SDT_HEADER_SIZE = 36"

record acpi =
  acpi_vm :: vm
  cpus :: "nat \<Rightarrow> cpu_info"
  cpu_total :: nat
  lapic_addr :: u32

definition add_cpu :: "u8 \<Rightarrow> acpi \<Rightarrow> acpi" where
  "add_cpu i s =
     (if cpu_total s < MAX_CPU
      then s\<lparr>cpus := (cpus s)(cpu_total s := \<lparr>cpu_id = cpu_total s, apic_id = ucast i, cpu_st = CPU_UNINITIALIZED, stack_top = 0\<rparr>),
             cpu_total := cpu_total s + 1\<rparr>
      else s)"

text \<open>The entry of an I/O APIC is only printed: its two words are read, and nothing else changes.\<close>

definition madt_entry :: "u8 \<Rightarrow> u8 \<Rightarrow> u32 \<Rightarrow> acpi \<Rightarrow> acpi option" where
  "madt_entry type len p s =
     (if type = MADT_TYPE_PROCESSOR \<and> len \<ge> 8
      then Option.bind (word_at_addr (acpi_vm s) (p + 4)) (\<lambda>flags.
           if flags AND 1 \<noteq> 0 \<and> cpu_total s < MAX_CPU
           then map_option (\<lambda>i. add_cpu i s) (byte_at (acpi_vm s) (p + 3)) else Some s)
      else if type = MADT_TYPE_IOAPIC \<and> len \<ge> 12
      then Option.bind (word_at_addr (acpi_vm s) (p + 4)) (\<lambda>_. Option.bind (word_at_addr (acpi_vm s) (p + 8)) (\<lambda>_. Some s))
      else Some s)"

partial_function (option) madt_loop :: "u32 \<Rightarrow> u32 \<Rightarrow> acpi \<Rightarrow> acpi option" where
  "madt_loop p stop s =
     (if p < stop
      then Option.bind (byte_at (acpi_vm s) p) (\<lambda>type. Option.bind (byte_at (acpi_vm s) (p + 1)) (\<lambda>len.
           if len < 2 then Some s
           else Option.bind (madt_entry type len p s) (\<lambda>s. madt_loop (p + ucast len) stop s)))
      else Some s)"

declare madt_loop.simps [code]

text \<open>The walk over the root table: the address of the first good table with the signature of the MADT, or 0.\<close>

fun rsdt_loop :: "nat \<Rightarrow> u32 \<Rightarrow> vm \<Rightarrow> (u32 \<times> vm) option" where
  "rsdt_loop 0 a v = Some (0, v)"
| "rsdt_loop (Suc n) a v =
     Option.bind (word_at_addr v a) (\<lambda>entry_phys.
       let (hdr, v) = map_access entry_phys SDT_HEADER_SIZE v
       in Option.bind (word_at_addr v (hdr + 4)) (\<lambda>hdr_len.
          if hdr_len < SDT_HEADER_SIZE then rsdt_loop n (a + 4) v
          else let (hdr, v) = map_access entry_phys hdr_len v
               in Option.bind (acpi_checksum v hdr hdr_len) (\<lambda>ok.
                  if \<not> ok then rsdt_loop n (a + 4) v
                  else Option.bind (bytes_at v hdr 4) (\<lambda>sig.
                       if sig = map of_char ''APIC'' then Some (hdr, v) else rsdt_loop n (a + 4) v))))"

definition parse_madt_at :: "u32 \<Rightarrow> acpi \<Rightarrow> (int \<times> acpi) option" where
  "parse_madt_at madt s =
     Option.bind (word_at_addr (acpi_vm s) (madt + 36)) (\<lambda>l.
     Option.bind (word_at_addr (acpi_vm s) (madt + 4)) (\<lambda>len.
       map_option (\<lambda>s. (int (cpu_total s), s)) (madt_loop (madt + 44) (madt + len) (s\<lparr>lapic_addr := l, cpu_total := 0\<rparr>))))"

definition acpi_parse_madt :: "acpi \<Rightarrow> (int \<times> acpi) option" where
  "acpi_parse_madt s =
     Option.bind (acpi_find_rsdp (acpi_vm s)) (\<lambda>rsdp.
       if rsdp = 0 then Some (-1, s)
       else Option.bind (word_at_addr (acpi_vm s) (rsdp + 16)) (\<lambda>rsdt_phys.
         let (rsdt, v) = map_access rsdt_phys SDT_HEADER_SIZE (acpi_vm s)
         in Option.bind (word_at_addr v (rsdt + 4)) (\<lambda>rsdt_len.
            if rsdt_len < SDT_HEADER_SIZE then Some (-1, s\<lparr>acpi_vm := v\<rparr>)
            else let (rsdt, v) = map_access rsdt_phys rsdt_len v
                 in Option.bind (acpi_checksum v rsdt rsdt_len) (\<lambda>ok.
                    if \<not> ok then Some (-1, s\<lparr>acpi_vm := v\<rparr>)
                    else Option.bind (rsdt_loop (unat ((rsdt_len - SDT_HEADER_SIZE) div 4)) (rsdt + 36) v) (\<lambda>(madt, v).
                         if madt = 0 then Some (-1, s\<lparr>acpi_vm := v\<rparr>) else parse_madt_at madt (s\<lparr>acpi_vm := v\<rparr>))))))"

definition acpi_get_lapic_addr :: "acpi \<Rightarrow> u32" where
  "acpi_get_lapic_addr s = lapic_addr s"

section \<open>The processors that are found\<close>

text \<open>What the table promises: the identifiers of the enabled processors, in the order of the entries.\<close>

function listed :: "u8 list \<Rightarrow> u8 list" where
  "listed (type # len # bs) =
     (if len < 2 then []
      else (if type = 0 \<and> len \<ge> 8 \<and> bit (bs ! 2) 0 then [bs ! 1] else []) @ listed (drop (unat len - 2) bs))"
| "listed [] = []"
| "listed [b] = []"
  by pat_completeness auto
termination
  by (relation "measure length") auto

declare listed.simps [simp del]

text \<open>The entries fill the table: none is shorter than its own header or longer than what is left.\<close>

function fits :: "u8 list \<Rightarrow> bool" where
  "fits (type # len # bs) \<longleftrightarrow> 2 \<le> len \<and> unat len - 2 \<le> length bs \<and> fits (drop (unat len - 2) bs)"
| "fits [] \<longleftrightarrow> True"
| "fits [b] \<longleftrightarrow> False"
  by pat_completeness auto
termination
  by (relation "measure length") auto

declare fits.simps [simp del]

definition cpu_list :: "acpi \<Rightarrow> u32 list" where
  "cpu_list s = map (\<lambda>i. apic_id (cpus s i)) [0..<cpu_total s]"

lemma bytes_at_drop:
  "bytes_at v a n = Some bs \<Longrightarrow> k \<le> n \<Longrightarrow> length bs = n \<and> bytes_at v (a + w32 k) (n - k) = Some (drop k bs)"
proof (induction n arbitrary: a bs k)
  case (Suc n)
  then obtain b cs where b: "bs = b # cs" "bytes_at v (a + 1) n = Some cs" by (auto split: bind_splits)
  have len: "length cs = n" using Suc.IH [OF b(2), of 0] by simp
  show ?case
  proof (cases k)
    case 0
    with Suc.prems(1) b len show ?thesis by (simp add: w32_def del: bytes_at.simps)
  next
    case (Suc j)
    with Suc.prems(2) Suc.IH [OF b(2), of j] b(1) show ?thesis by (simp add: w32_def add.assoc)
  qed
qed (simp add: w32_def)

lemma byte_at_nth:
  assumes "bytes_at v a n = Some bs" and "i < n"
  shows "byte_at v (a + w32 i) = Some (bs ! i)"
proof -
  from bytes_at_drop [OF assms(1), of i] assms(2) have
    "bytes_at v (a + w32 i) (Suc (n - Suc i)) = Some (drop i bs)" "length bs = n" by (simp_all add: Suc_diff_Suc)
  then show ?thesis using assms(2) by (auto split: bind_splits simp: Cons_nth_drop_Suc [symmetric])
qed

lemma word_at_nth:
  assumes "bytes_at v a n = Some bs" and "i + 4 \<le> n"
  shows "word_at_addr v (a + w32 i) = Some (little_endian (take 4 (drop i bs)))"
proof -
  have "bytes_at v b (k + m) = Some cs \<Longrightarrow> bytes_at v b k = Some (take k cs)" for b k m cs
    by (induction k arbitrary: b cs) (auto split: bind_splits)
  from this [of _ 4 "n - i - 4" "drop i bs"] bytes_at_drop [OF assms(1), of i] assms(2)
  show ?thesis by (simp add: word_at_addr_def)
qed

lemma little_endian_odd: "little_endian (b # bs) AND 1 \<noteq> 0 \<longleftrightarrow> bit b 0"
proof -
  have "bit (little_endian (b # bs)) 0 = bit b 0" by (simp add: bit_or_iff bit_ucast_iff bit_push_bit_iff)
  then show ?thesis by (simp add: and_one_eq bit_0 odd_iff_mod_2_eq_one del: little_endian.simps)
qed

lemma add_cpu_list [simp]:
  "cpu_list (add_cpu i s) = (if cpu_total s < MAX_CPU then cpu_list s @ [ucast i] else cpu_list s)"
  "acpi_vm (add_cpu i s) = acpi_vm s" "lapic_addr (add_cpu i s) = lapic_addr s"
  "cpu_total s \<le> MAX_CPU \<Longrightarrow> cpu_total (add_cpu i s) \<le> MAX_CPU"
  by (auto simp: add_cpu_def cpu_list_def)

lemma cpu_list_step:
  "cpu_list (add_cpu i s) @ take (MAX_CPU - cpu_total (add_cpu i s)) is =
     cpu_list s @ take (MAX_CPU - cpu_total s) (ucast i # is)"
proof (cases "cpu_total s < MAX_CPU")
  case True
  then have "MAX_CPU - cpu_total s = Suc (MAX_CPU - Suc (cpu_total s))" by simp
  with True show ?thesis by (simp add: add_cpu_def cpu_list_def)
qed (simp add: add_cpu_def)

lemma madt_entry_listed:
  assumes bs: "bytes_at (acpi_vm s) p n = Some (type # len # bs)" and len: "2 \<le> len" "unat len \<le> n"
  shows "madt_entry type len p s =
    Some (if type = 0 \<and> 8 \<le> len \<and> bit (bs ! 2) 0 then add_cpu (bs ! 1) s else s)"
proof -
  have word: "word_at_addr (acpi_vm s) (p + w32 i) = Some (little_endian (take 4 (drop i (type # len # bs))))" if "i + 4 \<le> unat len" for i
    using word_at_nth [OF bs, of i] that len by simp
  have l: "length bs = n - 2" using bytes_at_drop [OF bs, of 0] by auto
  have flags: "little_endian (take 4 (drop 2 bs)) AND 1 \<noteq> 0 \<longleftrightarrow> bit (bs ! 2) 0" if "8 \<le> unat len"
    using that len l little_endian_odd [of "bs ! 2" "take 3 (drop 3 bs)"]
    by (simp add: Cons_nth_drop_Suc [symmetric] take_Cons' del: little_endian.simps)
  show ?thesis
    using word [of 4] word [of 8] flags byte_at_nth [OF bs, of 3] len
    by (auto simp: madt_entry_def MADT_TYPE_PROCESSOR_def MADT_TYPE_IOAPIC_def word_le_nat_alt w32_def add_cpu_def)
qed

lemma madt_loop_listed:
  assumes "bytes_at (acpi_vm s) p (length bs) = Some bs" and "fits bs" and "unat p + length bs < 4294967296"
    and "cpu_total s \<le> MAX_CPU"
  shows "\<exists>s'. madt_loop p (p + w32 (length bs)) s = Some s' \<and> acpi_vm s' = acpi_vm s \<and> lapic_addr s' = lapic_addr s \<and>
    cpu_list s' = cpu_list s @ take (MAX_CPU - cpu_total s) (map ucast (listed bs))"
  using assms
proof (induction bs arbitrary: p s rule: listed.induct)
  case (1 type len bs)
  let ?n = "length (type # len # bs)" and ?s = "if type = 0 \<and> 8 \<le> len \<and> bit (bs ! 2) 0 then add_cpu (bs ! 1) s else s"
  have len: "2 \<le> unat len" "unat len \<le> ?n" and fit: "fits (drop (unat len - 2) bs)" "\<not> len < 2"
    using "1.prems"(2) by (auto simp: fits.simps word_le_nat_alt word_less_nat_alt)
  note head = byte_at_nth [OF "1.prems"(1), of 0] byte_at_nth [OF "1.prems"(1), of 1]
  have entry: "madt_entry type len p s = Some ?s"
    by (rule madt_entry_listed [OF "1.prems"(1)]) (use len in \<open>auto simp: word_le_nat_alt\<close>)
  have lt: "p < p + w32 ?n"
    using "1.prems"(3) by (simp add: word_less_nat_alt w32_def unat_word_ariths unat_of_nat del: of_nat_Suc)
  have q: "p + ucast len = p + w32 (unat len)" by (simp add: w32_def)
  have up: "unat (p + w32 (unat len)) = unat p + unat len"
    using "1.prems"(3) len by (subst unat_word_ariths) simp
  have rest: "drop (unat len) (type # len # bs) = drop (unat len - 2) bs"
    using len by (simp add: drop_Cons' numeral_2_eq_2)
  have stop: "p + w32 ?n = p + w32 (unat len) + w32 (length (drop (unat len - 2) bs))"
    using len by (simp add: w32_def add.assoc flip: of_nat_add)
  have same: "acpi_vm ?s = acpi_vm s" "lapic_addr ?s = lapic_addr s" "cpu_total ?s \<le> MAX_CPU" using "1.prems"(4) by simp_all
  let ?r = "drop (unat len - 2) bs"
  have b: "bytes_at (acpi_vm ?s) (p + w32 (unat len)) (length ?r) = Some ?r"
  proof -
    have "bytes_at (acpi_vm s) (p + w32 (unat len)) (?n - unat len) = Some (drop (unat len) (type # len # bs))"
      using bytes_at_drop [OF "1.prems"(1) len(2)] by blast
    moreover have "length ?r = ?n - unat len" using len by simp
    ultimately show ?thesis by (simp only: rest same)
  qed
  have small: "unat (p + w32 (unat len)) + length ?r < 4294967296" using up len "1.prems"(3) by simp
  from "1.IH" [OF fit(2) b fit(1) small same(3), folded stop] obtain s' where
    s': "madt_loop (p + w32 (unat len)) (p + w32 ?n) ?s = Some s'" "acpi_vm s' = acpi_vm ?s" "lapic_addr s' = lapic_addr ?s"
      "cpu_list s' = cpu_list ?s @ take (MAX_CPU - cpu_total ?s) (map ucast (listed ?r))"
    by (elim exE conjE)
  have "madt_loop p (p + w32 ?n) s = Some s'"
  proof -
    have h: "byte_at (acpi_vm s) p = Some type" "byte_at (acpi_vm s) (p + 1) = Some len" using head by (simp_all add: w32_def)
    show ?thesis
      by (subst madt_loop.simps) (simp only: lt h if_True bind.bind_lunit fit(2) if_False entry q s'(1))
  qed
  moreover have "cpu_list s' = cpu_list s @ take (MAX_CPU - cpu_total s) (map ucast (listed (type # len # bs)))"
    unfolding s'(4) listed.simps(1) if_not_P [OF fit(2)] 
    by (simp add: cpu_list_step del: add_cpu_list take_append)
  ultimately show ?case using s'(2,3) same by auto
next
  case (2 p s)
  then show ?case by (subst madt_loop.simps) (simp add: w32_def listed.simps)
qed (simp add: fits.simps)

section \<open>The search\<close>

text \<open>The scan over readable memory ends with the first root pointer of the region, or with 0.\<close>

lemma rsdp_scan_first:
  assumes "\<And>i. i < n \<Longrightarrow> p + w32 (16 * i) + 20 \<le> stop" and "\<not> p + w32 (16 * n) + 20 \<le> stop"
    and "\<And>i. i < n \<Longrightarrow> rsdp_at v (p + w32 (16 * i)) \<noteq> None"
  shows "rsdp_scan v p stop =
    Some (case find (\<lambda>q. rsdp_at v q = Some True) (map (\<lambda>i. p + w32 (16 * i)) [0..<n]) of None \<Rightarrow> 0 | Some q \<Rightarrow> q)"
  using assms
proof (induction n arbitrary: p)
  case 0
  then show ?case by (subst rsdp_scan.simps) (simp add: w32_def)
next
  case (Suc n)
  have shift: "p + w32 (16 * Suc i) = p + 16 + w32 (16 * i)" for i by (simp add: w32_def)
  have next_scan: "rsdp_scan v (p + 16) stop =
      Some (case find (\<lambda>q. rsdp_at v q = Some True) (map (\<lambda>i. p + 16 + w32 (16 * i)) [0..<n]) of None \<Rightarrow> 0 | Some q \<Rightarrow> q)"
    by (rule Suc.IH) (use Suc.prems(1,3) [of "Suc _"] Suc.prems(2) in \<open>simp_all only: shift Suc_less_eq not_False_eq_True\<close>)
  have cands: "map (\<lambda>i. p + w32 (16 * i)) [0..<Suc n] = p # map (\<lambda>i. p + 16 + w32 (16 * i)) [0..<n]"
    by (simp only: upt_conv_Cons [OF zero_less_Suc] list.map map_Suc_upt [symmetric] map_map comp_def shift) (simp add: w32_def)
  from Suc.prems(3) [of 0] obtain r where r: "rsdp_at v p = Some r" by (auto simp: w32_def)
  have le: "p + 20 \<le> stop" using Suc.prems(1) [of 0] by (simp add: w32_def)
  show ?case unfolding cands by (subst rsdp_scan.simps) (cases r; simp add: le r next_scan)
qed

section \<open>The mapping\<close>

text \<open>A page of the region is mapped to itself, unless no frame was left for its table; no other page changes.\<close>

lemma identity_map_pages:
  assumes "vm_wf d v" and "kernel_page_dir v = pg d" and "set ns \<subseteq> {..<1048576}"
  defines "v' \<equiv> fold (\<lambda>n v. snd (map_page (pg n) (pg n) PAGE_WRITE v)) ns v"
  shows "vm_wf d v' \<and> kernel_page_dir v' = pg d \<and>
    (\<forall>a. page_of a \<notin> set ns \<longrightarrow> lookup d v' a = lookup d v a) \<and>
    (\<forall>a. page_of a \<in> set ns \<longrightarrow> lookup d v' a \<in> {None, Some (pte_value (pg (page_of a)) PAGE_WRITE)})"
  using assms(1-3) unfolding v'_def
proof (induction ns arbitrary: v)
  case (Cons n ns)
  let ?v = "snd (map_page (pg n) (pg n) PAGE_WRITE v)"
  have n: "page_of (pg n) = n" using Cons.prems(3) by (simp add: page_of_def pg_def)
  have step: "vm_wf d ?v \<and> kernel_page_dir ?v = pg d \<and> (\<forall>a. page_of a \<noteq> n \<longrightarrow> lookup d ?v a = lookup d v a) \<and>
      (\<forall>a. page_of a = n \<longrightarrow> lookup d ?v a \<in> {None, Some (pte_value (pg n) PAGE_WRITE)})"
  proof (rule map_dir_cases [OF Cons.prems(1), of "pg n" "pg n" PAGE_WRITE], goal_cases)
    case (1 s')
    then show ?thesis using Cons.prems(2) n by (simp add: map_page_def)
  next
    case 2
    then have v: "?v = v" using Cons.prems(2) by (simp add: map_page_def)
    have "lookup d v a = None" if "page_of a = n" for a
      by (rule trans [OF same_page_lookup 2(2)]) (simp add: that n)
    then show ?thesis unfolding v using Cons.prems(1,2) by simp
  qed
  have ns: "set ns \<subseteq> {..<1048576}" using Cons.prems(3) by simp
  note rest = Cons.IH [OF step [THEN conjunct1] step [THEN conjunct2, THEN conjunct1] ns]
  let ?w = "fold (\<lambda>n v. snd (map_page (pg n) (pg n) PAGE_WRITE v)) ns ?v"
  have "lookup d ?w a \<in> {None, Some (pte_value (pg (page_of a)) PAGE_WRITE)}" if "page_of a \<in> set (n # ns)" for a
  proof (cases "page_of a \<in> set ns")
    case True
    with rest show ?thesis by blast
  next
    case False
    with rest have "lookup d ?w a = lookup d ?v a" by blast
    moreover from False that have "page_of a = n" by simp
    ultimately show ?thesis using step by metis
  qed
  moreover have "lookup d ?w a = lookup d v a" if "page_of a \<notin> set (n # ns)" for a
  proof -
    from that have "page_of a \<notin> set ns" "page_of a \<noteq> n" by simp_all
    from rest this(1) have "lookup d ?w a = lookup d ?v a" by blast
    also from step \<open>page_of a \<noteq> n\<close> have "\<dots> = lookup d v a" by blast
    finally show ?thesis .
  qed
  ultimately show ?case unfolding fold_simps by (intro conjI allI impI) (use rest in blast)+
qed simp

lemma identity_map_region_pages:
  fixes phys sz :: u32
  assumes "vm_wf d v" and "kernel_page_dir v = pg d"
  defines "v' \<equiv> identity_map_region phys sz v"
    and "R \<equiv> {page_of (phys AND NOT 0xFFF)..<page_of ((phys + sz + 0xFFF) AND NOT 0xFFF)}"
  shows "vm_wf d v'" and "page_of a \<notin> R \<Longrightarrow> lookup d v' a = lookup d v a"
    and "page_of a \<in> R \<Longrightarrow> lookup d v' a \<in> {None, Some (pte_value (pg (page_of a)) PAGE_WRITE)}"
proof -
  have "page_of x < 1048576" for x using unat_lt_2p32 [of x] by (simp add: page_of_def less_mult_imp_div_less del: unat_lt_2p32)
  then have "set [page_of (phys AND NOT 0xFFF)..<page_of ((phys + sz + 0xFFF) AND NOT 0xFFF)] \<subseteq> {..<1048576}"
    by (auto intro: less_trans)
  from identity_map_pages [OF assms(1,2) this]
  show "vm_wf d v'" "page_of a \<notin> R \<Longrightarrow> lookup d v' a = lookup d v a"
    "page_of a \<in> R \<Longrightarrow> lookup d v' a \<in> {None, Some (pte_value (pg (page_of a)) PAGE_WRITE)}"
    by (simp_all add: v'_def R_def identity_map_region_def Let_def)
qed

end
