(* ===== verification/Gdt.thy ===== *)
theory Gdt
  imports Task
begin

text \<open>
  Segment descriptors and task state segments, \<^verbatim>\<open>kernel/cpu/gdt.c\<close>. What the processor does with
  a descriptor is a set of decoding functions; the loaded registers are part of the state of each CPU.
  The addresses of the tables are parameters.
\<close>

section \<open>Descriptors\<close>

definition GDT_NULL :: u16 where "GDT_NULL = 0x00"
definition GDT_CODE :: u16 where "GDT_CODE = 0x08"
definition GDT_DATA :: u16 where "GDT_DATA = 0x10"
definition GDT_UCODE :: u16 where "GDT_UCODE = 0x18"
definition GDT_UDATA :: u16 where "GDT_UDATA = 0x20"
definition GDT_TSS :: u16 where "GDT_TSS = 0x28"
definition GDT_PERCPU :: u16 where "GDT_PERCPU = 0x30"
definition GDT_ENTRIES :: nat where "GDT_ENTRIES = 7"

lemmas gdt_selectors = GDT_NULL_def GDT_CODE_def GDT_DATA_def GDT_UCODE_def GDT_UDATA_def GDT_TSS_def GDT_PERCPU_def

record gdt_entry =
  limit_low :: u16
  base_low :: u16
  base_middle :: u8
  access :: u8
  granularity :: u8
  base_high :: u8

definition gdt_entry_of :: "u32 \<Rightarrow> u32 \<Rightarrow> u8 \<Rightarrow> u8 \<Rightarrow> gdt_entry" where
  "gdt_entry_of base limit acc gran =
     \<lparr>limit_low = ucast (limit AND 0xFFFF), base_low = ucast (base AND 0xFFFF), base_middle = ucast (drop_bit 16 base AND 0xFF),
      access = acc, granularity = ucast (drop_bit 16 limit AND 0x0F) OR (gran AND 0xF0), base_high = ucast (drop_bit 24 base AND 0xFF)\<rparr>"

definition gdt_set_entry_at :: "nat \<Rightarrow> u32 \<Rightarrow> u32 \<Rightarrow> u8 \<Rightarrow> u8 \<Rightarrow> gdt_entry list \<Rightarrow> gdt_entry list" where
  "gdt_set_entry_at num base limit acc gran gdt = gdt[num := gdt_entry_of base limit acc gran]"

text \<open>What the processor reads from a descriptor; a limit counts pages when bit 7 of the granularity is set.\<close>

definition seg_base :: "gdt_entry \<Rightarrow> u32" where
  "seg_base e = ucast (base_low e) OR push_bit 16 (ucast (base_middle e)) OR push_bit 24 (ucast (base_high e))"

definition seg_limit :: "gdt_entry \<Rightarrow> u32" where
  "seg_limit e =
     (let l = ucast (limit_low e) OR push_bit 16 (ucast (granularity e AND 0x0F))
      in if bit (granularity e) 7 then push_bit 12 l OR 0xFFF else l)"

definition seg_present :: "gdt_entry \<Rightarrow> bool" where "seg_present e \<longleftrightarrow> bit (access e) 7"
definition seg_dpl :: "gdt_entry \<Rightarrow> u8" where "seg_dpl e = drop_bit 5 (access e) AND 3"

section \<open>State\<close>

text \<open>
  The fields of the task state segment that the kernel writes. The scheduler keeps \<open>esp0\<close>, which changes with
  every switch of tasks, in its own state.
\<close>

record tss =
  tss_link :: u32
  esp0 :: u32
  ss0 :: u32
  tss_cs :: u32
  tss_ss :: u32
  tss_ds :: u32
  tss_es :: u32
  tss_fs :: u32
  tss_gs :: u32
  iopb :: u16

text \<open>
  The registers of a CPU: the table it uses, its task register and its segment registers; \<open>sel_ds\<close> stands for
  \<open>ds\<close>, \<open>ss\<close>, \<open>es\<close> and \<open>fs\<close>, which are always loaded together.
\<close>

record segs =
  gdtr :: "gdt_entry list"
  task_reg :: u16
  sel_cs :: u16
  sel_ds :: u16
  sel_gs :: u16

record gdts =
  boot_gdt :: "gdt_entry list"
  per_cpu_gdt :: "nat \<Rightarrow> gdt_entry list"
  per_cpu_tss :: "nat \<Rightarrow> tss"
  cpu_segs :: "nat \<Rightarrow> segs"

definition null_entry :: gdt_entry where "null_entry = gdt_entry_of 0 0 0 0"

text \<open>\<open>lgdt\<close>, and the loads of the segment registers by \<open>reload_segments\<close>.\<close>

definition load_gdt :: "nat \<Rightarrow> gdt_entry list \<Rightarrow> gdts \<Rightarrow> gdts" where
  "load_gdt cpu gdt s = s\<lparr>cpu_segs := (cpu_segs s)(cpu := (cpu_segs s cpu)\<lparr>gdtr := gdt\<rparr>)\<rparr>"

definition reload_segments :: "nat \<Rightarrow> gdts \<Rightarrow> gdts" where
  "reload_segments cpu s = s\<lparr>cpu_segs := (cpu_segs s)(cpu := (cpu_segs s cpu)\<lparr>sel_ds := GDT_DATA, sel_cs := GDT_CODE\<rparr>)\<rparr>"

definition init_gdt :: "nat \<Rightarrow> gdts \<Rightarrow> gdts" where
  "init_gdt cpu s =
     (let g = boot_gdt s;
          g = gdt_set_entry_at 0 0 0 0 0 g;
          g = gdt_set_entry_at 1 0 0xFFFFFFFF 0x9A 0xCF g;
          g = gdt_set_entry_at 2 0 0xFFFFFFFF 0x92 0xCF g;
          g = gdt_set_entry_at 3 0 0xFFFFFFFF 0xFA 0xCF g;
          g = gdt_set_entry_at 4 0 0xFFFFFFFF 0xF2 0xCF g
      in reload_segments cpu (load_gdt cpu g (s\<lparr>boot_gdt := g\<rparr>)))"

text \<open>\<open>tss_at\<close> and \<open>cpu_info_at\<close> are the addresses of the structures of a CPU: 104 and 24 bytes.\<close>

definition gdt_init_percpu :: "(nat \<Rightarrow> u32) \<Rightarrow> (nat \<Rightarrow> u32) \<Rightarrow> nat \<Rightarrow> gdts \<Rightarrow> gdts" where
  "gdt_init_percpu tss_at cpu_info_at cpu s =
     (let g = fold (\<lambda>i g. g[i := boot_gdt s ! i]) [0..<5] (per_cpu_gdt s cpu);
          g = gdt_set_entry_at 5 (tss_at cpu) 103 0x89 0x00 g;
          g = gdt_set_entry_at 6 (cpu_info_at cpu) 23 0x92 0x00 g;
          t = (per_cpu_tss s cpu)\<lparr>ss0 := ucast GDT_DATA, esp0 := 0, tss_cs := ucast GDT_CODE, tss_ds := ucast GDT_DATA,
                 tss_es := ucast GDT_DATA, tss_fs := ucast GDT_DATA, tss_gs := ucast GDT_PERCPU, tss_ss := ucast GDT_DATA, iopb := 104\<rparr>;
          s = s\<lparr>per_cpu_gdt := (per_cpu_gdt s)(cpu := g), per_cpu_tss := (per_cpu_tss s)(cpu := t)\<rparr>;
          s = reload_segments cpu (load_gdt cpu g s)
      in s\<lparr>cpu_segs := (cpu_segs s)(cpu := (cpu_segs s cpu)\<lparr>task_reg := GDT_TSS, sel_gs := GDT_PERCPU\<rparr>)\<rparr>)"

section \<open>Decoding\<close>

lemma base_decoded: "seg_base (gdt_entry_of b l a g) = b"
proof (rule bit_word_eqI)
  fix n assume "n < LENGTH(32)"
  have ff: "(0xFF :: u32) = mask 8" "(0xFFFF :: u32) = mask 16" by (simp_all add: mask_eq_exp_minus_1)
  consider "n < 16" | "16 \<le> n" "n < 24" | "24 \<le> n" by linarith
  then show "bit (seg_base (gdt_entry_of b l a g)) n \<longleftrightarrow> bit b n"
    using \<open>n < LENGTH(32)\<close> unfolding seg_base_def gdt_entry_of_def ff
    by cases (auto simp: bit_or_iff bit_and_iff bit_push_bit_iff bit_ucast_iff bit_drop_bit_eq bit_mask_iff)
qed

text \<open>The segments of \<open>init_gdt\<close> cover all addresses; they differ in the level from which they can be used.\<close>

definition flat :: "u8 \<Rightarrow> gdt_entry \<Rightarrow> bool" where
  "flat level e \<longleftrightarrow> seg_present e \<and> seg_base e = 0 \<and> seg_limit e = 0xFFFFFFFF \<and> seg_dpl e = level"

lemma flat_entries:
  "flat 0 (gdt_entry_of 0 0xFFFFFFFF 0x9A 0xCF)" "flat 0 (gdt_entry_of 0 0xFFFFFFFF 0x92 0xCF)"
  "flat 3 (gdt_entry_of 0 0xFFFFFFFF 0xFA 0xCF)" "flat 3 (gdt_entry_of 0 0xFFFFFFFF 0xF2 0xCF)"
  by (simp_all add: flat_def base_decoded) (simp_all add: gdt_entry_of_def seg_present_def seg_dpl_def seg_limit_def Let_def)

text \<open>The descriptor that a selector names in the table of the CPU.\<close>

definition seg :: "segs \<Rightarrow> u16 \<Rightarrow> gdt_entry" where
  "seg r sel = gdtr r ! (unat sel div 8)"

text \<open>
  On a CPU that has been set up, the kernel and user segments are flat, with levels 0 and 3; the task register
  names the CPU's own task state segment, whose stack segment is that of the kernel; and offset 0 in GS
  is the structure of that CPU, which \<open>get_cpu_id\<close> reads.
\<close>

lemma percpu_segments:
  fixes tss_at cpu_info_at :: "nat \<Rightarrow> u32" and boot :: nat
  assumes "length (boot_gdt s) = 5" and "length (per_cpu_gdt s cpu) = GDT_ENTRIES"
  defines "s' \<equiv> gdt_init_percpu tss_at cpu_info_at cpu (init_gdt boot s)"
  defines "r \<equiv> cpu_segs s' cpu"
  shows "flat 0 (seg r GDT_CODE)" "flat 0 (seg r GDT_DATA)" "flat 3 (seg r GDT_UCODE)" "flat 3 (seg r GDT_UDATA)"
    and "seg_base (seg r (task_reg r)) = tss_at cpu" and "seg_limit (seg r (task_reg r)) = 103"
    and "seg_base (seg r (sel_gs r)) = cpu_info_at cpu" and "seg_dpl (seg r (sel_gs r)) = 0"
    and "ss0 (per_cpu_tss s' cpu) = ucast GDT_DATA"
proof -
  let ?g = "boot_gdt (init_gdt boot s)"
  let ?h = "((per_cpu_gdt s cpu)[0 := ?g ! 0, 1 := ?g ! 1, 2 := ?g ! 2, 3 := ?g ! 3, 4 := ?g ! 4])
      [5 := gdt_entry_of (tss_at cpu) 103 0x89 0, 6 := gdt_entry_of (cpu_info_at cpu) 23 0x92 0]"
  have "per_cpu_gdt (init_gdt boot s) = per_cpu_gdt s"
    by (simp add: init_gdt_def Let_def reload_segments_def load_gdt_def)
  moreover have up: "[0..<5] = [0, 1, 2, 3, 4 :: nat]" by (simp add: upt_conv_Cons)
  ultimately have r: "gdtr r = ?h" "task_reg r = GDT_TSS" "sel_gs r = GDT_PERCPU"
    by (simp_all add: r_def s'_def gdt_init_percpu_def Let_def reload_segments_def load_gdt_def gdt_set_entry_at_def up)
  have g: "?g ! 1 = gdt_entry_of 0 0xFFFFFFFF 0x9A 0xCF" "?g ! 2 = gdt_entry_of 0 0xFFFFFFFF 0x92 0xCF"
    "?g ! 3 = gdt_entry_of 0 0xFFFFFFFF 0xFA 0xCF" "?g ! 4 = gdt_entry_of 0 0xFFFFFFFF 0xF2 0xCF"
    using assms(1) by (simp_all add: init_gdt_def Let_def reload_segments_def load_gdt_def gdt_set_entry_at_def)
  note len = assms(2) [unfolded GDT_ENTRIES_def]
  show "flat 0 (seg r GDT_CODE)" "flat 0 (seg r GDT_DATA)" "flat 3 (seg r GDT_UCODE)" "flat 3 (seg r GDT_UDATA)"
    using flat_entries len by (simp_all add: seg_def r g g(1) [unfolded One_nat_def] gdt_selectors)
  show "seg_base (seg r (task_reg r)) = tss_at cpu" "seg_base (seg r (sel_gs r)) = cpu_info_at cpu"
    using len by (simp_all add: seg_def r gdt_selectors base_decoded)
  show "seg_limit (seg r (task_reg r)) = 103" "seg_dpl (seg r (sel_gs r)) = 0"
    using len by (simp_all add: seg_def r gdt_selectors seg_limit_def seg_dpl_def gdt_entry_of_def)
  show "ss0 (per_cpu_tss s' cpu) = ucast GDT_DATA"
    by (simp add: s'_def gdt_init_percpu_def Let_def reload_segments_def load_gdt_def)
qed

end
