(* ===== verification/Interrupts.thy ===== *)
theory Interrupts
  imports Syscall Gdt
begin

text \<open>
  Interrupts, \<^verbatim>\<open>kernel/cpu/idt.c\<close> with the entry code of \<^verbatim>\<open>kernel/cpu/interrupt.S\<close>: the descriptor
  table and the code its gates lead to, the dispatch to the registered handlers, the acknowledgement, the switch
  of tasks at the end of a hardware interrupt, and the report of an exception.
\<close>

section \<open>The descriptor table\<close>

record idt_entry =
  gate_low :: u16
  gate_sel :: u16
  gate_always0 :: u8
  gate_flags :: u8
  gate_high :: u16

definition idt_set_entry :: "nat \<Rightarrow> u32 \<Rightarrow> u16 \<Rightarrow> u8 \<Rightarrow> idt_entry list \<Rightarrow> idt_entry list" where
  "idt_set_entry num base s fl t =
     t[num := \<lparr>gate_low = ucast (base AND 0xFFFF), gate_sel = s, gate_always0 = 0, gate_flags = fl,
               gate_high = ucast (drop_bit 16 base AND 0xFFFF)\<rparr>]"

text \<open>The entry points of the assembly code, and the number each of them pushes before it joins the common path.\<close>

datatype stub = Isr nat | Irq nat

definition stub_vector :: "stub \<Rightarrow> nat" where
  "stub_vector s = (case s of Isr n \<Rightarrow> n | Irq n \<Rightarrow> if n < 16 then 32 + n else n)"

text \<open>The gates that \<open>init_idt\<close> installs.\<close>

definition gates :: "(nat \<times> stub \<times> u8) list" where
  "gates = map (\<lambda>n. (n, Isr n, 0x8E)) [0..<32] @ map (\<lambda>n. (32 + n, Irq n, 0x8E)) [0..<16] @
     [(255, Isr 255, 0x8E), (0x50, Isr 0x50, 0x8E), (0x51, Irq 0x51, 0x8E), (128, Isr 128, 0xEE)]"

definition irq_remap :: "'a io_scheme \<Rightarrow> 'a io_scheme" where
  "irq_remap s =
     fold (\<lambda>(p, v). outb p v)
       [(0x20, 0x11), (0xA0, 0x11), (0x21, 0x20), (0xA1, 0x28), (0x21, 0x04), (0xA1, 0x02), (0x21, 0x01), (0xA1, 0x01),
        (0x21, 0xFC), (0xA1, 0x00)] s"

definition init_idt :: "(stub \<Rightarrow> u32) \<Rightarrow> idt_entry list \<times> 'a io_scheme \<Rightarrow> idt_entry list \<times> 'a io_scheme" where
  "init_idt at st =
     (case st of (t, s) \<Rightarrow>
      let t = fold (\<lambda>i. idt_set_entry i 0 0 0) [0..<256] t;
          t = fold (\<lambda>(n, stub, fl). idt_set_entry n (at stub) 0x08 fl) gates t
      in (t, irq_remap s))"

section \<open>Reports\<close>

text \<open>A message as the sequence of the calls that print it.\<close>

datatype out = Str string | Nl | Hex u32

fun out_screen :: "out list \<Rightarrow> scr \<Rightarrow> scr option" where
  "out_screen [] d = Some d"
| "out_screen (x # xs) d =
     Option.bind (case x of Str s \<Rightarrow> print_string (chars s) d | Nl \<Rightarrow> print_string [10] d | Hex n \<Rightarrow> print_hex n d) (out_screen xs)"

fun out_serial :: "out list \<Rightarrow> scr \<Rightarrow> scr option" where
  "out_serial [] d = Some d"
| "out_serial (x # xs) d =
     Option.bind (case x of Str s \<Rightarrow> serial_write_string (chars s) d | Nl \<Rightarrow> serial_write_string [10] d | Hex n \<Rightarrow> serial_write_hex n d)
       (out_serial xs)"

definition exception_names :: "string list" where
  "exception_names = [''Division By Zero'', ''Debug'', ''Non-Maskable Interrupt'', ''Breakpoint'', ''Overflow'',
     ''Bound Range Exceeded'', ''Invalid Opcode'', ''Device Not Available'', ''Double Fault'', ''Coprocessor Segment Overrun'',
     ''Invalid TSS'', ''Segment Not Present'', ''Stack-Segment Fault'', ''General Protection Fault'', ''Page Fault'', ''Reserved'',
     ''x87 Floating-Point Exception'', ''Alignment Check'', ''Machine Check'', ''SIMD Floating-Point Exception'',
     ''Virtualization Exception'', ''Reserved'', ''Reserved'', ''Reserved'', ''Reserved'', ''Reserved'', ''Reserved'', ''Reserved'',
     ''Reserved'', ''Reserved'', ''Security Exception'', ''Reserved'']"

text \<open>The control registers, and the words of memory as the address space of the CPU shows them.\<close>

record machine =
  ctl0 :: u32
  ctl2 :: u32
  ctl3 :: u32
  word_at :: "u32 \<Rightarrow> u32"

definition dump_registers :: "machine \<Rightarrow> regs \<Rightarrow> out list" where
  "dump_registers m r =
     [Str ''EIP: '', Hex (eip_saved r), Str ''  CS: '', Hex (seg_cs r), Str ''  EFLAGS: '', Hex (eflags r),
      Str ''  userESP: '', Hex (useresp r), Nl, Nl,
      Str ''EAX: '', Hex (eax r), Str ''  EBX: '', Hex (ebx r), Str ''  ECX: '', Hex (ecx r), Str ''  EDX: '', Hex (edx r), Nl,
      Str ''ESI: '', Hex (esi r), Str ''  EDI: '', Hex (edi r), Str ''  EBP: '', Hex (ebp r), Str ''  ESP: '', Hex (esp_saved r),
      Str ''  SS: '', Hex (seg_ss r), Nl, Nl,
      Str ''DS: '', Hex (seg_ds r), Str ''  ES: '', Hex (seg_es r), Str ''  FS: '', Hex (seg_fs r), Str ''  GS: '', Hex (seg_gs r), Nl,
      Str ''CR0: '', Hex (ctl0 m), Str ''  CR2: '', Hex (ctl2 m), Str ''  CR3: '', Hex (ctl3 m), Nl]"

definition dump_stack :: "machine \<Rightarrow> regs \<Rightarrow> out list" where
  "dump_stack m r =
     (let esp = (if seg_cs r AND 3 \<noteq> 0 then useresp r else esp_saved r)
      in if esp = 0 then []
         else [Str ''Stack dump (user ESP='', Hex esp, Str ''):'', Nl] @
              concat (map (\<lambda>i. let addr = (esp AND NOT 0xFFF) + w32 i * 4
                                in [Hex addr, Str '': '',
                                    Str (if addr \<ge> esp - 16 \<and> addr \<le> esp + 16 then ''=> '' else ''   ''),
                                    Hex (word_at m addr), Nl]) [0..<64]))"

definition dump_pagefault :: "machine \<Rightarrow> regs \<Rightarrow> out list" where
  "dump_pagefault m r =
     [Str ''CR2 (fault addr): '', Hex (ctl2 m), Nl, Str ''Page fault: '',
      Str (if err_code r AND 1 \<noteq> 0 then ''page-protection'' else ''not-present''), Str '', '',
      Str (if err_code r AND 2 \<noteq> 0 then ''write'' else ''read''), Str '', '',
      Str (if err_code r AND 4 \<noteq> 0 then ''user'' else ''supervisor''), Nl]"

fun backtrace :: "nat \<Rightarrow> machine \<Rightarrow> u32 \<Rightarrow> out list" where
  "backtrace 0 m b = []"
| "backtrace (Suc n) m b =
     (if b \<ge> 0x00010000 \<and> b < 0x00090000
      then [Str ''  ['', Hex (word_at m (b + 4)), Str '']'', Nl] @ backtrace n m (word_at m b) else [])"

definition dump_backtrace :: "machine \<Rightarrow> regs \<Rightarrow> out list" where
  "dump_backtrace m r = [Str ''Stack trace:'', Nl] @ backtrace 16 m (ebp r)"

definition exception_screen :: "machine \<Rightarrow> regs \<Rightarrow> out list" where
  "exception_screen m r =
     [Nl, Str ''!!! CPU EXCEPTION !!!'', Nl, Nl, Str ''Exception: '', Hex (int_no r), Str '' - '',
      Str (if int_no r < 32 then exception_names ! unat (int_no r) else ''Unknown''), Nl,
      Str ''Error code: '', Hex (err_code r), Nl, Nl] @
     (if int_no r = 0x0E then dump_pagefault m r else []) @ dump_registers m r @ dump_backtrace m r @ dump_stack m r @
     [Nl, Str ''System halted.'', Nl]"

definition exception_serial :: "machine \<Rightarrow> regs \<Rightarrow> out list" where
  "exception_serial m r =
     [Nl, Str ''!!! CPU EXCEPTION !!!'', Nl, Str ''Exception: '', Hex (int_no r), Str '' - ''] @
     (if int_no r < 32 then [Str (exception_names ! unat (int_no r))] else []) @
     [Nl, Str ''Error code: '', Hex (err_code r), Str '' EIP: '', Hex (eip_saved r), Str '' CS: '', Hex (seg_cs r),
      Str '' userESP: '', Hex (useresp r), Str '' SS: '', Hex (seg_ss r), Nl,
      Str ''EAX='', Hex (eax r), Str '' EBX='', Hex (ebx r), Str '' ECX='', Hex (ecx r), Str '' EDX='', Hex (edx r), Nl,
      Str ''ESI='', Hex (esi r), Str '' EDI='', Hex (edi r), Str '' EBP='', Hex (ebp r), Nl,
      Str ''DS='', Hex (seg_ds r), Str '' ES='', Hex (seg_es r), Str '' FS='', Hex (seg_fs r), Str '' GS='', Hex (seg_gs r), Nl] @
     (if int_no r = 0x0E then [Str ''CR2='', Hex (ctl2 m), Nl] else [])"

text \<open>The state in which the machine halts.\<close>

definition exception_handler :: "machine \<Rightarrow> regs \<Rightarrow> scr \<Rightarrow> scr option" where
  "exception_handler m r d =
     Option.bind (out_screen (exception_screen m r) (clear_screen d)) (out_serial (exception_serial m r))"

section \<open>Dispatch\<close>

text \<open>The handlers the kernel registers; a handler that finds its lock taken is told so by \<open>busy\<close>.\<close>

datatype handler = Timer | Resched | Keys | Tlb | Spurious

record intr =
  kern :: kernel
  handlers :: "u32 \<Rightarrow> handler option"
  pic :: io
  lapic_eois :: nat
  halted :: bool

definition register_interrupt_handler :: "u32 \<Rightarrow> handler \<Rightarrow> intr \<Rightarrow> intr" where
  "register_interrupt_handler irq h s = s\<lparr>handlers := (handlers s)(irq \<mapsto> h)\<rparr>"

definition lapic_eoi :: "intr \<Rightarrow> intr" where
  "lapic_eoi s = (if apic_enabled (vm (tsk (kern s))) then s\<lparr>lapic_eois := lapic_eois s + 1\<rparr> else s)"

text \<open>Reloading CR3 changes nothing but the translations that the processor has cached.\<close>

definition tlb_ipi_handler :: "intr \<Rightarrow> intr" where
  "tlb_ipi_handler s = lapic_eoi s"

definition run_handler :: "nat \<Rightarrow> bool \<Rightarrow> handler \<Rightarrow> intr \<Rightarrow> intr option" where
  "run_handler cpu busy h s =
     (case h of
        Timer \<Rightarrow> map_option (\<lambda>t. s\<lparr>kern := (kern s)\<lparr>tsk := t\<rparr>\<rparr>) (timer_handler cpu (\<not> busy) (tsk (kern s)))
      | Resched \<Rightarrow> Some (s\<lparr>kern := (kern s)\<lparr>tsk := resched_ipi_handler cpu (tsk (kern s))\<rparr>\<rparr>)
      | Keys \<Rightarrow> Some (s\<lparr>kern := (kern s)\<lparr>keys := keyboard_handler busy (keys (kern s))\<rparr>\<rparr>)
      | Tlb \<Rightarrow> Some (tlb_ipi_handler s)
      | Spurious \<Rightarrow> Some s)"

definition isr_handler :: "nat \<Rightarrow> bool \<Rightarrow> machine \<Rightarrow> regs \<Rightarrow> intr \<Rightarrow> intr option" where
  "isr_handler cpu busy m r s =
     (case handlers s (int_no r) of
        Some h \<Rightarrow> run_handler cpu busy h s
      | None \<Rightarrow>
          if int_no r < 32
          then map_option (\<lambda>d. s\<lparr>kern := (kern s)\<lparr>display := d\<rparr>, halted := True\<rparr>) (exception_handler m r (display (kern s)))
          else Some s)"

definition pic_eoi :: "u32 \<Rightarrow> intr \<Rightarrow> intr" where
  "pic_eoi vec s = s\<lparr>pic := outb 0x20 0x20 (if vec \<ge> 40 then outb 0xA0 0x20 (pic s) else pic s)\<rparr>"

definition irq_handler :: "nat \<Rightarrow> bool \<Rightarrow> regs \<Rightarrow> intr \<Rightarrow> intr option" where
  "irq_handler cpu busy r s =
     Option.bind (case handlers s (int_no r) of Some h \<Rightarrow> run_handler cpu busy h s | None \<Rightarrow> Some s) (\<lambda>s.
       Some (pic_eoi (int_no r) (if apic_enabled (vm (tsk (kern s))) then lapic_eoi s else s)))"

text \<open>\<open>irq_common\<close>: the stack pointer with which the interrupt returns.\<close>

definition irq_common :: "nat \<Rightarrow> bool \<Rightarrow> u32 \<Rightarrow> regs \<Rightarrow> intr \<Rightarrow> (u32 \<times> intr) option" where
  "irq_common cpu busy esp r s =
     Option.bind (irq_handler cpu busy r s) (\<lambda>s.
     Option.bind (task_switch_tick cpu esp (tsk (kern s))) (\<lambda>(new_esp, t).
       Some (if new_esp = 0 then esp else new_esp, s\<lparr>kern := (kern s)\<lparr>tsk := t\<rparr>\<rparr>)))"

section \<open>What the gates lead to\<close>

definition gate_offset :: "idt_entry \<Rightarrow> u32" where
  "gate_offset e = ucast (gate_low e) OR push_bit 16 (ucast (gate_high e))"

definition gate_dpl :: "idt_entry \<Rightarrow> u8" where
  "gate_dpl e = drop_bit 5 (gate_flags e) AND 3"

lemma offset_decoded: "ucast (ucast (b AND 0xFFFF) :: u16) OR push_bit 16 (ucast (ucast (drop_bit 16 b AND 0xFFFF) :: u16)) = b" for b :: u32
proof (rule bit_word_eqI)
  fix n assume n: "n < LENGTH(32)"
  have ff: "(0xFFFF :: u32) = mask 16" by (simp add: mask_eq_exp_minus_1)
  show "bit (ucast (ucast (b AND 0xFFFF) :: u16) OR push_bit 16 (ucast (ucast (drop_bit 16 b AND 0xFFFF) :: u16)) :: u32) n = bit b n"
    using n unfolding ff by (cases "n < 16") (auto simp: bit_or_iff bit_and_iff bit_push_bit_iff bit_ucast_iff bit_drop_bit_eq bit_mask_iff)
qed

lemma length_fold_gates: "length (fold (\<lambda>(n, stub, fl). idt_set_entry n (at stub) 0x08 fl) gs t) = length t"
  by (induction gs arbitrary: t) (auto simp: idt_set_entry_def)

lemma fold_gates_other:
  "n \<notin> fst ` set gs \<Longrightarrow> fold (\<lambda>(n, stub, fl). idt_set_entry n (at stub) 0x08 fl) gs t ! n = t ! n"
  by (induction gs arbitrary: t) (auto simp: idt_set_entry_def)

lemma fold_gates:
  fixes at :: "stub \<Rightarrow> u32"
  assumes "distinct (map fst gs)" and "(n, stub, fl) \<in> set gs" and "n < length t"
  defines "e \<equiv> fold (\<lambda>(n, stub, fl). idt_set_entry n (at stub) 0x08 fl) gs t ! n"
  shows "gate_offset e = at stub" and "gate_flags e = fl" and "gate_sel e = 0x08"
proof -
  have "fold (\<lambda>(n, stub, fl). idt_set_entry n (at stub) 0x08 fl) gs t ! n =
      \<lparr>gate_low = ucast (at stub AND 0xFFFF), gate_sel = 0x08, gate_always0 = 0, gate_flags = fl,
       gate_high = ucast (drop_bit 16 (at stub) AND 0xFFFF)\<rparr>"
    using assms(1-3)
  proof (induction gs arbitrary: t)
    case (Cons g gs)
    obtain k st f where g: "g = (k, st, f)" by (cases g) auto
    show ?case
    proof (cases "g = (n, stub, fl)")
      case True
      then have "n \<notin> fst ` set gs" using Cons.prems(1) by auto
      then show ?thesis using True Cons.prems(3) fold_gates_other [of n gs at] by (simp add: idt_set_entry_def [of n])
    next
      case False
      then have "(n, stub, fl) \<in> set gs" using Cons.prems(2) by auto
      then show ?thesis using Cons.IH [of "idt_set_entry k (at st) 0x08 f t"] Cons.prems(1,3) by (simp add: g) (simp add: idt_set_entry_def [of k])
    qed
  qed simp
  then show "gate_offset e = at stub" "gate_flags e = fl" "gate_sel e = 0x08" by (simp_all add: e_def gate_offset_def offset_decoded)
qed

lemma distinct_gates: "distinct (map fst gates)"
  by (auto simp: gates_def distinct_map o_def)

text \<open>
  Every gate that \<open>init_idt\<close> installs leads to the entry point that pushes the number of the gate, in the code
  segment of the kernel; and of all 256 gates only the one of system calls can be used by a program.
\<close>

lemma gates_installed:
  assumes "length t = 256" and "(n, stub, fl) \<in> set gates"
  shows "gate_offset (fst (init_idt at (t, s)) ! n) = at stub" and "gate_sel (fst (init_idt at (t, s)) ! n) = 0x08"
    and "stub_vector stub = n"
proof -
  have len: "length (fold (\<lambda>i. idt_set_entry i 0 0 0) is u) = length u" for "is" u
    by (induction "is" arbitrary: u) (simp_all add: idt_set_entry_def)
  have "n < 256" "stub_vector stub = n" using assms(2) by (auto simp: gates_def stub_vector_def)
  then show "gate_offset (fst (init_idt at (t, s)) ! n) = at stub" "gate_sel (fst (init_idt at (t, s)) ! n) = 0x08" "stub_vector stub = n"
    using fold_gates [OF distinct_gates assms(2), of "fold (\<lambda>i. idt_set_entry i 0 0 0) [0..<256] t" at] assms(1)
    by (simp_all add: init_idt_def Let_def len)
qed

lemma cleared_gate: "n < m \<Longrightarrow> n < length t \<Longrightarrow> gate_flags (fold (\<lambda>i. idt_set_entry i 0 0 0) [0..<m] t ! n) = 0"
proof (induction m)
  case (Suc m)
  have len: "length (fold (\<lambda>i. idt_set_entry i 0 0 0) is u) = length u" for "is" u
    by (induction "is" arbitrary: u) (simp_all add: idt_set_entry_def)
  show ?case
  proof (cases "n = m")
    case True
    then show ?thesis using Suc.prems by (simp add: idt_set_entry_def [of m] len)
  next
    case False
    then show ?thesis using Suc by (simp add: idt_set_entry_def [of m])
  qed
qed simp

lemma only_syscalls:
  fixes at :: "stub \<Rightarrow> u32" and s :: "'a io_scheme"
  assumes "length t = 256" and "n < 256"
  defines "e \<equiv> fst (init_idt at (t, s)) ! n"
  shows "gate_dpl e = 3 \<longleftrightarrow> n = 128"
proof -
  have len: "length (fold (\<lambda>i. idt_set_entry i 0 0 0) is u) = length u" for "is" u
    by (induction "is" arbitrary: u) (simp_all add: idt_set_entry_def)
  show ?thesis
  proof (cases "n \<in> fst ` set gates")
    case True
    then obtain stub fl where g: "(n, stub, fl) \<in> set gates" by auto
    then have "gate_flags e = fl"
      using fold_gates(2) [OF distinct_gates g, of "fold (\<lambda>i. idt_set_entry i 0 0 0) [0..<256] t" at] assms(1,2)
      by (simp add: e_def init_idt_def Let_def len)
    moreover have "fl = (if n = 128 then 0xEE else 0x8E)" using g by (auto simp: gates_def)
    ultimately show ?thesis by (simp add: gate_dpl_def)
  next
    case False
    then have "e = fold (\<lambda>i. idt_set_entry i 0 0 0) [0..<256] t ! n"
      by (simp add: e_def init_idt_def Let_def fold_gates_other)
    then have "gate_flags e = 0" using cleared_gate [of n 256 t] assms(1,2) by simp
    moreover have "n \<noteq> 128" using False by (auto simp: gates_def image_iff)
    ultimately show ?thesis by (simp add: gate_dpl_def)
  qed
qed

section \<open>A timer interrupt\<close>

text \<open>
  On a CPU that runs a task, the timer interrupt ends in the context of the next runnable task of the ring after that one, in the order
  of the ring and after waking the tasks whose time has come; or of the same task if there is no other.
\<close>

lemma timer_irq_switches:
  assumes h: "handlers s 32 = Some Timer" and v: "int_no r = 32" and r: "ring (store (tsk (kern s))) (ready_head (tsk (kern s))) ts"
    and c: "current_task (tsk (kern s)) cpu = c" "c \<in> set ts"
  obtains t1 esp' s' where "timer_handler cpu (\<not> busy) (tsk (kern s)) = Some t1"
    and "irq_common cpu busy esp r s = Some (esp', s')"
    and "case find (runnable cpu (store t1)) (others c ts) of
           None \<Rightarrow> esp' = esp \<and> current_task (tsk (kern s')) cpu = c
         | Some n \<Rightarrow> esp' = kernel_esp (store t1 n) \<and> current_task (tsk (kern s')) cpu = n \<and>
             kernel_esp (store (tsk (kern s')) c) = esp"
proof -
  let ?t = "tsk (kern s)"
  obtain t1 where t1: "timer_handler cpu (\<not> busy) ?t = Some t1" using timer_handler_ring [OF r] by (simp add: Let_def)
  have r1: "ring (store t1) (ready_head t1) ts" and c1: "current_task t1 = current_task ?t" "resched_pending t1 cpu"
    using r t1 by (subst ring_cong [of _ _ "store ?t"], auto simp: timer_handler_ring [OF r] Let_def)+
  let ?t1 = "t1\<lparr>resched_pending := (resched_pending t1)(cpu := False)\<rparr>"
  have "current_task t1 cpu \<noteq> 0" using c c1(1) r by (auto simp: ring_def)
  then have tick: "task_switch_tick cpu esp t1 = task_switch_from cpu esp TASK_READY 0 ?t1" using c1(2) by (simp add: task_switch_tick_def)
  have sw: "task_switch_from cpu esp TASK_READY 0 ?t1 =
    Some (case find (runnable cpu (store t1)) (others c ts) of
            None \<Rightarrow> (0, upd c (park cpu esp TASK_RUNNING 0) ?t1)
          | Some n \<Rightarrow> (kernel_esp (store t1 n), dispatch cpu n (upd c (park cpu esp TASK_READY 0) ?t1)))"
    using task_switch_from_ring [of ?t1 ts cpu c esp TASK_READY 0] r1 c c1(1) by (simp split: option.splits)
  obtain s1 where s1: "irq_handler cpu busy r s = Some s1" "tsk (kern s1) = t1"
    using h v t1 by (simp add: irq_handler_def run_handler_def pic_eoi_def lapic_eoi_def)
  have irq: "irq_common cpu busy esp r s = Option.bind (task_switch_from cpu esp TASK_READY 0 ?t1) (\<lambda>(new_esp, t).
       Some (if new_esp = 0 then esp else new_esp, s1\<lparr>kern := (kern s1)\<lparr>tsk := t\<rparr>\<rparr>))"
    by (simp add: irq_common_def s1 tick)
  show thesis
  proof (cases "find (runnable cpu (store t1)) (others c ts)")
    case None
    then show thesis using that [OF t1] irq sw c c1(1) by simp
  next
    case (Some n)
    have n: "kernel_esp (store t1 n) \<noteq> 0" "n \<in> set (others c ts)" using find_Some_mem [OF Some] by (auto simp: runnable_def)
    then have "n \<noteq> c" using path_others(2) [OF r c(2)] by auto
    then show thesis using that [OF t1] irq sw Some n(1) by simp
  qed
qed

end
