(* ===== verification/Apic.thy ===== *)
theory Apic
  imports Acpi Interrupts
begin

text \<open>
  The interrupt controllers, \<^verbatim>\<open>kernel/apic/lapic.c\<close> and \<^verbatim>\<open>kernel/apic/ioapic.c\<close>, and the start of the other
  processors, \<^verbatim>\<open>kernel/ap_startup.c\<close>. Both controllers are memory: a store goes through the page directory
  of the CPU that makes it, and reaches the register of the I/O APIC that the select register names, or is
  recorded with its physical address. \<open>None\<close> is a page fault. Delays and the serial log are left out.
\<close>

section \<open>Registers\<close>

definition LAPIC_BASE_PHYS :: u32 where "LAPIC_BASE_PHYS = 0xFEE00000"
definition LAPIC_ID :: u32 where "LAPIC_ID = 0x020"
definition LAPIC_VERSION :: u32 where "LAPIC_VERSION = 0x030"
definition LAPIC_TPR :: u32 where "LAPIC_TPR = 0x080"
definition LAPIC_EOI :: u32 where "LAPIC_EOI = 0x0B0"
definition LAPIC_SVR :: u32 where "LAPIC_SVR = 0x0F0"
definition LAPIC_ICR_LOW :: u32 where "LAPIC_ICR_LOW = 0x300"
definition LAPIC_ICR_HIGH :: u32 where "LAPIC_ICR_HIGH = 0x310"
definition LAPIC_LVT_TIMER :: u32 where "LAPIC_LVT_TIMER = 0x320"
definition LAPIC_LVT_LINT0 :: u32 where "LAPIC_LVT_LINT0 = 0x350"
definition LAPIC_LVT_LINT1 :: u32 where "LAPIC_LVT_LINT1 = 0x360"
definition LAPIC_LVT_ERROR :: u32 where "LAPIC_LVT_ERROR = 0x370"
definition IOAPIC_BASE_PHYS :: u32 where "IOAPIC_BASE_PHYS = 0xFEC00000"

lemmas lapic_consts = LAPIC_ID_def LAPIC_VERSION_def LAPIC_TPR_def LAPIC_EOI_def LAPIC_SVR_def LAPIC_ICR_LOW_def
  LAPIC_ICR_HIGH_def LAPIC_LVT_TIMER_def LAPIC_LVT_LINT0_def LAPIC_LVT_LINT1_def LAPIC_LVT_ERROR_def

text \<open>\<open>lapic_in\<close> is what the registers of the local APIC of a CPU read; \<open>bus\<close> are the stores, with the CPU that made them.\<close>

record smp =
  tsys_of :: tsys
  acpi_of :: acpi
  lapic :: u32
  ioapic :: u32
  lapic_in :: "nat \<Rightarrow> u32 \<Rightarrow> u32"
  bus :: "(nat \<times> u32 \<times> u32) list"
  ioregsel :: u32
  ioregs :: "u32 \<Rightarrow> u32"
  msr_apic_base :: "nat \<Rightarrow> u32"
  imcr :: io
  if_flag :: "nat \<Rightarrow> bool"
  idt_loaded :: "nat \<Rightarrow> bool"
  gdts_of :: gdts

definition with_vm :: "(vm \<Rightarrow> vm) \<Rightarrow> smp \<Rightarrow> smp" where
  "with_vm f s = s\<lparr>tsys_of := (tsys_of s)\<lparr>vm := f (vm (tsys_of s))\<rparr>\<rparr>"

definition phys_of :: "nat \<Rightarrow> u32 \<Rightarrow> smp \<Rightarrow> u32 option" where
  "phys_of cpu a s = translate (cpu_cr3 (tsys_of s) cpu) (vm (tsys_of s)) a"

definition mmio_write :: "nat \<Rightarrow> u32 \<Rightarrow> u32 \<Rightarrow> smp \<Rightarrow> smp option" where
  "mmio_write cpu a val s =
     map_option (\<lambda>p. if p = IOAPIC_BASE_PHYS then s\<lparr>ioregsel := val\<rparr>
                     else if p = IOAPIC_BASE_PHYS + 0x10 then s\<lparr>ioregs := (ioregs s)(ioregsel s := val)\<rparr>
                     else s\<lparr>bus := bus s @ [(cpu, p, val)]\<rparr>) (phys_of cpu a s)"

definition mmio_read :: "nat \<Rightarrow> u32 \<Rightarrow> smp \<Rightarrow> u32 option" where
  "mmio_read cpu a s =
     map_option (\<lambda>p. if p = IOAPIC_BASE_PHYS then ioregsel s
                     else if p = IOAPIC_BASE_PHYS + 0x10 then ioregs s (ioregsel s) else lapic_in s cpu p) (phys_of cpu a s)"

section \<open>The local APIC\<close>

definition lapic_read :: "nat \<Rightarrow> u32 \<Rightarrow> smp \<Rightarrow> u32 option" where
  "lapic_read cpu reg s = mmio_read cpu (lapic s + 4 * (reg div 4)) s"

definition lapic_write :: "nat \<Rightarrow> u32 \<Rightarrow> u32 \<Rightarrow> smp \<Rightarrow> smp option" where
  "lapic_write cpu reg val s = mmio_write cpu (lapic s + 4 * (reg div 4)) val s"

fun lapic_writes :: "nat \<Rightarrow> (u32 \<times> u32) list \<Rightarrow> smp \<Rightarrow> smp option" where
  "lapic_writes cpu [] s = Some s"
| "lapic_writes cpu ((reg, val) # ws) s = Option.bind (lapic_write cpu reg val s) (lapic_writes cpu ws)"

text \<open>\<open>get_cpu_id\<close> reads the first field of the structure that the register \<open>gs\<close> of the CPU points to.\<close>

definition get_cpu_id :: "nat \<Rightarrow> smp \<Rightarrow> nat" where
  "get_cpu_id cpu s = cpu_id (cpus (acpi_of s) cpu)"

definition lapic_init :: "nat \<Rightarrow> smp \<Rightarrow> smp option" where
  "lapic_init cpu s =
     (let a = acpi_get_lapic_addr (acpi_of s); phys = (if a = 0 then LAPIC_BASE_PHYS else a);
          s = with_vm (\<lambda>v. snd (map_page phys phys PAGE_WRITE v)) s;
          s = s\<lparr>lapic := phys\<rparr>;
          low = msr_apic_base s cpu;
          s = (if bit low 11 then s else s\<lparr>msr_apic_base := (msr_apic_base s)(cpu := low OR 0x800)\<rparr>)
      in Option.bind (lapic_writes cpu [(LAPIC_SVR, 0x1FF), (LAPIC_TPR, 0), (LAPIC_LVT_TIMER, 0x10000), (LAPIC_LVT_ERROR, 0x10000),
             (LAPIC_LVT_LINT0, if get_cpu_id cpu s = 0 then 0x700 else 0x10000), (LAPIC_LVT_LINT1, 0x400)] s) (\<lambda>s.
         Option.bind (lapic_read cpu LAPIC_ID s) (\<lambda>_. Option.bind (lapic_read cpu LAPIC_VERSION s) (\<lambda>_.
         Some (with_vm (\<lambda>v. v\<lparr>apic_enabled := True\<rparr>) s)))))"

definition lapic_send_ipi :: "nat \<Rightarrow> u32 \<Rightarrow> u32 \<Rightarrow> smp \<Rightarrow> smp option" where
  "lapic_send_ipi cpu dest icr_low = lapic_writes cpu [(LAPIC_ICR_HIGH, push_bit 24 dest), (LAPIC_ICR_LOW, icr_low)]"

definition lapic_send_ipi_all_exc_self :: "nat \<Rightarrow> u32 \<Rightarrow> smp \<Rightarrow> smp option" where
  "lapic_send_ipi_all_exc_self cpu vector = lapic_writes cpu [(LAPIC_ICR_HIGH, 0), (LAPIC_ICR_LOW, 0x000C0000 OR vector)]"

definition lapic_start_ap :: "nat \<Rightarrow> u32 \<Rightarrow> u32 \<Rightarrow> smp \<Rightarrow> smp option" where
  "lapic_start_ap cpu dest trampoline_page s =
     Option.bind (lapic_send_ipi cpu dest 0x0000C500 (s\<lparr>if_flag := (if_flag s)(cpu := False)\<rparr>)) (\<lambda>s.
     Option.bind (lapic_send_ipi cpu dest 0x00008500 s) (\<lambda>s.
     Option.bind (lapic_send_ipi cpu dest (0x00000600 OR trampoline_page) s) (\<lambda>s.
     Option.bind (lapic_send_ipi cpu dest (0x00000600 OR trampoline_page) s) (\<lambda>s.
     Some (s\<lparr>if_flag := (if_flag s)(cpu := True)\<rparr>)))))"

section \<open>The I/O APIC\<close>

definition ioapic_read :: "nat \<Rightarrow> u32 \<Rightarrow> smp \<Rightarrow> (u32 \<times> smp) option" where
  "ioapic_read cpu reg s =
     Option.bind (mmio_write cpu (ioapic s) reg s) (\<lambda>s. map_option (\<lambda>x. (x, s)) (mmio_read cpu (ioapic s + 0x10) s))"

definition ioapic_write :: "nat \<Rightarrow> u32 \<Rightarrow> u32 \<Rightarrow> smp \<Rightarrow> smp option" where
  "ioapic_write cpu reg val s = Option.bind (mmio_write cpu (ioapic s) reg s) (\<lambda>s. mmio_write cpu (ioapic s + 0x10) val s)"

definition ioapic_set_irq :: "nat \<Rightarrow> u32 \<Rightarrow> u32 \<Rightarrow> u32 \<Rightarrow> bool \<Rightarrow> smp \<Rightarrow> smp option" where
  "ioapic_set_irq cpu irq dest vector masked s =
     Option.bind (ioapic_write cpu (0x10 + 2 * irq) (if masked then vector OR 0x10000 else vector) s)
       (ioapic_write cpu (0x10 + 2 * irq + 1) (push_bit 24 dest))"

fun mask_irqs :: "nat \<Rightarrow> nat list \<Rightarrow> smp \<Rightarrow> smp option" where
  "mask_irqs cpu [] s = Some s"
| "mask_irqs cpu (i # is) s = Option.bind (ioapic_set_irq cpu (w32 i) 0 0 True s) (mask_irqs cpu is)"

definition ioapic_init :: "nat \<Rightarrow> smp \<Rightarrow> smp option" where
  "ioapic_init cpu s =
     (let s = with_vm (\<lambda>v. snd (map_page IOAPIC_BASE_PHYS IOAPIC_BASE_PHYS PAGE_WRITE v)) s;
          s = s\<lparr>ioapic := IOAPIC_BASE_PHYS\<rparr>
      in Option.bind (ioapic_read cpu 1 s) (\<lambda>(ver, s).
         let max_entries = drop_bit 16 ver AND 0xFF
         in Option.bind (lapic_read cpu LAPIC_ID s) (\<lambda>i. Option.bind (ioapic_set_irq cpu 0 (drop_bit 24 i) 0x20 False s) (\<lambda>s.
            Option.bind (lapic_read cpu LAPIC_ID s) (\<lambda>i. Option.bind (ioapic_set_irq cpu 1 (drop_bit 24 i) 0x21 False s) (\<lambda>s.
            Option.bind (mask_irqs cpu [2..<Suc (unat max_entries)] s) (\<lambda>s.
            Some (s\<lparr>imcr := outb 0x23 1 (outb 0x22 0x70 (imcr s))\<rparr>))))))))"

section \<open>Starting the processors\<close>

definition TRAMPOLINE_ADDR :: u32 where "TRAMPOLINE_ADDR = 0x70000"
definition TRAMPOLINE_DATA :: u32 where "TRAMPOLINE_DATA = TRAMPOLINE_ADDR + 0x200"

definition word_bytes :: "u32 \<Rightarrow> u8 list" where
  "word_bytes x = [ucast x, ucast (drop_bit 8 x), ucast (drop_bit 16 x), ucast (drop_bit 24 x)]"

definition store_at :: "nat \<Rightarrow> u32 \<Rightarrow> u8 list \<Rightarrow> smp \<Rightarrow> smp option" where
  "store_at cpu a bs s =
     map_option (\<lambda>v. with_vm (\<lambda>_. v) s) (store_bytes (cpu_cr3 (tsys_of s) cpu) a bs (vm (tsys_of s)))"

fun start_each :: "nat \<Rightarrow> nat list \<Rightarrow> smp \<Rightarrow> smp option" where
  "start_each cpu [] s = Some s"
| "start_each cpu (i # is) s =
     Option.bind (lapic_start_ap cpu (apic_id (cpus (acpi_of s) i)) (drop_bit 12 TRAMPOLINE_ADDR) s) (start_each cpu is)"

text \<open>The trampoline and the address of \<open>ap_main\<close> come from the linker.\<close>

definition start_aps :: "u8 list \<Rightarrow> u32 \<Rightarrow> nat \<Rightarrow> smp \<Rightarrow> smp option" where
  "start_aps trampoline ap_main_at cpu s =
     (if cpu_total (acpi_of s) \<le> 1 then Some s
      else let s = with_vm (\<lambda>v. snd (map_page TRAMPOLINE_ADDR TRAMPOLINE_ADDR PAGE_WRITE v)) s
           in Option.bind (store_at cpu TRAMPOLINE_ADDR trampoline s) (\<lambda>s.
              Option.bind (store_at cpu TRAMPOLINE_DATA (word_bytes (cpu_cr3 (tsys_of s) cpu)) s) (\<lambda>s.
              Option.bind (store_at cpu (TRAMPOLINE_DATA + 4) (word_bytes ap_main_at) s) (\<lambda>s.
              start_each cpu [1..<cpu_total (acpi_of s)] s))))"

text \<open>How \<open>ap_main\<close> ends: the processor halts, or it enters the idle task with the stack pointer of the task.\<close>

datatype ap_result = Unknown_id | No_stack | Entered u32

definition find_cpu :: "u32 \<Rightarrow> smp \<Rightarrow> nat option" where
  "find_cpu i s = find (\<lambda>n. apic_id (cpus (acpi_of s) n) = i) [0..<cpu_total (acpi_of s)]"

definition set_cpu :: "nat \<Rightarrow> (cpu_info \<Rightarrow> cpu_info) \<Rightarrow> smp \<Rightarrow> smp" where
  "set_cpu n f s = s\<lparr>acpi_of := (acpi_of s)\<lparr>cpus := (cpus (acpi_of s))(n := f (cpus (acpi_of s) n))\<rparr>\<rparr>"

text \<open>
  The registers of a processor are kept under the number of its slot, so a processor without one has none in
  the state; the interrupt flag at the end is the one before \<open>iret\<close> takes it from the frame of the task.
\<close>

definition ap_main :: "(nat \<Rightarrow> u32) \<Rightarrow> (nat \<Rightarrow> u32) \<Rightarrow> u32 \<Rightarrow> u32 \<Rightarrow> smp \<Rightarrow> (ap_result \<times> smp) option" where
  "ap_main tss_at cpu_info_at task_idle_loop i s =
     (case find_cpu i s of
        None \<Rightarrow> Some (Unknown_id, s)
      | Some n \<Rightarrow>
          let s = s\<lparr>idt_loaded := (idt_loaded s)(n := True)\<rparr>;
              (stack, fr) = alloc_frames 2 (frames (vm (tsys_of s))); s = with_vm (\<lambda>v. v\<lparr>frames := fr\<rparr>) s
          in if stack = 0 then Some (No_stack, s\<lparr>if_flag := (if_flag s)(n := False)\<rparr>)
             else let s = set_cpu n (\<lambda>c. c\<lparr>stack_top := stack + 0x2000\<rparr>) s;
                      s = s\<lparr>gdts_of := gdt_init_percpu tss_at cpu_info_at n (gdts_of s)\<rparr>;
                      s = s\<lparr>tsys_of := gdt_set_kernel_stack n (stack + 0x2000) (tsys_of s)\<rparr>
                  in Option.bind (start_idle n task_idle_loop (tsys_of s)) (\<lambda>t.
                     let s = set_cpu n (\<lambda>c. c\<lparr>cpu_st := CPU_RUNNING\<rparr>) (s\<lparr>tsys_of := t\<rparr>)
                     in Option.bind (lapic_init n s) (\<lambda>s.
                        Some (Entered (kernel_esp (store (tsys_of s) (current_task (tsys_of s) n))), s\<lparr>if_flag := (if_flag s)(n := False)\<rparr>))))"

text \<open>
  What \<open>kernel_main\<close> does with the tables: the boot processor reads them through its own page directory, and
  the number of processors is the one the scheduler uses.
\<close>

definition discover :: "nat \<Rightarrow> smp \<Rightarrow> (int \<times> smp) option" where
  "discover cpu s =
     (let t = tsys_of s; a = (acpi_of s)\<lparr>acpi_vm := (vm t)\<lparr>cr3 := cpu_cr3 t cpu\<rparr>\<rparr>
      in map_option (\<lambda>(r, a). (r, s\<lparr>acpi_of := a, tsys_of := t\<lparr>vm := acpi_vm a, cpu_count := cpu_total a\<rparr>\<rparr>)) (acpi_parse_madt a))"

definition tlb_init :: "intr \<Rightarrow> intr" where
  "tlb_init s = register_interrupt_handler TLB_IPI_VECTOR Tlb s"

section \<open>What the controllers are told\<close>

text \<open>The registers of a controller are mapped to themselves for a CPU.\<close>

definition reaches :: "nat \<Rightarrow> u32 \<Rightarrow> smp \<Rightarrow> bool" where
  "reaches cpu a s \<longleftrightarrow> phys_of cpu a s = Some a"

lemma reaches_unchanged [simp]:
  "reaches cpu a (s\<lparr>bus := x\<rparr>) = reaches cpu a s" "reaches cpu a (s\<lparr>if_flag := i\<rparr>) = reaches cpu a s"
  "reaches cpu a (s\<lparr>ioregsel := r\<rparr>) = reaches cpu a s" "reaches cpu a (s\<lparr>ioregs := f\<rparr>) = reaches cpu a s"
  by (simp_all add: reaches_def phys_of_def)

lemma lapic_writes_bus:
  assumes "\<forall>(reg, val) \<in> set ws. reaches cpu (lapic s + 4 * (reg div 4)) s \<and>
    lapic s + 4 * (reg div 4) \<notin> {IOAPIC_BASE_PHYS, IOAPIC_BASE_PHYS + 0x10}"
  shows "lapic_writes cpu ws s = Some (s\<lparr>bus := bus s @ map (\<lambda>(reg, val). (cpu, lapic s + 4 * (reg div 4), val)) ws\<rparr>)"
  using assms
proof (induction ws arbitrary: s)
  case (Cons w ws)
  obtain reg val where w: "w = (reg, val)" by fastforce
  let ?s = "s\<lparr>bus := bus s @ [(cpu, lapic s + 4 * (reg div 4), val)]\<rparr>"
  have "lapic_write cpu reg val s = Some ?s"
    using Cons.prems by (simp add: w lapic_write_def mmio_write_def reaches_def)
  moreover have "lapic_writes cpu ws ?s =
      Some (?s\<lparr>bus := bus ?s @ map (\<lambda>(reg, val). (cpu, lapic ?s + 4 * (reg div 4), val)) ws\<rparr>)"
    by (rule Cons.IH) (use Cons.prems in simp)
  ultimately show ?case by (simp add: w)
qed simp

lemma lapic_send_ipi_bus:
  assumes "reaches cpu (lapic s + 0x300) s" and "reaches cpu (lapic s + 0x310) s"
    and "lapic s + 0x300 \<notin> {IOAPIC_BASE_PHYS, IOAPIC_BASE_PHYS + 0x10}"
    and "lapic s + 0x310 \<notin> {IOAPIC_BASE_PHYS, IOAPIC_BASE_PHYS + 0x10}"
  shows "lapic_send_ipi cpu dest icr s =
    Some (s\<lparr>bus := bus s @ [(cpu, lapic s + 0x310, push_bit 24 dest), (cpu, lapic s + 0x300, icr)]\<rparr>)"
  unfolding lapic_send_ipi_def by (subst lapic_writes_bus) (use assms in \<open>simp_all add: lapic_consts\<close>)

text \<open>
  A processor is started by the sequence INIT, its end, and the startup interrupt twice with the page of the
  trampoline, each addressed to that processor alone; interrupts are on again afterwards.
\<close>

lemma lapic_start_ap_sequence:
  assumes "reaches cpu (lapic s + 0x300) s" and "reaches cpu (lapic s + 0x310) s"
    and "lapic s + 0x300 \<notin> {IOAPIC_BASE_PHYS, IOAPIC_BASE_PHYS + 0x10}"
    and "lapic s + 0x310 \<notin> {IOAPIC_BASE_PHYS, IOAPIC_BASE_PHYS + 0x10}"
  shows "lapic_start_ap cpu dest tp s = Some (s\<lparr>if_flag := (if_flag s)(cpu := True),
    bus := bus s @ concat (map (\<lambda>icr. [(cpu, lapic s + 0x310, push_bit 24 dest), (cpu, lapic s + 0x300, icr)])
      [0xC500, 0x8500, 0x600 OR tp, 0x600 OR tp])\<rparr>)"
  using assms by (simp add: lapic_start_ap_def lapic_send_ipi_bus)

lemma window_apart: "IOAPIC_BASE_PHYS + 0x10 \<noteq> IOAPIC_BASE_PHYS"
  by simp

lemma ioapic_registers:
  assumes "reaches cpu IOAPIC_BASE_PHYS s" and "reaches cpu (IOAPIC_BASE_PHYS + 0x10) s"
  shows "mmio_write cpu IOAPIC_BASE_PHYS r s = Some (s\<lparr>ioregsel := r\<rparr>)"
    and "mmio_write cpu (IOAPIC_BASE_PHYS + 0x10) x s = Some (s\<lparr>ioregs := (ioregs s)(ioregsel s := x)\<rparr>)"
    and "mmio_read cpu (IOAPIC_BASE_PHYS + 0x10) s = Some (ioregs s (ioregsel s))"
  using assms window_apart by (simp_all only: mmio_write_def mmio_read_def reaches_def option.map if_True if_False simp_thms)

lemma ioapic_set_irq_regs:
  assumes "ioapic s = IOAPIC_BASE_PHYS" and "reaches cpu IOAPIC_BASE_PHYS s" and "reaches cpu (IOAPIC_BASE_PHYS + 0x10) s"
  shows "ioapic_set_irq cpu irq dest vector masked s = Some (s\<lparr>ioregsel := 0x11 + 2 * irq,
    ioregs := (ioregs s)(0x10 + 2 * irq := (if masked then vector OR 0x10000 else vector), 0x11 + 2 * irq := push_bit 24 dest)\<rparr>)"
  using assms
  by (simp add: ioapic_set_irq_def ioapic_write_def ioapic_registers add.commute)

text \<open>Masking a list of lines sets exactly their entries.\<close>

definition redirection :: "smp \<Rightarrow> nat \<Rightarrow> u32 \<times> u32" where
  "redirection s i = (ioregs s (0x10 + 2 * w32 i), ioregs s (0x11 + 2 * w32 i))"

lemma redirection_set:
  assumes "i < 1024" and "j < 1024"
  shows "redirection (s\<lparr>ioregsel := x, ioregs := (ioregs s)(0x10 + 2 * w32 i := lo, 0x11 + 2 * w32 i := hi)\<rparr>) j =
    (if j = i then (lo, hi) else redirection s j)"
proof -
  have e: "0x10 + 2 * w32 n = w32 (16 + 2 * n)" "0x11 + 2 * w32 n = w32 (17 + 2 * n)" for n by (simp_all add: w32_def)
  have inj: "w32 a = w32 b \<longleftrightarrow> a = b" if "a < 4294967296" "b < 4294967296" for a b using that by (metis unat_w32)
  show ?thesis using assms unfolding redirection_def e by (auto simp: inj)
qed

lemma mask_irqs_masked:
  assumes "ioapic s = IOAPIC_BASE_PHYS" and "reaches cpu IOAPIC_BASE_PHYS s" and "reaches cpu (IOAPIC_BASE_PHYS + 0x10) s"
    and "set is \<subseteq> {..<1024}"
  shows "\<exists>s'. mask_irqs cpu is s = Some s' \<and>
    (\<forall>j < 1024. redirection s' j = (if j \<in> set is then (0x10000, 0) else redirection s j))"
  using assms
proof (induction "is" arbitrary: s)
  case (Cons i "is")
  let ?s = "s\<lparr>ioregsel := 0x11 + 2 * w32 i, ioregs := (ioregs s)(0x10 + 2 * w32 i := 0x10000, 0x11 + 2 * w32 i := 0)\<rparr>"
  have i: "i < 1024" "set is \<subseteq> {..<1024}" using Cons.prems(4) by simp_all
  have step: "ioapic_set_irq cpu (w32 i) 0 0 True s = Some ?s" using ioapic_set_irq_regs [OF Cons.prems(1-3), of "w32 i" 0 0 True] by simp
  have r: "reaches cpu a ?s = reaches cpu a s" for a by (simp add: reaches_def phys_of_def)
  obtain s' where s': "mask_irqs cpu is ?s = Some s'"
      "\<forall>j < 1024. redirection s' j = (if j \<in> set is then (0x10000, 0) else redirection ?s j)"
    using Cons.IH [of ?s] Cons.prems(1-3) i(2) r by auto
  have "redirection s' j = (if j \<in> set (i # is) then (0x10000, 0) else redirection s j)" if "j < 1024" for j
  proof -
    have "redirection s' j = (if j \<in> set is then (0x10000, 0) else redirection ?s j)" using s'(2) that by blast
    also have "redirection ?s j = (if j = i then (0x10000, 0) else redirection s j)" by (rule redirection_set [OF i(1) that])
    finally show ?thesis by simp
  qed
  with step s'(1) show ?case by simp
qed simp

text \<open>
  After \<open>ioapic_init\<close> the timer and the keyboard interrupt the processor that ran it, at the vectors of the
  interrupt table, and every other line of the controller is masked.
\<close>

lemma ioapic_init_routes:
  fixes s :: smp
  defines "s1 \<equiv> (with_vm (\<lambda>v. snd (map_page IOAPIC_BASE_PHYS IOAPIC_BASE_PHYS PAGE_WRITE v)) s)\<lparr>ioapic := IOAPIC_BASE_PHYS\<rparr>"
  assumes r: "reaches cpu IOAPIC_BASE_PHYS s1" "reaches cpu (IOAPIC_BASE_PHYS + 0x10) s1" "reaches cpu (lapic s + 0x20) s1"
    and l: "lapic s + 0x20 \<notin> {IOAPIC_BASE_PHYS, IOAPIC_BASE_PHYS + 0x10}"
  defines "dest \<equiv> push_bit 24 (drop_bit 24 (lapic_in s cpu (lapic s + 0x20)))" and "m \<equiv> unat (drop_bit 16 (ioregs s 1) AND 0xFF)"
  shows "\<exists>s'. ioapic_init cpu s = Some s' \<and> redirection s' 0 = (0x20, dest) \<and> redirection s' 1 = (0x21, dest) \<and>
    (\<forall>i. 2 \<le> i \<longrightarrow> i \<le> m \<longrightarrow> redirection s' i = (0x10000, 0))"
proof -
  have "drop_bit 16 (ioregs s 1) AND 0xFF \<le> 0xFF" by (rule word_and_le1)
  then have m: "m < 256" by (simp add: m_def word_le_nat_alt)
  have [simp]: "ioapic s1 = IOAPIC_BASE_PHYS" "lapic s1 = lapic s" "ioregs s1 = ioregs s" "lapic_in s1 = lapic_in s"
    by (simp_all add: s1_def with_vm_def)
  let ?s2 = "s1\<lparr>ioregsel := 1\<rparr>"
  have ver: "ioapic_read cpu 1 s1 = Some (ioregs s 1, ?s2)"
    using r by (simp add: ioapic_read_def ioapic_registers)
  have idr: "lapic_read cpu LAPIC_ID t = Some (lapic_in t cpu (lapic t + 0x20))"
    if "reaches cpu (lapic t + 0x20) t" "lapic t = lapic s" for t
    using that l by (simp add: lapic_read_def mmio_read_def reaches_def LAPIC_ID_def)
  let ?s3 = "?s2\<lparr>ioregsel := 0x11 + 2 * w32 0, ioregs := (ioregs ?s2)(0x10 + 2 * w32 0 := 0x20, 0x11 + 2 * w32 0 := dest)\<rparr>"
  let ?s4 = "?s3\<lparr>ioregsel := 0x11 + 2 * w32 1, ioregs := (ioregs ?s3)(0x10 + 2 * w32 1 := 0x21, 0x11 + 2 * w32 1 := dest)\<rparr>"
  have s3: "ioapic_set_irq cpu 0 (drop_bit 24 (lapic_in s cpu (lapic s + 0x20))) 0x20 False ?s2 = Some ?s3"
    by (subst ioapic_set_irq_regs) (use r in \<open>simp_all add: dest_def w32_def\<close>)
  have s4: "ioapic_set_irq cpu 1 (drop_bit 24 (lapic_in s cpu (lapic s + 0x20))) 0x21 False ?s3 = Some ?s4"
    by (subst ioapic_set_irq_regs) (use r in \<open>simp_all add: dest_def w32_def\<close>)
  have "\<exists>s'. mask_irqs cpu [2..<Suc m] ?s4 = Some s' \<and>
      (\<forall>j < 1024. redirection s' j = (if j \<in> set [2..<Suc m] then (0x10000, 0) else redirection ?s4 j))"
    by (rule mask_irqs_masked) (use r m in auto)
  then obtain s5 where s5: "mask_irqs cpu [2..<Suc m] ?s4 = Some s5"
      "\<And>j. j < 1024 \<Longrightarrow> redirection s5 j = (if j \<in> set [2..<Suc m] then (0x10000, 0) else redirection ?s4 j)" by blast
  have zero_one: "redirection ?s4 0 = (0x20, dest)" "redirection ?s4 1 = (0x21, dest)"
    by (simp_all add: redirection_def w32_def)
  let ?s6 = "s5\<lparr>imcr := outb 0x23 1 (outb 0x22 0x70 (imcr s5))\<rparr>"
  have "ioapic_init cpu s = Some ?s6"
    unfolding ioapic_init_def Let_def s1_def [symmetric] using r idr [of ?s2] idr [of ?s3] ver s3 s4 s5(1)
    by (simp add: m_def [symmetric] del: upt_Suc)
  moreover have "redirection ?s6 j = redirection s5 j" for j by (simp add: redirection_def)
  ultimately show ?thesis using s5(2) [of 0] s5(2) [of 1] s5(2) zero_one m by (intro exI [of _ ?s6]) auto
qed

end
