(* ===== verification/Spec2Isabelle.thy ===== *)
theory Spec2Isabelle
  imports HeapAlloc Sync Scheduler TaskSched NvfsProps TcpProps Keyboard Ata ElfProps Screen UserExit Apic
begin

text \<open>
  Noverix is a 32-bit x86 hobby kernel written in C. This development models its
  components as HOL functions on explicit states and proves what makes them correct.
\<close>

end
